(* ===== verification/Prelude.thy ===== *)
theory Prelude
  imports Main "HOL-Library.Word" "HOL-Library.AList" "HOL-Library.Monad_Syntax"
begin

text \<open>
  Shared vocabulary of the development: the integer types of
  \<^verbatim>\<open>include/common/id.h\<close>, the error codes of
  \<^verbatim>\<open>include/common/error_code.h\<close>, assertions as values of the
  option monad, and the generic facts about lists, sets, association lists
  and quorums that the component theories use.

  A \<^verbatim>\<open>BOOST_ASSERT\<close>, a \<^verbatim>\<open>PANIC\<close> and an access outside a container
  end the process.  Operations that contain one return \<^typ>\<open>'a option\<close>;
  \<^term>\<open>None\<close> is the aborted process.
\<close>

section \<open>Types\<close>

type_synonym u8 = "8 word"
type_synonym u32 = "32 word"
type_synonym u64 = "64 word"

type_synonym az_id_t = u32
type_synonym shard_id_t = u32
type_synonym node_id_t = u32
type_synonym table_id_t = u32
type_synonym oid_t = u32
type_synonym tuple_id_t = u64
type_synonym xid_t = u64

datatype EC =
    EC_OK | EC_CODE_BEGIN | EC_TX_ABORT | EC_MARSHALL_ERROR | EC_UNMARSHALL_ERROR
  | EC_BUFFER_OVERFLOW | EC_INSUFFICIENT_SPACE | EC_LOCK_ERROR
  | EC_EXSISTING_TRANSACTION | EC_NO_SUCH_TRANSACTION | EC_IO_ERROR | EC_CONFIG_ERROR
  | EC_UNKNOWN_TABLE_ID | EC_NOT_LEADER | EC_FLOW_CONTROL | EC_UNKNOWN | EC_SYSTEM_ERROR
  | EC_NOT_IMPLEMENTED | EC_PRECONDITION_ERROR | EC_INVALID_ARGUMENT | EC_CANCELED_ERROR
  | EC_NOT_FOUND_ERROR | EC_PERMISSION_ERROR | EC_INFEASIBLE_ERROR | EC_DUPLICATION_ERROR
  | EC_BROKEN_DATA_ERROR | EC_NETWORK_ERROR | EC_NET_UNCONNECTED
  | EC_NET_CANNOT_FIND_CONNECTION | EC_NET_RESOLVE_ADDRESS_FAIL | EC_UNKNOWN_MESSAGE_TYPE
  | EC_APPLICATION_ERROR | EC_MESSAGE_HASH_ERROR | EC_MESSAGE_LENGTH_ERROR
  | EC_MESSAGE_MAGIC_ERROR | EC_MESSAGE_ID_ERROR | EC_CASCADE | EC_VICTIM
  | EC_APPEND_LOG_ERROR

section \<open>Assertions\<close>

definition boost_assert :: "bool \<Rightarrow> unit option" where
  "boost_assert b = (if b then Some () else None)"

lemma bind_boost_assert [simp]: "Option.bind (boost_assert b) f = (if b then f () else None)"
  by (simp add: boost_assert_def)

lemma boost_assert_Some [simp]: "boost_assert b = Some u \<longleftrightarrow> b"
  by (cases u) (simp add: boost_assert_def)

lemma boost_assert_None [simp]: "boost_assert b = None \<longleftrightarrow> \<not> b"
  by (simp add: boost_assert_def)

lemma bind_SomeD: "Option.bind m f = Some y \<Longrightarrow> \<exists>x. m = Some x \<and> f x = Some y"
  by (cases m) simp_all

lemma bind_SomeE [elim]:
  assumes "Option.bind m f = Some y"
  obtains x where "m = Some x" "f x = Some y"
  using assms by (cases m) simp_all

section \<open>Majorities\<close>

text \<open>Two majorities of the same finite set of nodes share a member.\<close>

lemma majority_intersect:
  assumes fin: "finite V" and A: "A \<subseteq> V" and B: "B \<subseteq> V"
    and mA: "card V < 2 * card A" and mB: "card V < 2 * card B"
  shows "A \<inter> B \<noteq> {}"
proof
  assume disj: "A \<inter> B = {}"
  have "card A + card B = card (A \<union> B)"
    using disj fin A B by (simp add: card_Un_disjoint finite_subset)
  also have "\<dots> \<le> card V"
    using fin A B by (intro card_mono) auto
  finally show False
    using mA mB by linarith
qed

section \<open>Lists\<close>

lemma distinct_filter_fst:
  "distinct (map fst xs) \<Longrightarrow> distinct (map fst (filter P xs))"
  by (induction xs) auto

lemma set_dropWhile_subset: "set (dropWhile P xs) \<subseteq> set xs"
  by (induction xs) auto

section \<open>Runs of a machine with assertions\<close>

text \<open>
  A component is driven by a sequence of calls.  \<^term>\<open>run step cs s\<close> executes them;
  \<^term>\<open>disciplined step ok cs s\<close> says that every call meets the caller's
  obligation \<^term>\<open>ok\<close> in the state in which it is issued.
\<close>

fun run :: "('c \<Rightarrow> 's \<Rightarrow> 's option) \<Rightarrow> 'c list \<Rightarrow> 's \<Rightarrow> 's option" where
  "run step [] s = Some s"
| "run step (c # cs) s = (case step c s of None \<Rightarrow> None | Some s' \<Rightarrow> run step cs s')"

lemma run_append:
  "run step (xs @ ys) s = (case run step xs s of None \<Rightarrow> None | Some s' \<Rightarrow> run step ys s')"
  by (induction xs arbitrary: s) (auto split: option.split)

fun disciplined :: "('c \<Rightarrow> 's \<Rightarrow> 's option) \<Rightarrow> ('c \<Rightarrow> 's \<Rightarrow> bool) \<Rightarrow> 'c list \<Rightarrow> 's \<Rightarrow> bool" where
  "disciplined step ok [] s = True"
| "disciplined step ok (c # cs) s =
     (ok c s \<and> (case step c s of None \<Rightarrow> True | Some s' \<Rightarrow> disciplined step ok cs s'))"

text \<open>
  The contract between a component and its callers: from a state that meets
  the invariant, a call that meets its obligation does not abort and
  re-establishes the invariant.
\<close>

locale guarded_machine =
  fixes step :: "'c \<Rightarrow> 's \<Rightarrow> 's option" and ok :: "'c \<Rightarrow> 's \<Rightarrow> bool" and inv :: "'s \<Rightarrow> bool"
  assumes step_safe: "inv s \<Longrightarrow> ok c s \<Longrightarrow> \<exists>s'. step c s = Some s' \<and> inv s'"
begin

lemma run_safe:
  assumes "inv s" "disciplined step ok cs s"
  shows "\<exists>s'. run step cs s = Some s' \<and> inv s'"
  using assms
proof (induction cs arbitrary: s)
  case (Cons c cs)
  then obtain s1 where s1: "step c s = Some s1" "inv s1" using step_safe[of s c] by auto
  then show ?case using Cons.IH[of s1] Cons.prems by simp
qed simp

lemma run_no_abort: "inv s \<Longrightarrow> disciplined step ok cs s \<Longrightarrow> run step cs s \<noteq> None"
  using run_safe by fastforce

lemma run_inv: "inv s \<Longrightarrow> disciplined step ok cs s \<Longrightarrow> run step cs s = Some s' \<Longrightarrow> inv s'"
  using run_safe by fastforce

end

end
