(* ===== verification/Tx_Wait.thy ===== *)
theory Tx_Wait
  imports Prelude
begin

text \<open>
  The wait-for graph of \<^verbatim>\<open>include/common/tx_wait.h\<close>: a node per waiting
  transaction (\<^verbatim>\<open>tx_wait\<close>), the set of nodes a site collects
  (\<^verbatim>\<open>tx_wait_set\<close>), and its exchange format \<^verbatim>\<open>dependency_set\<close>
  (\<^verbatim>\<open>src/proto/deadlock.proto\<close>).

  A member \<^verbatim>\<open>name_\<close> of a class is the record field \<^verbatim>\<open>name'\<close>.
  A \<^verbatim>\<open>std::unordered_set\<close> that the code iterates is a list, an
  \<^verbatim>\<open>std::unordered_map\<close> an association list: the order of the list is the
  unspecified iteration order of the container, and the theorems hold for
  every such order.  The counters \<^verbatim>\<open>index_\<close> and \<^verbatim>\<open>low_link_\<close> are
  natural numbers; \<^verbatim>\<open>Wait_Path\<close> proves that they stay below the number
  of nodes plus two, so that 64 bits never wrap.
\<close>

section \<open>Data\<close>

datatype color = COLOR_WHITE | COLOR_BLOCK | COLOR_GRAY

record tx_wait =
  xid' :: xid_t
  flag' :: color
  index' :: nat
  low_link' :: nat
  on_stack' :: bool
  in_set' :: "xid_t list"

definition new_tx_wait :: "xid_t \<Rightarrow> tx_wait" where
  "new_tx_wait x = \<lparr>xid' = x, flag' = COLOR_WHITE, index' = 0, low_link' = 0,
     on_stack' = False, in_set' = []\<rparr>"

definition tx_wait_init :: "tx_wait \<Rightarrow> tx_wait" where
  "tx_wait_init w = w\<lparr>index' := 0, low_link' := 0, on_stack' := False\<rparr>"

type_synonym tx_wait_map = "(xid_t \<times> tx_wait) list"

record tx_wait_set =
  limit' :: nat
  tx_wait' :: tx_wait_map
  victim' :: "xid_t list"
  finish' :: "xid_t list"

record dependency =
  dep_out :: xid_t
  dep_in :: "xid_t list"

record dependency_set =
  sequence :: nat
  dep :: "dependency list"
  victim :: "xid_t list"
  finish :: "xid_t list"

section \<open>Operations\<close>

text \<open>\<^verbatim>\<open>std::unordered_set::insert(begin, end)\<close>.\<close>

definition insert_all :: "'a list \<Rightarrow> 'a list \<Rightarrow> 'a list" where
  "insert_all xs s = fold List.insert xs s"

text \<open>\<^verbatim>\<open>template add(const CONTAINER \&in, xid_t out)\<close>.\<close>

definition add_in :: "xid_t list \<Rightarrow> xid_t \<Rightarrow> tx_wait_set \<Rightarrow> tx_wait_set" where
  "add_in ins out s =
     (case map_of (tx_wait' s) out of
        Some d \<Rightarrow> s\<lparr>tx_wait' := AList.update out (d\<lparr>in_set' := insert_all ins (in_set' d)\<rparr>) (tx_wait' s)\<rparr>
      | None \<Rightarrow> s\<lparr>tx_wait' := AList.update out ((new_tx_wait out)\<lparr>in_set' := insert_all ins []\<rparr>) (tx_wait' s)\<rparr>)"

text \<open>\<^verbatim>\<open>add(xid_t in, xid_t out)\<close>; the assertion follows the insertion.\<close>

definition add_edge :: "xid_t \<Rightarrow> xid_t \<Rightarrow> tx_wait_set \<Rightarrow> tx_wait_set option" where
  "add_edge i out s =
     (case map_of (tx_wait' s) out of
        Some d \<Rightarrow> do {
          boost_assert (i \<noteq> out);
          Some (s\<lparr>tx_wait' := AList.update out (d\<lparr>in_set' := List.insert i (in_set' d)\<rparr>) (tx_wait' s)\<rparr>) }
      | None \<Rightarrow> Some (s\<lparr>tx_wait' := AList.update out ((new_tx_wait out)\<lparr>in_set' := [i]\<rparr>) (tx_wait' s)\<rparr>))"

text \<open>\<^verbatim>\<open>template add(xid_t in, const CONTAINER \&out)\<close>.\<close>

fun add_out :: "xid_t \<Rightarrow> xid_t list \<Rightarrow> tx_wait_set \<Rightarrow> tx_wait_set option" where
  "add_out i [] s = Some s"
| "add_out i (v # vs) s = do { s' \<leftarrow> add_edge i v s; add_out i vs s' }"

text \<open>\<^verbatim>\<open>add(ptr<tx_wait> wait)\<close>.\<close>

definition add_wait_node :: "tx_wait \<Rightarrow> tx_wait_set \<Rightarrow> tx_wait_set" where
  "add_wait_node w s =
     (case map_of (tx_wait' s) (xid' w) of
        Some d \<Rightarrow> s\<lparr>tx_wait' := AList.update (xid' w) (d\<lparr>in_set' := insert_all (in_set' w) (in_set' d)\<rparr>) (tx_wait' s)\<rparr>
      | None \<Rightarrow> s\<lparr>tx_wait' := AList.update (xid' w) w (tx_wait' s)\<rparr>)"

definition finish_one :: "xid_t \<Rightarrow> tx_wait_set \<Rightarrow> tx_wait_set" where
  "finish_one x s = s\<lparr>tx_wait' := AList.delete x (tx_wait' s),
     victim' := removeAll x (victim' s), finish' := List.insert x (finish' s)\<rparr>"

definition add_dependency_set :: "dependency_set \<Rightarrow> tx_wait_set \<Rightarrow> tx_wait_set" where
  "add_dependency_set ds s =
     (let s1 = fold (\<lambda>d. add_in (dep_in d) (dep_out d)) (dep ds) s;
          s2 = s1\<lparr>victim' := insert_all (victim ds) (victim' s1)\<rparr>
      in fold finish_one (finish ds) s2)"

definition to_dependency_set :: "tx_wait_set \<Rightarrow> dependency_set" where
  "to_dependency_set s = \<lparr>sequence = 0,
     dep = map (\<lambda>(k, w). \<lparr>dep_out = xid' w, dep_in = in_set' w\<rparr>) (tx_wait' s),
     victim = victim' s, finish = finish' s\<rparr>"

definition clear_set :: "tx_wait_set \<Rightarrow> tx_wait_set" where
  "clear_set s = s\<lparr>tx_wait' := [], victim' := [], finish' := []\<rparr>"

section \<open>The graph a set denotes\<close>

text \<open>\<^term>\<open>waits_for s x\<close> is the set of transactions \<^term>\<open>x\<close> waits for.\<close>

definition waits_for :: "tx_wait_set \<Rightarrow> xid_t \<Rightarrow> xid_t set" where
  "waits_for s x = (case map_of (tx_wait' s) x of None \<Rightarrow> {} | Some w \<Rightarrow> set (in_set' w))"

text \<open>Keys are unique and every node is stored under its own identifier.\<close>

definition ws_wf :: "tx_wait_set \<Rightarrow> bool" where
  "ws_wf s \<longleftrightarrow> distinct (map fst (tx_wait' s)) \<and> (\<forall>(k, w) \<in> set (tx_wait' s). xid' w = k)"

lemma set_insert_all [simp]: "set (insert_all xs s) = set xs \<union> set s"
  unfolding insert_all_def by (induction xs arbitrary: s) auto

lemma ws_wf_map_of: "ws_wf s \<Longrightarrow> map_of (tx_wait' s) x = Some w \<Longrightarrow> xid' w = x"
  by (auto simp: ws_wf_def dest: map_of_SomeD)

lemma ws_wf_update:
  assumes "ws_wf s" "xid' w = k"
  shows "ws_wf (s\<lparr>tx_wait' := AList.update k w (tx_wait' s)\<rparr>)"
proof -
  have "distinct (map fst (AList.update k w (tx_wait' s)))"
    using assms by (simp add: ws_wf_def distinct_update)
  moreover have "\<forall>(k', w') \<in> set (AList.update k w (tx_wait' s)). xid' w' = k'"
    using assms calculation
    by (auto simp: ws_wf_def update_conv' dest!: map_of_is_SomeI split: if_splits dest: map_of_SomeD)
  ultimately show ?thesis by (simp add: ws_wf_def)
qed

lemma ws_wf_add_in: "ws_wf s \<Longrightarrow> ws_wf (add_in ins out s)"
  by (auto simp: add_in_def new_tx_wait_def split: option.split intro!: ws_wf_update dest: ws_wf_map_of)

lemma ws_wf_add_edge: "ws_wf s \<Longrightarrow> add_edge i out s = Some s' \<Longrightarrow> ws_wf s'"
  by (auto simp: add_edge_def new_tx_wait_def split: option.splits if_splits
      intro!: ws_wf_update dest: ws_wf_map_of)

lemma ws_wf_add_wait_node: "ws_wf s \<Longrightarrow> ws_wf (add_wait_node w s)"
  by (auto simp: add_wait_node_def split: option.split intro!: ws_wf_update dest: ws_wf_map_of)

lemma ws_wf_finish_one: "ws_wf s \<Longrightarrow> ws_wf (finish_one x s)"
  by (auto simp: ws_wf_def finish_one_def AList.delete_eq distinct_filter_fst)

lemma fold_invariant_simple: "P s \<Longrightarrow> (\<And>x s. P s \<Longrightarrow> P (f x s)) \<Longrightarrow> P (fold f xs s)"
  by (induction xs arbitrary: s) auto

lemma ws_wf_victim [simp]: "ws_wf (s\<lparr>victim' := v\<rparr>) = ws_wf s"
  by (simp add: ws_wf_def)

lemma ws_wf_add_dependency_set: "ws_wf s \<Longrightarrow> ws_wf (add_dependency_set ds s)"
  unfolding add_dependency_set_def Let_def
  by (intro fold_invariant_simple[where P = ws_wf] ws_wf_finish_one)
    (simp_all add: fold_invariant_simple[where P = ws_wf] ws_wf_add_in)

lemma waits_for_add_in [simp]:
  "waits_for (add_in ins out s) = (waits_for s)(out := waits_for s out \<union> set ins)"
  by (auto simp: waits_for_def add_in_def new_tx_wait_def update_conv' fun_eq_iff split: option.splits)

lemma waits_for_add_edge:
  "add_edge i out s = Some s' \<Longrightarrow> waits_for s' = (waits_for s)(out := insert i (waits_for s out))"
  by (auto simp: waits_for_def add_edge_def update_conv' fun_eq_iff split: option.splits if_splits)

lemma waits_for_add_wait_node [simp]:
  "waits_for (add_wait_node w s) = (waits_for s)(xid' w := waits_for s (xid' w) \<union> set (in_set' w))"
  by (auto simp: waits_for_def add_wait_node_def update_conv' fun_eq_iff split: option.splits)

lemma waits_for_finish_one [simp]: "waits_for (finish_one x s) = (waits_for s)(x := {})"
  by (auto simp: waits_for_def finish_one_def delete_conv' fun_eq_iff split: option.splits)

end
