(* ===== verification/Wait_Path_SCC.thy ===== *)
theory Wait_Path_SCC
  imports Wait_Path
begin

text \<open>
  Correctness of the search of \<^verbatim>\<open>Wait_Path\<close>: with one unit of fuel per
  node it returns, and the components it reports are exactly the strongly
  connected components of the wait-for graph that have more than one node.

  The invariant \<^verbatim>\<open>sinv\<close> relates the node table, the stack and the set of
  active calls; \<^verbatim>\<open>sc_post\<close> is the contract of one call; the loop over the
  successors is proved against any function that meets the contract, and
  the recursion closes by induction on the fuel.
\<close>

section \<open>Accessors after each table operation\<close>

lemma map_of_node_update:
  "map_of (node_update x f m) = (case map_of m x of None \<Rightarrow> map_of m | Some w \<Rightarrow> (map_of m)(x \<mapsto> f w))"
  by (simp add: node_update_def update_conv' split: option.split)

lemma dom_node_update [simp]: "dom (map_of (node_update x f m)) = dom (map_of m)"
  by (auto simp: map_of_node_update split: option.splits if_splits)

definition wedges :: "tx_wait_map \<Rightarrow> (xid_t \<times> xid_t) set" where
  "wedges m = {(x, y). x \<in> dom (map_of m) \<and> y \<in> dom (map_of m) \<and> y \<in> set (node_in m x)}"

abbreviation "idx s \<equiv> node_index (nodes s)"
abbreviation "lo s \<equiv> node_low (nodes s)"
abbreviation "ons s \<equiv> node_on_stack (nodes s)"

lemma node_in_update:
  "(\<And>w. in_set' (f w) = in_set' w) \<Longrightarrow> node_in (node_update x f m) = node_in m"
  by (auto simp: node_in_def map_of_node_update fun_eq_iff split: option.splits)

lemma node_index_update:
  "(\<And>w. index' (f w) = index' w) \<Longrightarrow> node_index (node_update x f m) = node_index m"
  by (auto simp: node_index_def map_of_node_update fun_eq_iff split: option.splits)

lemma node_low_update:
  "(\<And>w. low_link' (f w) = low_link' w) \<Longrightarrow> node_low (node_update x f m) = node_low m"
  by (auto simp: node_low_def map_of_node_update fun_eq_iff split: option.splits)

lemma node_on_stack_update:
  "(\<And>w. on_stack' (f w) = on_stack' w) \<Longrightarrow> node_on_stack (node_update x f m) = node_on_stack m"
  by (auto simp: node_on_stack_def map_of_node_update fun_eq_iff split: option.splits)

lemma enter_simps:
  assumes "v \<in> dom (map_of (nodes s))"
  shows "idx (scc_enter v s) = (idx s)(v := next_index s)"
    and "lo (scc_enter v s) = (lo s)(v := next_index s)"
    and "ons (scc_enter v s) = (ons s)(v := True)"
  using assms
  by (auto simp: scc_enter_def node_index_def node_low_def node_on_stack_def map_of_node_update
      fun_eq_iff split: option.splits)

lemma enter_frame [simp]:
  "node_in (nodes (scc_enter v s)) = node_in (nodes s)"
  "dom (map_of (nodes (scc_enter v s))) = dom (map_of (nodes s))"
  "wedges (nodes (scc_enter v s)) = wedges (nodes s)"
  "next_index (scc_enter v s) = next_index s + 1"
  "scc_stack (scc_enter v s) = v # scc_stack s"
  "scc_found (scc_enter v s) = scc_found s"
  by (simp_all add: scc_enter_def node_in_update wedges_def)

lemma set_low_frame [simp]:
  "node_in (nodes (set_low v l s)) = node_in (nodes s)"
  "dom (map_of (nodes (set_low v l s))) = dom (map_of (nodes s))"
  "wedges (nodes (set_low v l s)) = wedges (nodes s)"
  "idx (set_low v l s) = idx s"
  "ons (set_low v l s) = ons s"
  "next_index (set_low v l s) = next_index s"
  "scc_stack (set_low v l s) = scc_stack s"
  "scc_found (set_low v l s) = scc_found s"
  by (simp_all add: set_low_def node_in_update node_index_update node_on_stack_update wedges_def)

lemma set_low_lo: "v \<in> dom (map_of (nodes s)) \<Longrightarrow> lo (set_low v l s) = (lo s)(v := l)"
  by (auto simp: set_low_def node_low_def map_of_node_update fun_eq_iff split: option.splits)

lemma pop_scc_spec:
  assumes "v \<notin> set pre" "set pre \<union> {v} \<subseteq> dom (map_of m)"
  shows "\<exists>m'. pop_scc v (pre @ v # rest) m = (pre @ [v], rest, m') \<and>
     dom (map_of m') = dom (map_of m) \<and> node_in m' = node_in m \<and>
     node_index m' = node_index m \<and> node_low m' = node_low m \<and>
     (\<forall>x. node_on_stack m' x \<longleftrightarrow> node_on_stack m x \<and> x \<notin> set (pre @ [v]))"
  using assms
proof (induction pre arbitrary: m)
  case Nil
  then obtain w where "map_of m v = Some w" by auto
  then show ?case
    by (auto simp: node_in_update node_index_update node_low_update node_on_stack_def map_of_node_update)
next
  case (Cons a pre)
  let ?m = "node_update a (\<lambda>w. w\<lparr>on_stack' := False\<rparr>) m"
  from Cons.prems obtain w where w: "map_of m a = Some w" by auto
  have "v \<notin> set pre" "set pre \<union> {v} \<subseteq> dom (map_of ?m)" using Cons.prems by auto
  from Cons.IH[OF this] obtain m' where m': "pop_scc v (pre @ v # rest) ?m = (pre @ [v], rest, m')"
    "dom (map_of m') = dom (map_of ?m)" "node_in m' = node_in ?m"
    "node_index m' = node_index ?m" "node_low m' = node_low ?m"
    "\<And>x. node_on_stack m' x \<longleftrightarrow> node_on_stack ?m x \<and> x \<notin> set (pre @ [v])"
    by blast
  have "node_on_stack ?m x \<longleftrightarrow> node_on_stack m x \<and> x \<noteq> a" for x
    using w by (auto simp: node_on_stack_def map_of_node_update)
  moreover have "pop_scc v ((a # pre) @ v # rest) m = ((a # pre) @ [v], rest, m')"
    using w m'(1) Cons.prems by auto
  ultimately show ?case
    using m' by (intro exI[of _ m']) (auto simp: node_in_update node_index_update node_low_update)
qed

section \<open>The invariant of the search\<close>

definition scc_of :: "(xid_t \<times> xid_t) set \<Rightarrow> xid_t \<Rightarrow> xid_t set" where
  "scc_of E x = {y. (x, y) \<in> E\<^sup>* \<and> (y, x) \<in> E\<^sup>*}"

definition unvisited :: "xid_t set \<Rightarrow> scc_state \<Rightarrow> xid_t set" where
  "unvisited V s = {x \<in> V. idx s x = 0}"

text \<open>Nodes whose component is complete: visited and no longer on the stack.\<close>

definition scc_done :: "scc_state \<Rightarrow> xid_t set" where
  "scc_done s = {x. idx s x \<noteq> 0 \<and> x \<notin> set (scc_stack s)}"

definition sinv :: "(xid_t \<times> xid_t) set \<Rightarrow> xid_t set \<Rightarrow> xid_t set \<Rightarrow> scc_state \<Rightarrow> bool" where
  "sinv E V gray s \<longleftrightarrow>
     dom (map_of (nodes s)) = V \<and> wedges (nodes s) = E \<and>
     0 < next_index s \<and> (\<forall>x. idx s x < next_index s) \<and>
     next_index s + card (unvisited V s) = Suc (card V) \<and>
     (\<forall>x \<in> set (scc_stack s). x \<in> V \<and> idx s x \<noteq> 0) \<and>
     sorted_wrt (\<lambda>a b. idx s b < idx s a) (scc_stack s) \<and>
     (\<forall>x \<in> V. ons s x \<longleftrightarrow> x \<in> set (scc_stack s)) \<and>
     gray \<subseteq> set (scc_stack s) \<and>
     (\<forall>x y. (x, y) \<in> E \<longrightarrow> idx s x \<noteq> 0 \<longrightarrow> x \<notin> gray \<longrightarrow> idx s y \<noteq> 0) \<and>
     (\<forall>x y. (x, y) \<in> E \<longrightarrow> idx s x \<noteq> 0 \<longrightarrow> x \<notin> set (scc_stack s) \<longrightarrow> y \<notin> set (scc_stack s)) \<and>
     (\<forall>x \<in> set (scc_stack s). \<exists>g \<in> gray. idx s g \<le> idx s x \<and> (x, g) \<in> E\<^sup>*) \<and>
     (\<forall>g \<in> gray. \<forall>x \<in> set (scc_stack s). idx s g \<le> idx s x \<longrightarrow> (g, x) \<in> E\<^sup>*) \<and>
     set (map set (scc_found s)) =
       {C. \<exists>x \<in> scc_done s. C = scc_of E x \<and> 1 < card C} \<and>
     distinct (map set (scc_found s)) \<and> (\<forall>c \<in> set (scc_found s). distinct c)"

lemma sinv_set_low [simp]: "sinv E V gray (set_low v l s) \<longleftrightarrow> sinv E V gray s"
  by (simp add: sinv_def unvisited_def scc_done_def)

lemma sinvD:
  assumes "sinv E V gray s"
  shows "dom (map_of (nodes s)) = V"
    and "wedges (nodes s) = E"
    and "0 < next_index s"
    and "\<And>x. idx s x < next_index s"
    and "next_index s + card (unvisited V s) = Suc (card V)"
    and "\<And>x. x \<in> set (scc_stack s) \<Longrightarrow> x \<in> V \<and> idx s x \<noteq> 0"
    and "sorted_wrt (\<lambda>a b. idx s b < idx s a) (scc_stack s)"
    and "\<And>x. x \<in> V \<Longrightarrow> ons s x \<longleftrightarrow> x \<in> set (scc_stack s)"
    and "gray \<subseteq> set (scc_stack s)"
    and "\<And>x y. (x, y) \<in> E \<Longrightarrow> idx s x \<noteq> 0 \<Longrightarrow> x \<notin> gray \<Longrightarrow> idx s y \<noteq> 0"
    and "\<And>x y. (x, y) \<in> E \<Longrightarrow> idx s x \<noteq> 0 \<Longrightarrow> x \<notin> set (scc_stack s) \<Longrightarrow> y \<notin> set (scc_stack s)"
    and "\<And>x. x \<in> set (scc_stack s) \<Longrightarrow> \<exists>g \<in> gray. idx s g \<le> idx s x \<and> (x, g) \<in> E\<^sup>*"
    and "\<And>g x. g \<in> gray \<Longrightarrow> x \<in> set (scc_stack s) \<Longrightarrow> idx s g \<le> idx s x \<Longrightarrow> (g, x) \<in> E\<^sup>*"
    and "set (map set (scc_found s)) = {C. \<exists>x \<in> scc_done s. C = scc_of E x \<and> 1 < card C}"
    and "distinct (map set (scc_found s))"
    and "\<And>c. c \<in> set (scc_found s) \<Longrightarrow> distinct c"
  using assms by (simp_all add: sinv_def)

lemma sinvI:
  assumes "dom (map_of (nodes s)) = V"
    and "wedges (nodes s) = E"
    and "0 < next_index s"
    and "\<And>x. idx s x < next_index s"
    and "next_index s + card (unvisited V s) = Suc (card V)"
    and "\<And>x. x \<in> set (scc_stack s) \<Longrightarrow> x \<in> V \<and> idx s x \<noteq> 0"
    and "sorted_wrt (\<lambda>a b. idx s b < idx s a) (scc_stack s)"
    and "\<And>x. x \<in> V \<Longrightarrow> ons s x \<longleftrightarrow> x \<in> set (scc_stack s)"
    and "gray \<subseteq> set (scc_stack s)"
    and "\<And>x y. (x, y) \<in> E \<Longrightarrow> idx s x \<noteq> 0 \<Longrightarrow> x \<notin> gray \<Longrightarrow> idx s y \<noteq> 0"
    and "\<And>x y. (x, y) \<in> E \<Longrightarrow> idx s x \<noteq> 0 \<Longrightarrow> x \<notin> set (scc_stack s) \<Longrightarrow> y \<notin> set (scc_stack s)"
    and "\<And>x. x \<in> set (scc_stack s) \<Longrightarrow> \<exists>g \<in> gray. idx s g \<le> idx s x \<and> (x, g) \<in> E\<^sup>*"
    and "\<And>g x. g \<in> gray \<Longrightarrow> x \<in> set (scc_stack s) \<Longrightarrow> idx s g \<le> idx s x \<Longrightarrow> (g, x) \<in> E\<^sup>*"
    and "set (map set (scc_found s)) = {C. \<exists>x \<in> scc_done s. C = scc_of E x \<and> 1 < card C}"
    and "distinct (map set (scc_found s))"
    and "\<And>c. c \<in> set (scc_found s) \<Longrightarrow> distinct c"
  shows "sinv E V gray s"
  using assms by (simp add: sinv_def)

lemma sinv_enter:
  assumes inv: "sinv E V gray s" and v: "v \<in> V" "idx s v = 0"
    and gv: "\<And>g. g \<in> gray \<Longrightarrow> (g, v) \<in> E\<^sup>*" and fin: "finite V"
  shows "sinv E V (insert v gray) (scc_enter v s)"
proof (rule sinvI)
  let ?s = "scc_enter v s"
  note D = sinvD[OF inv]
  have vd: "v \<in> dom (map_of (nodes s))" using D(1) v by simp
  note es = enter_simps[OF vd]
  have vst: "v \<notin> set (scc_stack s)" using D(6)[of v] v by auto
  have vg: "v \<notin> gray" using D(9) vst by auto
  have idx': "idx ?s x = idx s x" if "x \<in> set (scc_stack s)" for x
    using that vst by (auto simp: es)
  show "dom (map_of (nodes ?s)) = V" "wedges (nodes ?s) = E" "0 < next_index ?s"
    "distinct (map set (scc_found ?s))"
    using D(1,2,15) by simp_all
  show "idx ?s x < next_index ?s" for x using D(4)[of x] by (simp add: es less_SucI)
  have unv: "unvisited V s = insert v (unvisited V ?s)" "v \<notin> unvisited V ?s"
    using v D(3) by (auto simp: unvisited_def es)
  then have "card (unvisited V s) = Suc (card (unvisited V ?s))"
    using fin by (simp add: unvisited_def)
  then show "next_index ?s + card (unvisited V ?s) = Suc (card V)" using D(5) by simp
  show "x \<in> V \<and> idx ?s x \<noteq> 0" if "x \<in> set (scc_stack ?s)" for x
    using that D(3) D(6)[of x] v by (auto simp: es)
  have "sorted_wrt (\<lambda>a b. idx ?s b < idx ?s a) (scc_stack s)"
    by (rule sorted_wrt_mono_rel[OF _ D(7)]) (simp add: idx')
  then show "sorted_wrt (\<lambda>a b. idx ?s b < idx ?s a) (scc_stack ?s)"
    using vst D(4) by (auto simp: es)
  show "ons ?s x \<longleftrightarrow> x \<in> set (scc_stack ?s)" if "x \<in> V" for x
    using D(8)[OF that] by (auto simp: es)
  show "insert v gray \<subseteq> set (scc_stack ?s)" using D(9) by auto
  show "idx ?s y \<noteq> 0" if "(x, y) \<in> E" "idx ?s x \<noteq> 0" "x \<notin> insert v gray" for x y
    using D(10)[of x y] that D(3) by (auto simp: es)
  show "y \<notin> set (scc_stack ?s)" if "(x, y) \<in> E" "idx ?s x \<noteq> 0" "x \<notin> set (scc_stack ?s)" for x y
  proof -
    have x: "idx s x \<noteq> 0" "x \<notin> set (scc_stack s)" using that by (auto simp: es)
    then have "idx s y \<noteq> 0" using D(9) D(10)[of x y] that(1) by auto
    then show ?thesis using D(11)[of x y] that(1) x v(2) by auto
  qed
  show "\<exists>g \<in> insert v gray. idx ?s g \<le> idx ?s x \<and> (x, g) \<in> E\<^sup>*" if x: "x \<in> set (scc_stack ?s)" for x
  proof (cases "x = v")
    case False
    then obtain g where "g \<in> gray" "idx s g \<le> idx s x" "(x, g) \<in> E\<^sup>*" using D(12)[of x] x by auto
    then show ?thesis using False vg by (intro bexI[of _ g]) (auto simp: es)
  qed auto
  show "(g, x) \<in> E\<^sup>*"
    if g: "g \<in> insert v gray" and x: "x \<in> set (scc_stack ?s)" and le: "idx ?s g \<le> idx ?s x" for g x
  proof (cases "x = v")
    case True
    then show ?thesis using gv[of g] g by auto
  next
    case False
    then have "g \<noteq> v" using le D(4)[of x] by (auto simp: es)
    then show ?thesis using D(13)[of g x] g x le False by (auto simp: es)
  qed
  have "scc_done ?s = scc_done s"
    using v(2) by (auto simp: es scc_done_def)
  then show "set (map set (scc_found ?s)) =
      {C. \<exists>x \<in> scc_done ?s. C = scc_of E x \<and> 1 < card C}"
    using D(14) by simp
  show "distinct c" if "c \<in> set (scc_found ?s)" for c using D(16)[of c] that by simp
qed

section \<open>The contract of one call\<close>

definition sc_post :: "(xid_t \<times> xid_t) set \<Rightarrow> xid_t \<Rightarrow> xid_t list \<Rightarrow> scc_state \<Rightarrow> scc_state \<Rightarrow> bool" where
  "sc_post E v pre s s' \<longleftrightarrow>
     scc_stack s' = pre @ scc_stack s \<and> idx s' v = next_index s \<and>
     (\<forall>x. idx s x \<noteq> 0 \<longrightarrow> idx s' x = idx s x \<and> lo s' x = lo s x) \<and>
     (pre = [] \<and> lo s' v = idx s' v \<or> (\<exists>y \<in> set (scc_stack s). idx s y = lo s' v \<and> (v, y) \<in> E\<^sup>*)) \<and>
     (\<forall>x \<in> set pre. \<forall>y \<in> set (scc_stack s). (x, y) \<in> E \<longrightarrow> lo s' v \<le> idx s y)"

text \<open>The loop over the successors of \<^term>\<open>v\<close>, entered from \<^term>\<open>s0\<close>; \<^term>\<open>ps\<close> are the
  successors already handled and \<^term>\<open>pre\<close> the nodes above \<^term>\<open>v\<close> on the stack.\<close>

definition loop_inv ::
  "(xid_t \<times> xid_t) set \<Rightarrow> xid_t set \<Rightarrow> xid_t set \<Rightarrow> xid_t \<Rightarrow> scc_state \<Rightarrow> xid_t set \<Rightarrow> xid_t list \<Rightarrow> scc_state \<Rightarrow> bool" where
  "loop_inv E V gray v s0 ps pre s \<longleftrightarrow>
     sinv E V (insert v gray) s \<and> scc_stack s = pre @ v # scc_stack s0 \<and>
     idx s v = next_index s0 \<and> lo s v \<le> idx s v \<and>
     (\<forall>x. idx s0 x \<noteq> 0 \<longrightarrow> idx s x = idx s0 x \<and> lo s x = lo s0 x) \<and>
     (lo s v = idx s v \<or> (\<exists>y \<in> set (scc_stack s0). idx s0 y = lo s v \<and> (v, y) \<in> E\<^sup>*)) \<and>
     (\<forall>x \<in> set pre. \<forall>y \<in> set (scc_stack s0). (x, y) \<in> E \<longrightarrow> lo s v \<le> idx s0 y) \<and>
     (\<forall>y \<in> ps. y \<in> V \<longrightarrow> idx s y \<noteq> 0 \<and> (y \<in> set (scc_stack s0) \<longrightarrow> lo s v \<le> idx s0 y))"

lemma loop_invD:
  assumes "loop_inv E V gray v s0 ps pre s"
  shows "sinv E V (insert v gray) s" and "scc_stack s = pre @ v # scc_stack s0"
    and "idx s v = next_index s0" and "lo s v \<le> idx s v"
    and "\<And>x. idx s0 x \<noteq> 0 \<Longrightarrow> idx s x = idx s0 x \<and> lo s x = lo s0 x"
    and "lo s v = idx s v \<or> (\<exists>y \<in> set (scc_stack s0). idx s0 y = lo s v \<and> (v, y) \<in> E\<^sup>*)"
    and "\<And>x y. x \<in> set pre \<Longrightarrow> y \<in> set (scc_stack s0) \<Longrightarrow> (x, y) \<in> E \<Longrightarrow> lo s v \<le> idx s0 y"
    and "\<And>y. y \<in> ps \<Longrightarrow> y \<in> V \<Longrightarrow> idx s y \<noteq> 0 \<and> (y \<in> set (scc_stack s0) \<longrightarrow> lo s v \<le> idx s0 y)"
  using assms unfolding loop_inv_def by blast+

lemma wedges_in: "wedges m = E \<Longrightarrow> (x, y) \<in> E \<Longrightarrow> x \<in> dom (map_of m) \<and> y \<in> dom (map_of m)"
  by (auto simp: wedges_def)

text \<open>When every successor of \<^term>\<open>v\<close> has been handled, the stack above and including \<^term>\<open>v\<close> is
  separated from the rest.\<close>

lemma loop_stack:
  assumes L: "loop_inv E V gray v s0 ps pre s" and S0: "sinv E V gray s0"
  shows "\<And>x. x \<in> set pre \<Longrightarrow> idx s v < idx s x"
    and "\<And>y. y \<in> set (scc_stack s0) \<Longrightarrow> idx s y < idx s v \<and> idx s y = idx s0 y"
    and "distinct (pre @ [v])" and "set (pre @ [v]) \<inter> set (scc_stack s0) = {}"
    and "set (pre @ [v]) \<inter> gray = {}"
proof -
  note LD = loop_invD[OF L] and D = sinvD[OF loop_invD(1)[OF L]] and D0 = sinvD[OF S0]
  have srt: "sorted_wrt (\<lambda>a b. idx s b < idx s a) (pre @ v # scc_stack s0)" using D(7) LD(2) by simp
  show A: "idx s v < idx s x" if "x \<in> set pre" for x using srt that by (simp add: sorted_wrt_append)
  show B: "idx s y < idx s v \<and> idx s y = idx s0 y" if "y \<in> set (scc_stack s0)" for y
  proof -
    have "idx s y < idx s v" using srt that by (auto simp: sorted_wrt_append)
    then show ?thesis using that LD(5)[of y] D0(6)[of y] by auto
  qed
  have "distinct pre"
    using srt by (induction pre) (auto simp: sorted_wrt_append)
  then show "distinct (pre @ [v])" using A by auto
  show disj: "set (pre @ [v]) \<inter> set (scc_stack s0) = {}"
    using A B by (fastforce dest: less_trans)
  then show "set (pre @ [v]) \<inter> gray = {}" using D0(9) by blast
qed

lemma scc_leave_nonroot:
  assumes L: "loop_inv E V gray v s0 ps pre s" and S0: "sinv E V gray s0"
    and ps: "\<And>y. (v, y) \<in> E \<Longrightarrow> y \<in> ps" and ne: "lo s v \<noteq> idx s v"
  shows "sinv E V gray (scc_leave v s) \<and> sc_post E v (pre @ [v]) s0 (scc_leave v s)"
proof -
  note LD = loop_invD[OF L] and D = sinvD[OF loop_invD(1)[OF L]] and D0 = sinvD[OF S0]
  note st = loop_stack[OF L S0]
  have leave: "scc_leave v s = s" using ne by (simp add: scc_leave_def)
  have inV: "y \<in> V" if "(x, y) \<in> E" for x y using wedges_in[OF D(2) that] D(1) by simp
  obtain y where y: "y \<in> set (scc_stack s0)" "idx s0 y = lo s v" "(v, y) \<in> E\<^sup>*" using LD(6) ne by auto
  have "idx s y < idx s v" using st(2)[OF y(1)] by simp
  moreover obtain g1 where g1: "g1 \<in> insert v gray" "idx s g1 \<le> idx s y" "(y, g1) \<in> E\<^sup>*"
    using D(12)[of y] y(1) LD(2) by auto
  ultimately have g1': "g1 \<in> gray" "idx s g1 < idx s v" "(v, g1) \<in> E\<^sup>*"
    using y(3) by (auto dest: rtrancl_trans)
  have j: "\<exists>g \<in> gray. idx s g \<le> idx s x \<and> (x, g) \<in> E\<^sup>*" if x: "x \<in> set (scc_stack s)" for x
  proof -
    obtain g where g: "g \<in> insert v gray" "idx s g \<le> idx s x" "(x, g) \<in> E\<^sup>*" using D(12)[OF x] by blast
    show ?thesis
    proof (cases "g = v")
      case True
      then show ?thesis using g g1' by (intro bexI[of _ g1]) (auto dest: rtrancl_trans)
    qed (use g in blast)
  qed
  have h: "idx s y \<noteq> 0" if "(x, y) \<in> E" "idx s x \<noteq> 0" "x \<notin> gray" for x y
    using D(10)[OF that(1,2)] that LD(8)[of y] ps[of y] inV[OF that(1)] by (cases "x = v") auto
  have "sinv E V gray s"
    using D j h by (intro sinvI) auto
  moreover have "sc_post E v (pre @ [v]) s0 s"
  proof -
    have "lo s v \<le> idx s0 y" if "x \<in> set (pre @ [v])" "y \<in> set (scc_stack s0)" "(x, y) \<in> E" for x y
      using that LD(7)[of x y] LD(8)[of y] ps[of y] inV[of x y] by auto
    then show ?thesis
      using LD y by (auto simp: sc_post_def)
  qed
  ultimately show ?thesis by (simp add: leave)
qed

lemma rtrancl_closed:
  assumes "(x, y) \<in> E\<^sup>*" "x \<in> A" "\<And>a b. a \<in> A \<Longrightarrow> (a, b) \<in> E \<Longrightarrow> b \<in> A"
  shows "y \<in> A"
  using assms by (induction rule: rtrancl_induct) auto

lemma done_closed:
  assumes "sinv E V gray s" "x \<in> scc_done s" "(x, y) \<in> E"
  shows "y \<in> scc_done s"
  using sinvD(9,10,11)[OF assms(1)] assms(2,3) by (auto simp: scc_done_def)

text \<open>At a root the nodes above and including \<^term>\<open>v\<close> are the component of \<^term>\<open>v\<close>.\<close>

lemma root_component:
  assumes L: "loop_inv E V gray v s0 ps pre s" and S0: "sinv E V gray s0"
    and ps: "\<And>y. (v, y) \<in> E \<Longrightarrow> y \<in> ps" and root: "lo s v = idx s v"
  shows "\<And>x y. x \<in> set (pre @ [v]) \<Longrightarrow> (x, y) \<in> E \<Longrightarrow> y \<in> set (pre @ [v]) \<union> scc_done s"
    and "scc_of E v = set (pre @ [v])"
proof -
  note LD = loop_invD[OF L] and D = sinvD[OF loop_invD(1)[OF L]] and D0 = sinvD[OF S0]
  note st = loop_stack[OF L S0]
  let ?C = "set (pre @ [v])"
  show step: "y \<in> ?C \<union> scc_done s" if x: "x \<in> ?C" and e: "(x, y) \<in> E" for x y
  proof -
    have yV: "y \<in> V" using wedges_in[OF D(2) e] D(1) by simp
    have "y \<notin> set (scc_stack s0)"
      using st(2)[of y] LD(7)[of x y] LD(8)[OF _ yV] ps[of y] x e root by auto
    moreover have "idx s y \<noteq> 0"
      using D(6)[of x] D(10)[OF e] LD(2) LD(8)[OF _ yV] ps[of y] x e st(5) by (cases "x = v") auto
    ultimately show ?thesis using LD(2) by (auto simp: scc_done_def)
  qed
  have closed: "y \<in> ?C \<union> scc_done s" if "(x, y) \<in> E\<^sup>*" "x \<in> ?C" for x y
    by (rule rtrancl_closed[OF that(1)]) (use that(2) step done_closed[OF LD(1)] in auto)
  have to_v: "(x, v) \<in> E\<^sup>*" if x: "x \<in> ?C" for x
  proof -
    obtain g where g: "g \<in> insert v gray" "(x, g) \<in> E\<^sup>*" using D(12)[of x] x LD(2) by auto
    have "g \<in> set (scc_stack s)" using g(1) D(9) by auto
    then have "g \<in> ?C" using closed[OF g(2) x] by (simp add: scc_done_def)
    then have "g = v" using g(1) st(5) by auto
    then show ?thesis using g(2) by simp
  qed
  have of_v: "(v, x) \<in> E\<^sup>*" if "x \<in> ?C" for x
  proof -
    have "idx s v \<le> idx s x" using that st(1)[of x] by (auto simp: less_imp_le)
    then show ?thesis using D(13)[of v x] that LD(2) by auto
  qed
  have "y \<in> ?C" if "(v, y) \<in> E\<^sup>*" "(y, v) \<in> E\<^sup>*" for y
  proof (rule ccontr)
    assume "y \<notin> ?C"
    then have "y \<in> scc_done s" using closed[OF that(1)] by auto
    then have "v \<in> scc_done s"
      by (rule rtrancl_closed[OF that(2)]) (use done_closed[OF LD(1)] in auto)
    then show False using LD(2) by (simp add: scc_done_def)
  qed
  then show "scc_of E v = ?C" using to_v of_v by (auto simp: scc_of_def)
qed

lemma scc_of_cong: "y \<in> scc_of E x \<Longrightarrow> scc_of E y = scc_of E x"
  by (auto simp: scc_of_def dest: rtrancl_trans)

lemma scc_of_refl [simp]: "x \<in> scc_of E x"
  by (simp add: scc_of_def)

lemma scc_leave_root_state:
  assumes L: "loop_inv E V gray v s0 ps pre s" and S0: "sinv E V gray s0" and root: "lo s v = idx s v"
  defines "s' \<equiv> scc_leave v s"
  shows "dom (map_of (nodes s')) = V" "wedges (nodes s') = E" "idx s' = idx s" "lo s' = lo s"
    "next_index s' = next_index s" "scc_stack s' = scc_stack s0"
    "scc_found s' = (if 1 < length (pre @ [v]) then scc_found s @ [pre @ [v]] else scc_found s)"
    "\<And>x. x \<in> V \<Longrightarrow> ons s' x \<longleftrightarrow> x \<in> set (scc_stack s0)"
proof -
  note LD = loop_invD[OF L] and D = sinvD[OF loop_invD(1)[OF L]]
  note st = loop_stack[OF L S0]
  have "v \<notin> set pre" "set pre \<union> {v} \<subseteq> dom (map_of (nodes s))"
    using st(3) D(1) D(6) LD(2) by auto
  from pop_scc_spec[OF this, of "scc_stack s0"] obtain m' where
    m': "pop_scc v (scc_stack s) (nodes s) = (pre @ [v], scc_stack s0, m')"
      "dom (map_of m') = dom (map_of (nodes s))" "node_in m' = node_in (nodes s)"
      "node_index m' = idx s" "node_low m' = lo s"
      "\<And>x. node_on_stack m' x \<longleftrightarrow> ons s x \<and> x \<notin> set (pre @ [v])"
    by (auto simp: LD(2))
  have s': "s' = s\<lparr>nodes := m', scc_stack := scc_stack s0,
      scc_found := (if 1 < length (pre @ [v]) then scc_found s @ [pre @ [v]] else scc_found s)\<rparr>"
    by (simp add: s'_def scc_leave_def root m'(1))
  show "dom (map_of (nodes s')) = V" "wedges (nodes s') = E" "idx s' = idx s" "lo s' = lo s"
    "next_index s' = next_index s" "scc_stack s' = scc_stack s0"
    "scc_found s' = (if 1 < length (pre @ [v]) then scc_found s @ [pre @ [v]] else scc_found s)"
    using m' D(1,2) by (simp_all add: s' wedges_def)
  show "ons s' x \<longleftrightarrow> x \<in> set (scc_stack s0)" if "x \<in> V" for x
    using m'(6)[of x] D(8)[OF that] LD(2) st(4) by (auto simp: s')
qed

lemma scc_leave_root:
  assumes L: "loop_inv E V gray v s0 ps pre s" and S0: "sinv E V gray s0"
    and ps: "\<And>y. (v, y) \<in> E \<Longrightarrow> y \<in> ps" and root: "lo s v = idx s v"
  shows "sinv E V gray (scc_leave v s) \<and> sc_post E v [] s0 (scc_leave v s)"
proof -
  note LD = loop_invD[OF L] and D = sinvD[OF loop_invD(1)[OF L]] and D0 = sinvD[OF S0]
  note st = loop_stack[OF L S0] and cmp = root_component[OF L S0 ps root]
  let ?s = "scc_leave v s" and ?C = "set (pre @ [v])"
  note ls = scc_leave_root_state[OF L S0 root]
  have done': "scc_done ?s = scc_done s \<union> ?C"
    using st(4) D(6) LD(2) by (auto simp: scc_done_def ls)
  have cardC: "card ?C = length (pre @ [v])" using st(3) by (rule distinct_card)
  have sccC: "scc_of E x = ?C" if "x \<in> ?C" for x
    using that cmp(2) scc_of_cong[of x E v] by auto
  have notin: "?C \<notin> set (map set (scc_found s))"
  proof
    assume "?C \<in> set (map set (scc_found s))"
    then obtain x where "x \<in> scc_done s" "scc_of E x = ?C" using D(14) by auto
    moreover from this have "x \<in> ?C" by (metis scc_of_refl)
    ultimately show False using LD(2) by (auto simp: scc_done_def)
  qed
  have "sinv E V gray ?s"
  proof (rule sinvI)
    show "dom (map_of (nodes ?s)) = V" "wedges (nodes ?s) = E" "0 < next_index ?s"
      using D by (simp_all add: ls)
    show "idx ?s x < next_index ?s" for x using D(4) by (simp add: ls)
    show "next_index ?s + card (unvisited V ?s) = Suc (card V)" using D(5) by (simp add: ls unvisited_def)
    show "x \<in> V \<and> idx ?s x \<noteq> 0" if "x \<in> set (scc_stack ?s)" for x
      using that D(6)[of x] LD(2) by (simp add: ls)
    show "sorted_wrt (\<lambda>a b. idx ?s b < idx ?s a) (scc_stack ?s)"
      using D(7) LD(2) by (simp add: ls sorted_wrt_append)
    show "ons ?s x \<longleftrightarrow> x \<in> set (scc_stack ?s)" if "x \<in> V" for x using ls(8)[OF that] by (simp add: ls)
    show "gray \<subseteq> set (scc_stack ?s)" using D0(9) by (simp add: ls)
    show "idx ?s y \<noteq> 0" if e: "(x, y) \<in> E" "idx ?s x \<noteq> 0" "x \<notin> gray" for x y
      using D(10)[OF e(1)] e LD(8)[of y] ps[of y] wedges_in[OF D(2) e(1)] D(1) by (cases "x = v") (auto simp: ls)
    show "y \<notin> set (scc_stack ?s)" if e: "(x, y) \<in> E" "idx ?s x \<noteq> 0" "x \<notin> set (scc_stack ?s)" for x y
    proof -
      have "x \<in> scc_done s \<union> ?C" using e(2,3) done' by (auto simp: scc_done_def)
      then have "y \<in> scc_done s \<union> ?C" using done_closed[OF LD(1)] cmp(1) e(1) by auto
      then show ?thesis using done' by (auto simp: scc_done_def)
    qed
    show "\<exists>g \<in> gray. idx ?s g \<le> idx ?s x \<and> (x, g) \<in> E\<^sup>*" if "x \<in> set (scc_stack ?s)" for x
      using D(12)[of x] that st(2)[of x] LD(2) by (auto simp: ls)
    show "(g, x) \<in> E\<^sup>*" if "g \<in> gray" "x \<in> set (scc_stack ?s)" "idx ?s g \<le> idx ?s x" for g x
      using D(13)[of g x] that LD(2) by (simp add: ls)
    show "set (map set (scc_found ?s)) = {C. \<exists>x \<in> scc_done ?s. C = scc_of E x \<and> 1 < card C}"
    proof -
      have "{C. \<exists>x \<in> scc_done ?s. C = scc_of E x \<and> 1 < card C} =
          {C. \<exists>x \<in> scc_done s. C = scc_of E x \<and> 1 < card C} \<union> {C. C = ?C \<and> 1 < card C}"
        unfolding done' using sccC by auto
      then show ?thesis using D(14) cardC by (auto simp: ls)
    qed
    show "distinct (map set (scc_found ?s))" using D(15) notin by (simp add: ls)
    show "distinct c" if "c \<in> set (scc_found ?s)" for c
      using D(16)[of c] that st(3) by (auto simp: ls split: if_splits)
  qed
  moreover have "sc_post E v [] s0 ?s"
    using LD root by (auto simp: sc_post_def ls)
  ultimately show ?thesis ..
qed

section \<open>The loop over the successors\<close>

definition sc_spec :: "(xid_t \<times> xid_t) set \<Rightarrow> xid_t set \<Rightarrow> nat \<Rightarrow> (xid_t \<Rightarrow> scc_state \<Rightarrow> scc_state option) \<Rightarrow> bool" where
  "sc_spec E V n rec \<longleftrightarrow>
     (\<forall>gray s w. sinv E V gray s \<longrightarrow> w \<in> V \<longrightarrow> idx s w = 0 \<longrightarrow> (\<forall>g \<in> gray. (g, w) \<in> E\<^sup>*) \<longrightarrow>
        card (unvisited V s) \<le> n \<longrightarrow>
        (\<exists>s' pre. rec w s = Some s' \<and> sinv E V gray s' \<and> sc_post E w pre s s'))"

lemma loop_invI:
  assumes "sinv E V (insert v gray) s" and "scc_stack s = pre @ v # scc_stack s0"
    and "idx s v = next_index s0" and "lo s v \<le> idx s v"
    and "\<And>x. idx s0 x \<noteq> 0 \<Longrightarrow> idx s x = idx s0 x \<and> lo s x = lo s0 x"
    and "lo s v = idx s v \<or> (\<exists>y \<in> set (scc_stack s0). idx s0 y = lo s v \<and> (v, y) \<in> E\<^sup>*)"
    and "\<And>x y. x \<in> set pre \<Longrightarrow> y \<in> set (scc_stack s0) \<Longrightarrow> (x, y) \<in> E \<Longrightarrow> lo s v \<le> idx s0 y"
    and "\<And>y. y \<in> ps \<Longrightarrow> y \<in> V \<Longrightarrow> idx s y \<noteq> 0 \<and> (y \<in> set (scc_stack s0) \<longrightarrow> lo s v \<le> idx s0 y)"
  shows "loop_inv E V gray v s0 ps pre s"
  using assms unfolding loop_inv_def by blast

lemma loop_step_skip:
  assumes L: "loop_inv E V gray v s0 ps pre s"
    and x: "x \<in> V \<Longrightarrow> idx s x \<noteq> 0 \<and> x \<notin> set (scc_stack s)"
  shows "loop_inv E V gray v s0 (insert x ps) pre s"
proof -
  note LD = loop_invD[OF L]
  show ?thesis
    by (rule loop_invI) (use LD x in auto)
qed

lemma v_not_visited_before:
  assumes "loop_inv E V gray v s0 ps pre s" "sinv E V gray s0"
  shows "idx s0 v = 0"
  using loop_invD(3)[OF assms(1)] loop_invD(5)[OF assms(1), of v] sinvD(4)[OF assms(2), of v] by auto

lemma loop_step_stack:
  assumes L: "loop_inv E V gray v s0 ps pre s" and S0: "sinv E V gray s0"
    and vx: "(v, x) \<in> E" and x: "x \<in> set (scc_stack s)"
  defines "s' \<equiv> set_low v (min (lo s v) (idx s x)) s"
  shows "loop_inv E V gray v s0 (insert x ps) pre s'"
proof -
  note LD = loop_invD[OF L] and D = sinvD[OF loop_invD(1)[OF L]]
  note st = loop_stack[OF L S0]
  have v: "v \<in> dom (map_of (nodes s))" using D(1) D(6)[of v] LD(2) by simp
  have lo': "lo s' = (lo s)(v := min (lo s v) (idx s x))" by (simp add: s'_def set_low_lo[OF v])
  have idx': "idx s' = idx s" and stk: "scc_stack s' = scc_stack s" by (simp_all add: s'_def)
  have xs0: "x \<in> set (scc_stack s0) \<or> idx s v \<le> idx s x"
    using x LD(2) st(1)[of x] by (auto simp: less_imp_le)
  have le: "lo s' v \<le> lo s v" by (simp add: lo')
  show ?thesis
  proof (rule loop_invI)
    show "sinv E V (insert v gray) s'" using LD(1) by (simp add: s'_def)
    show "scc_stack s' = pre @ v # scc_stack s0" "idx s' v = next_index s0" using LD(2,3) by (simp_all add: idx' stk)
    show "lo s' v \<le> idx s' v" using LD(4) by (simp add: lo' idx')
    show "idx s' y = idx s0 y \<and> lo s' y = lo s0 y" if "idx s0 y \<noteq> 0" for y
      using LD(5)[OF that] that v_not_visited_before[OF L S0] by (auto simp: idx' lo')
    show "lo s' v = idx s' v \<or> (\<exists>y \<in> set (scc_stack s0). idx s0 y = lo s' v \<and> (v, y) \<in> E\<^sup>*)"
    proof (cases "lo s v \<le> idx s x")
      case True
      then show ?thesis using LD(6) by (simp add: lo' idx')
    next
      case False
      then have "x \<in> set (scc_stack s0)" using xs0 LD(4) by linarith
      then show ?thesis using st(2)[of x] vx False by (auto simp: lo' intro!: bexI[of _ x])
    qed
    show "lo s' v \<le> idx s0 y" if "a \<in> set pre" "y \<in> set (scc_stack s0)" "(a, y) \<in> E" for a y
      using LD(7)[OF that] le by linarith
    show "idx s' y \<noteq> 0 \<and> (y \<in> set (scc_stack s0) \<longrightarrow> lo s' v \<le> idx s0 y)" if "y \<in> insert x ps" "y \<in> V" for y
      using LD(8)[of y] that D(6)[OF x] st(2)[of y] le by (auto simp: idx' lo')
  qed
qed

lemma loop_step_new:
  assumes L: "loop_inv E V gray v s0 ps pre s" and S0: "sinv E V gray s0"
    and vx: "(v, x) \<in> E" and x: "idx s x = 0"
    and S1: "sinv E V (insert v gray) s1" and P: "sc_post E x pre1 s s1"
  defines "s' \<equiv> set_low v (min (lo s1 v) (lo s1 x)) s1"
  shows "loop_inv E V gray v s0 (insert x ps) (pre1 @ pre) s'"
proof -
  note LD = loop_invD[OF L] and D = sinvD[OF loop_invD(1)[OF L]] and D1 = sinvD[OF S1]
  note st = loop_stack[OF L S0]
  note P' = P[unfolded sc_post_def]
  have vs: "v \<in> set (scc_stack s)" using LD(2) by simp
  have v: "v \<in> dom (map_of (nodes s1))" using D1(1) D(6)[OF vs] by simp
  have idxv: "idx s v \<noteq> 0" using D(6)[OF vs] by simp
  have old: "idx s1 y = idx s y" "lo s1 y = lo s y" if "idx s y \<noteq> 0" for y using P' that by auto
  note oldv = old[OF idxv]
  have lo': "lo s' = (lo s1)(v := min (lo s v) (lo s1 x))" by (simp add: s'_def set_low_lo[OF v] oldv)
  have idx': "idx s' = idx s1" and stk: "scc_stack s' = scc_stack s1" by (simp_all add: s'_def)
  have le: "lo s' v \<le> lo s v" "lo s' v \<le> lo s1 x" by (simp_all add: lo')
  have xnew: "pre1 = [] \<and> lo s1 x = next_index s \<or>
      (\<exists>y \<in> set (scc_stack s). idx s y = lo s1 x \<and> (x, y) \<in> E\<^sup>*)" using P' by auto
  show ?thesis
  proof (rule loop_invI)
    show "sinv E V (insert v gray) s'" using S1 by (simp add: s'_def)
    show "scc_stack s' = (pre1 @ pre) @ v # scc_stack s0" using P' LD(2) by (simp add: stk)
    show "idx s' v = next_index s0" using LD(3) by (simp add: idx' oldv)
    show "lo s' v \<le> idx s' v" using LD(4) le(1) by (simp add: idx' oldv)
    show "idx s' y = idx s0 y \<and> lo s' y = lo s0 y" if "idx s0 y \<noteq> 0" for y
      using LD(5)[OF that] old[of y] that v_not_visited_before[OF L S0] by (auto simp: idx' lo')
    show "lo s' v = idx s' v \<or> (\<exists>y \<in> set (scc_stack s0). idx s0 y = lo s' v \<and> (v, y) \<in> E\<^sup>*)"
    proof (cases "lo s v \<le> lo s1 x")
      case True
      then show ?thesis using LD(6) by (simp add: lo' idx' oldv)
    next
      case False
      then have "lo s1 x < idx s v" using LD(4) by linarith
      then obtain y where y: "y \<in> set (scc_stack s)" "idx s y = lo s1 x" "(x, y) \<in> E\<^sup>*"
        using xnew D(4)[of v] by auto
      then have "y \<in> set (scc_stack s0)" using \<open>lo s1 x < idx s v\<close> LD(2) st(1)[of y] by auto
      moreover have "(v, y) \<in> E\<^sup>*" using vx y(3) by (rule converse_rtrancl_into_rtrancl)
      ultimately show ?thesis using st(2)[of y] y(2) False by (auto simp: lo' intro!: bexI[of _ y])
    qed
    show "lo s' v \<le> idx s0 y" if "a \<in> set (pre1 @ pre)" "y \<in> set (scc_stack s0)" "(a, y) \<in> E" for a y
    proof (cases "a \<in> set pre")
      case True
      then show ?thesis using LD(7)[OF True that(2,3)] le by linarith
    next
      case False
      then have "lo s1 x \<le> idx s y" using P' that LD(2) by auto
      then show ?thesis using st(2)[OF that(2)] le(2) by linarith
    qed
    show "idx s' y \<noteq> 0 \<and> (y \<in> set (scc_stack s0) \<longrightarrow> lo s' v \<le> idx s0 y)" if "y \<in> insert x ps" "y \<in> V" for y
    proof (cases "y = x")
      case True
      have "x \<notin> set (scc_stack s0)" using x D(6)[of x] LD(2) by auto
      moreover have "idx s1 x \<noteq> 0" using P' D(3) by auto
      ultimately show ?thesis using True by (simp add: idx')
    next
      case False
      then have "idx s y \<noteq> 0" "y \<in> set (scc_stack s0) \<longrightarrow> lo s v \<le> idx s0 y" using LD(8)[of y] that by auto
      then show ?thesis using le(1) by (auto simp: idx' old)
    qed
  qed
qed

lemma connect_loop_correct:
  assumes rec: "sc_spec E V n rec" and S0: "sinv E V gray s0"
    and gv: "\<And>g. g \<in> gray \<Longrightarrow> (g, v) \<in> E\<^sup>*"
    and L: "loop_inv E V gray v s0 ps pre s"
    and xs: "\<And>x. x \<in> set xs \<Longrightarrow> x \<in> V \<Longrightarrow> (v, x) \<in> E"
    and fuel: "card (unvisited V s) \<le> n" and fin: "finite V"
  shows "\<exists>s' pre'. connect_loop rec v xs s = Some s' \<and> loop_inv E V gray v s0 (ps \<union> set xs) pre' s'"
  using L xs fuel
proof (induction xs arbitrary: ps pre s)
  case Nil
  then show ?case by auto
next
  case (Cons x xs)
  note D = sinvD[OF loop_invD(1)[OF Cons.prems(1)]]
  show ?case
  proof (cases "map_of (nodes s) x")
    case None
    then have "x \<notin> V" using D(1) by auto
    then have "loop_inv E V gray v s0 (insert x ps) pre s" using Cons.prems(1) by (intro loop_step_skip) auto
    from Cons.IH[OF this] Cons.prems show ?thesis using None by simp
  next
    case (Some w)
    then have xV: "x \<in> V" and iw: "index' w = idx s x" and ow: "on_stack' w = ons s x"
      using D(1) by (auto simp: node_index_def node_on_stack_def)
    have vx: "(v, x) \<in> E" using Cons.prems(2)[of x] xV by simp
    consider (new) "idx s x = 0" | (stack) "idx s x \<noteq> 0" "x \<in> set (scc_stack s)"
      | (skip) "idx s x \<noteq> 0" "x \<notin> set (scc_stack s)" by blast
    then show ?thesis
    proof cases
      case new
      have "(g, x) \<in> E\<^sup>*" if "g \<in> insert v gray" for g
        using that gv[of g] vx by (auto intro: rtrancl_into_rtrancl)
      then obtain s1 pre1 where s1: "rec x s = Some s1" "sinv E V (insert v gray) s1" "sc_post E x pre1 s s1"
        using rec[unfolded sc_spec_def, rule_format, OF loop_invD(1)[OF Cons.prems(1)] xV new]
          Cons.prems(3) by blast
      let ?s = "set_low v (min (lo s1 v) (lo s1 x)) s1"
      have L': "loop_inv E V gray v s0 (insert x ps) (pre1 @ pre) ?s"
        by (rule loop_step_new[OF Cons.prems(1) S0 vx new s1(2,3)])
      have "unvisited V ?s \<subseteq> unvisited V s"
        using s1(3) by (fastforce simp: sc_post_def unvisited_def)
      then have "card (unvisited V ?s) \<le> n"
        using Cons.prems(3) card_mono[of "unvisited V s" "unvisited V ?s"] fin by (auto simp: unvisited_def)
      from Cons.IH[OF L' _ this] Cons.prems(2) show ?thesis using Some iw new s1(1) by simp
    next
      case stack
      then show ?thesis
        using Cons.IH[OF loop_step_stack[OF Cons.prems(1) S0 vx stack(2)]] Cons.prems(2,3) Some iw ow D(8)[OF xV]
        by (simp add: unvisited_def)
    next
      case skip
      then show ?thesis
        using Cons.IH[OF loop_step_skip[OF Cons.prems(1), of x]] Cons.prems(2,3) Some iw ow D(8)[OF xV]
        by simp
    qed
  qed
qed

section \<open>The recursion and the search\<close>

lemma loop_inv_enter:
  assumes S: "sinv E V gray s" and v: "v \<in> V" "idx s v = 0"
    and gv: "\<And>g. g \<in> gray \<Longrightarrow> (g, v) \<in> E\<^sup>*" and fin: "finite V"
  shows "loop_inv E V gray v s {} [] (scc_enter v s)"
proof -
  have vd: "v \<in> dom (map_of (nodes s))" using sinvD(1)[OF S] v by simp
  show ?thesis
    by (rule loop_invI) (use sinv_enter[OF S v gv fin] v in \<open>auto simp: enter_simps[OF vd]\<close>)
qed

lemma strong_connect_correct:
  assumes "finite V"
  shows "sc_spec E V n (strong_connect n)"
proof (induction n)
  case 0
  show ?case
    unfolding sc_spec_def
    using assms by (auto simp: unvisited_def)
next
  case (Suc n)
  show ?case
    unfolding sc_spec_def
  proof (intro allI impI)
    fix gray s v
    assume S: "sinv E V gray s" and v: "v \<in> V" "idx s v = 0" and gv: "\<forall>g \<in> gray. (g, v) \<in> E\<^sup>*"
      and fuel: "card (unvisited V s) \<le> Suc n"
    note D = sinvD[OF S]
    have vd: "v \<in> dom (map_of (nodes s))" using D(1) v by simp
    have L: "loop_inv E V gray v s {} [] (scc_enter v s)" using loop_inv_enter[OF S v _ assms] gv by blast
    have "unvisited V (scc_enter v s) \<subset> unvisited V s"
      using v D(3) by (auto simp: unvisited_def enter_simps[OF vd])
    moreover have "finite (unvisited V s)" using assms by (simp add: unvisited_def)
    ultimately have "card (unvisited V (scc_enter v s)) < card (unvisited V s)" by (rule psubset_card_mono[rotated])
    then have fuel': "card (unvisited V (scc_enter v s)) \<le> n" using fuel by simp
    have xs: "(v, x) \<in> E" if "x \<in> set (node_in (nodes s) v)" "x \<in> V" for x
      using D(1,2) v that by (auto simp: wedges_def)
    obtain s' pre where s': "connect_loop (strong_connect n) v (node_in (nodes s) v) (scc_enter v s) = Some s'"
      "loop_inv E V gray v s ({} \<union> set (node_in (nodes s) v)) pre s'"
      using connect_loop_correct[OF Suc.IH S _ L xs fuel' assms] gv by blast
    have ps: "y \<in> {} \<union> set (node_in (nodes s) v)" if "(v, y) \<in> E" for y
      using that D(2) by (auto simp: wedges_def)
    show "\<exists>s'' pre'. strong_connect (Suc n) v s = Some s'' \<and> sinv E V gray s'' \<and> sc_post E v pre' s s''"
    proof (cases "lo s' v = idx s' v")
      case True
      then show ?thesis using scc_leave_root[OF s'(2) S ps True] s'(1) by auto
    next
      case False
      then show ?thesis using scc_leave_nonroot[OF s'(2) S ps False] s'(1) by auto
    qed
  qed
qed

lemma scc_roots_correct:
  assumes "finite V" "card V \<le> n" "sinv E V {} s" "set vs \<subseteq> V"
  shows "\<exists>s'. scc_roots n vs s = Some s' \<and> sinv E V {} s' \<and>
    (\<forall>x. idx s x \<noteq> 0 \<longrightarrow> idx s' x \<noteq> 0) \<and> (\<forall>v \<in> set vs. idx s' v \<noteq> 0)"
  using assms(3,4)
proof (induction vs arbitrary: s)
  case Nil
  then show ?case by auto
next
  case (Cons v vs)
  show ?case
  proof (cases "idx s v = 0")
    case True
    have "card (unvisited V s) \<le> n"
      using assms(1,2) card_mono[of V "unvisited V s"] by (auto simp: unvisited_def)
    then obtain s1 pre where s1: "strong_connect n v s = Some s1" "sinv E V {} s1" "sc_post E v pre s s1"
      using strong_connect_correct[OF assms(1), of E n, unfolded sc_spec_def, rule_format, OF Cons.prems(1) _ True]
        Cons.prems(2) by auto
    have keep: "idx s1 x \<noteq> 0" if "idx s x \<noteq> 0" for x using s1(3) that by (auto simp: sc_post_def)
    have new: "idx s1 v \<noteq> 0" using s1(3) sinvD(3)[OF Cons.prems(1)] by (auto simp: sc_post_def)
    obtain s2 where "scc_roots n vs s1 = Some s2" "sinv E V {} s2"
      "\<forall>x. idx s1 x \<noteq> 0 \<longrightarrow> idx s2 x \<noteq> 0" "\<forall>v \<in> set vs. idx s2 v \<noteq> 0"
      using Cons.IH[OF s1(2)] Cons.prems(2) by auto
    then show ?thesis using True s1(1) keep new by simp
  next
    case False
    obtain s2 where "scc_roots n vs s = Some s2" "sinv E V {} s2"
      "\<forall>x. idx s x \<noteq> 0 \<longrightarrow> idx s2 x \<noteq> 0" "\<forall>v \<in> set vs. idx s2 v \<noteq> 0"
      using Cons.IH[OF Cons.prems(1)] Cons.prems(2) by auto
    then show ?thesis using False by simp
  qed
qed

section \<open>The prepared table\<close>

lemma add_missing_frame:
  "node_in (add_missing x m) = node_in m" "node_index (add_missing x m) = node_index m"
  "node_on_stack (add_missing x m) = node_on_stack m"
  "dom (map_of (add_missing x m)) = insert x (dom (map_of m))"
  by (auto simp: add_missing_def node_in_def node_index_def node_on_stack_def new_tx_wait_def update_conv'
      fun_eq_iff split: option.splits)

lemma fold_add_missing_frame:
  "node_in (fold add_missing xs m) = node_in m" "node_index (fold add_missing xs m) = node_index m"
  "node_on_stack (fold add_missing xs m) = node_on_stack m"
  "dom (map_of (fold add_missing xs m)) = set xs \<union> dom (map_of m)"
  by (induction xs arbitrary: m) (simp_all add: add_missing_frame)

lemma close_key_frame:
  "node_in (close_key k m) = node_in m" "node_index (close_key k m) = node_index m"
  "node_on_stack (close_key k m) = node_on_stack m"
  "dom (map_of (close_key k m)) = set (node_in m k) \<union> dom (map_of m)"
  by (auto simp: close_key_def fold_add_missing_frame split: option.split) (auto simp: node_in_def)

lemma fold_close_key_frame:
  "node_in (fold close_key ks m) = node_in m" "node_index (fold close_key ks m) = node_index m"
  "node_on_stack (fold close_key ks m) = node_on_stack m"
  "dom (map_of (fold close_key ks m)) = (\<Union>k \<in> set ks. set (node_in m k)) \<union> dom (map_of m)"
  by (induction ks arbitrary: m) (auto simp: close_key_frame)

lemma map_of_scc_init_nodes: "map_of (scc_init_nodes m) = map_option tx_wait_init \<circ> map_of m"
  by (induction m) (auto simp: scc_init_nodes_def)

lemma scc_init_nodes_frame:
  "node_in (scc_init_nodes m) = node_in m" "node_index (scc_init_nodes m) x = 0"
  "\<not> node_on_stack (scc_init_nodes m) x"
  by (auto simp: node_in_def node_index_def node_on_stack_def map_of_scc_init_nodes tx_wait_init_def fun_eq_iff
      split: option.splits)

lemma scc_init_nodes_keys: "map fst (scc_init_nodes m) = map fst m"
  by (auto simp: scc_init_nodes_def)

text \<open>The edges \<^verbatim>\<open>x\<close> waits for \<^verbatim>\<open>y\<close> of a set.\<close>

definition wait_edges :: "tx_wait_set \<Rightarrow> (xid_t \<times> xid_t) set" where
  "wait_edges ws = {(x, y). y \<in> waits_for ws x}"

lemma waits_for_node_in: "waits_for ws x = set (node_in (tx_wait' ws) x)"
  by (cases "map_of (tx_wait' ws) x") (simp_all add: waits_for_def node_in_def)

lemma scc_start_frame:
  "node_in (nodes (scc_start m)) = node_in m" "idx (scc_start m) x = 0" "\<not> ons (scc_start m) x"
  "wedges (nodes (scc_start m)) = {(x, y). y \<in> set (node_in m x)}"
proof -
  show a: "node_in (nodes (scc_start m)) = node_in m" "idx (scc_start m) x = 0" "\<not> ons (scc_start m) x"
    by (simp_all add: scc_start_def close_nodes_def fold_close_key_frame scc_init_nodes_frame)
  have d: "dom (map_of (nodes (scc_start m))) = (\<Union>k \<in> set (map fst m). set (node_in m k)) \<union> fst ` set m"
  proof -
    have "dom (map_of (scc_init_nodes m)) = fst ` set m"
      using scc_init_nodes_keys[of m] by (metis dom_map_of_conv_image_fst list.set_map)
    then show ?thesis
      unfolding scc_start_def close_nodes_def
      by (simp add: fold_close_key_frame scc_init_nodes_frame scc_init_nodes_keys)
  qed
  have "x \<in> fst ` set m" if "y \<in> set (node_in m x)" for x y
    using that by (cases "map_of m x") (force simp: node_in_def dest: map_of_SomeD)+
  then show "wedges (nodes (scc_start m)) = {(x, y). y \<in> set (node_in m x)}"
    unfolding wedges_def d a(1) by force
qed

lemma sinv_start:
  fixes ws :: tx_wait_set
  defines "s \<equiv> scc_start (tx_wait' ws)"
  shows "sinv (wait_edges ws) (dom (map_of (nodes s))) {} s"
proof -
  have n: "next_index s = 1" "scc_stack s = []" "scc_found s = []" by (simp_all add: s_def scc_start_def)
  have e: "wedges (nodes s) = wait_edges ws"
    by (simp add: s_def scc_start_frame(4) wait_edges_def waits_for_node_in)
  have z: "idx s x = 0" for x by (simp add: s_def scc_start_frame(2))
  have o: "\<not> ons s x" for x by (simp add: s_def scc_start_frame(3))
  have "unvisited (dom (map_of (nodes s))) s = dom (map_of (nodes s))" by (auto simp: unvisited_def z)
  then show ?thesis
    by (intro sinvI) (simp_all add: n e z o scc_done_def)
qed

lemma scc_of_finite: "finite E \<Longrightarrow> finite (scc_of E x)"
proof -
  assume "finite E"
  then have "finite (E\<^sup>* `` {x})" using finite_rtrancl_Image by auto
  then show ?thesis by (rule finite_subset[rotated]) (auto simp: scc_of_def)
qed

lemma finite_wait_edges: "finite (wait_edges ws)"
proof -
  have "wait_edges ws \<subseteq> (\<Union>(k, w) \<in> set (tx_wait' ws). {k} \<times> set (in_set' w))"
    by (auto simp: wait_edges_def waits_for_def split: option.splits dest!: map_of_SomeD)
      (rule bexI, auto)
  then show ?thesis by (rule finite_subset) auto
qed

section \<open>The components reported\<close>

lemma find_scc_run:
  obtains cs ws' where "find_scc ws = Some (cs, ws')"
    and "set (map set cs) = {C. \<exists>x. C = scc_of (wait_edges ws) x \<and> 1 < card C}"
    and "distinct (map set cs)" and "\<And>c. c \<in> set cs \<Longrightarrow> distinct c"
    and "\<And>x. node_index (tx_wait' ws') x \<le> card (dom (map_of (tx_wait' ws')))"
proof -
  let ?s0 = "scc_start (tx_wait' ws)" and ?E = "wait_edges ws"
  let ?V = "dom (map_of (nodes ?s0))"
  have fin: "finite ?V" by (simp add: finite_dom_map_of)
  have len: "card ?V \<le> length (nodes ?s0)"
    using card_length[of "map fst (nodes ?s0)"] by (simp add: dom_map_of_conv_image_fst)
  have keys: "set (map fst (nodes ?s0)) \<subseteq> ?V" by (simp add: dom_map_of_conv_image_fst)
  obtain s where s: "scc_roots (length (nodes ?s0)) (map fst (nodes ?s0)) ?s0 = Some s" "sinv ?E ?V {} s"
    "\<forall>v \<in> set (map fst (nodes ?s0)). idx s v \<noteq> 0"
    using scc_roots_correct[OF fin len sinv_start keys] by blast
  note D = sinvD[OF s(2)]
  have "scc_stack s = []" using D(12) by (cases "scc_stack s") auto
  moreover have "idx s x \<noteq> 0" if "x \<in> ?V" for x using s(3) that by (auto simp: dom_map_of_conv_image_fst)
  moreover have "x \<in> ?V" if "idx s x \<noteq> 0" for x
    using that by (auto simp: node_index_def simp flip: D(1) split: option.splits)
  ultimately have dn: "scc_done s = ?V" by (auto simp: scc_done_def)
  have outside: "scc_of ?E x = {x}" if "x \<notin> ?V" for x
  proof -
    have "y = x" if "(x, y) \<in> ?E\<^sup>*" for y
      using that wedges_in[OF D(2)] D(1) \<open>x \<notin> ?V\<close> by (auto elim: converse_rtranclE)
    then show ?thesis by (auto simp: scc_of_def)
  qed
  have eq: "set (map set (scc_found s)) = {C. \<exists>x. C = scc_of ?E x \<and> 1 < card C}"
    unfolding D(14) dn using outside by (auto simp del: set_map) (metis card.empty card.insert empty_iff finite.emptyI less_irrefl One_nat_def)
  have ix: "idx s x \<le> card (dom (map_of (nodes s)))" for x
    using D(1,5) D(4)[of x] by simp
  show ?thesis
  proof (rule that[of "scc_found s" "ws\<lparr>tx_wait' := nodes s\<rparr>"])
    show "find_scc ws = Some (scc_found s, ws\<lparr>tx_wait' := nodes s\<rparr>)"
      by (simp add: find_scc_def s(1))
  qed (use eq D(15,16) ix in simp_all)
qed

text \<open>
  (C1) The search always returns.  It reports each strongly connected
  component of the wait-for graph that has more than one transaction exactly
  once, without repeating a transaction, and nothing else; and no index it
  hands out exceeds the number of nodes, so the 64-bit counter never wraps.
\<close>

theorem find_scc_correct:
  "\<exists>cs ws'. find_scc ws = Some (cs, ws') \<and>
     set (map set cs) = {C. \<exists>x. C = scc_of (wait_edges ws) x \<and> 1 < card C} \<and>
     distinct (map set cs) \<and> (\<forall>c \<in> set cs. distinct c) \<and>
     (\<forall>x. node_index (tx_wait' ws') x \<le> card (dom (map_of (tx_wait' ws'))))"
  by (rule find_scc_run[of ws]) blast

text \<open>The set \<^verbatim>\<open>{8 -> 9, 9 -> 7, 7 -> 8, 5 -> 7}\<close>: one component of three transactions.\<close>

definition demo_ws :: tx_wait_set where
  "demo_ws = fold (\<lambda>(i, out) s. add_in [i] out s) [(9, 8), (7, 9), (8, 7), (7, 5)]
     \<lparr>limit' = 4, tx_wait' = [], victim' = [], finish' = []\<rparr>"

lemma find_scc_correct_witness:
  "\<exists>ws'. find_scc demo_ws = Some ([[7, 9, 8]], ws') \<and> scc_of (wait_edges demo_ws) 8 = {7, 8, 9}"
proof -
  obtain cs ws' where r: "find_scc demo_ws = Some (cs, ws')"
    and s: "set (map set cs) = {C. \<exists>x. C = scc_of (wait_edges demo_ws) x \<and> 1 < card C}"
    using find_scc_correct[of demo_ws] by blast
  have v: "map_option fst (find_scc demo_ws) = Some [[7, 9, 8]]" by code_simp
  then have cs: "cs = [[7, 9, 8]]" using r by simp
  then have "{7, 9, 8} \<in> {C. \<exists>x. C = scc_of (wait_edges demo_ws) x \<and> 1 < card C}" using s by auto
  then obtain x where "scc_of (wait_edges demo_ws) x = {7, 9, 8}" by auto
  moreover from this have "scc_of (wait_edges demo_ws) 8 = scc_of (wait_edges demo_ws) x"
    by (intro scc_of_cong) simp
  ultimately show ?thesis using r cs by auto
qed

text \<open>
  (C2) \<^verbatim>\<open>detect_circle\<close> answers true exactly when two different transactions
  wait for each other, directly or through others, and every circle it hands
  to its callback is a set of mutually waiting transactions.
\<close>

theorem detect_circle_complete:
  "\<exists>b cs ws'. detect_circle ws = Some (b, cs, ws') \<and>
     (b \<longleftrightarrow> (\<exists>x y. x \<noteq> y \<and> (x, y) \<in> (wait_edges ws)\<^sup>* \<and> (y, x) \<in> (wait_edges ws)\<^sup>*)) \<and>
     (\<forall>c \<in> set cs. \<forall>x \<in> set c. \<forall>y \<in> set c. (x, y) \<in> (wait_edges ws)\<^sup>*)"
proof -
  let ?E = "wait_edges ws"
  obtain cs ws' where r: "find_scc ws = Some (cs, ws')"
    and s: "set (map set cs) = {C. \<exists>x. C = scc_of ?E x \<and> 1 < card C}"
    by (rule find_scc_run)
  have "set (map set cs) \<noteq> {} \<longleftrightarrow> (\<exists>x. 1 < card (scc_of ?E x))" unfolding s by blast
  then have "cs \<noteq> [] \<longleftrightarrow> (\<exists>x. 1 < card (scc_of ?E x))" by simp
  also have "\<dots> \<longleftrightarrow> (\<exists>x y. x \<noteq> y \<and> (x, y) \<in> ?E\<^sup>* \<and> (y, x) \<in> ?E\<^sup>*)"
  proof -
    have "1 < card (scc_of ?E x) \<longleftrightarrow> (\<exists>y. x \<noteq> y \<and> y \<in> scc_of ?E x)" for x
    proof -
      have f: "finite (scc_of ?E x)" using finite_wait_edges by (rule scc_of_finite)
      define B where "B = scc_of ?E x - {x}"
      have "card (scc_of ?E x) = Suc (card B)" using card.remove[OF f, of x] by (simp add: B_def)
      moreover have "0 < card B \<longleftrightarrow> B \<noteq> {}" using f by (simp add: B_def card_gt_0_iff del: card_Diff_insert)
      ultimately have "1 < card (scc_of ?E x) \<longleftrightarrow> B \<noteq> {}" by simp
      moreover have "B \<noteq> {} \<longleftrightarrow> (\<exists>y. x \<noteq> y \<and> y \<in> scc_of ?E x)" by (auto simp: B_def)
      ultimately show ?thesis by simp
    qed
    then show ?thesis by (auto simp: scc_of_def)
  qed
  finally have b: "cs \<noteq> [] \<longleftrightarrow> (\<exists>x y. x \<noteq> y \<and> (x, y) \<in> ?E\<^sup>* \<and> (y, x) \<in> ?E\<^sup>*)" .
  have "\<forall>c \<in> set cs. \<forall>x \<in> set c. \<forall>y \<in> set c. (x, y) \<in> ?E\<^sup>*"
  proof (intro ballI)
    fix c x y assume c: "c \<in> set cs" "x \<in> set c" "y \<in> set c"
    then have "set c \<in> {C. \<exists>x. C = scc_of ?E x \<and> 1 < card C}" using s by auto
    then obtain z where "set c = scc_of ?E z" by blast
    then show "(x, y) \<in> ?E\<^sup>*" using c by (auto simp: scc_of_def dest: rtrancl_trans)
  qed
  then show ?thesis using r b by (auto simp: detect_circle_def)
qed

lemma detect_circle_complete_witness:
  "\<exists>ws'. detect_circle demo_ws = Some (True, [[7, 9, 8]], ws') \<and> (8, 7) \<in> (wait_edges demo_ws)\<^sup>*"
proof -
  obtain b cs ws' where r: "detect_circle demo_ws = Some (b, cs, ws')"
    and c: "\<forall>c \<in> set cs. \<forall>x \<in> set c. \<forall>y \<in> set c. (x, y) \<in> (wait_edges demo_ws)\<^sup>*"
    using detect_circle_complete[of demo_ws] by blast
  have "map_option (\<lambda>(b, cs, _). (b, cs)) (detect_circle demo_ws) = Some (True, [[7, 9, 8]])" by code_simp
  then show ?thesis using r c by simp
qed

end
