(* ===== verification/Deadlock.thy ===== *)
theory Deadlock
  imports Wait_Path_SCC
begin

text \<open>
  The deadlock manager of \<^verbatim>\<open>src/concurrency/deadlock.cpp\<close>: wait-die, local
  detection with a randomly chosen victim per circle, and the exchange of
  dependency sets between sites.  The handlers run on one strand, so each is
  one atomic step.  Calls that leave the component are recorded in the order
  in which they are issued: \<^verbatim>\<open>posted\<close> holds the transactions given to
  \<^verbatim>\<open>fn_victim_\<close>, \<^verbatim>\<open>sent\<close> the \<^verbatim>\<open>DL_DEPENDENCY\<close> messages.  The clock and
  the random draws are arguments.
\<close>

section \<open>State and operations\<close>

record deadlock =
  wait_die' :: bool
  detecting' :: bool
  distributed' :: bool
  send_to_node' :: node_id_t
  wait_path' :: tx_wait_set
  dep' :: "dependency_set list"
  set' :: "tx_wait list"
  deadlock_detect_ms' :: nat
  num_shard' :: nat
  time_ms' :: nat
  posted :: "xid_t list"
  sent :: "(node_id_t \<times> dependency_set) list"

definition new_deadlock :: "nat \<Rightarrow> bool \<Rightarrow> bool \<Rightarrow> nat \<Rightarrow> deadlock" where
  "new_deadlock num_shard deadlock_detection shared_nothing detect_timeout_ms =
     \<lparr>wait_die' = (\<not> deadlock_detection), detecting' = False, distributed' = shared_nothing,
      send_to_node' = 0,
      wait_path' = \<lparr>limit' = num_shard * 2, tx_wait' = [], victim' = [], finish' = []\<rparr>,
      dep' = [], set' = [], deadlock_detect_ms' = detect_timeout_ms, num_shard' = num_shard,
      time_ms' = 0, posted = [], sent = []\<rparr>"

definition async_victim :: "xid_t \<Rightarrow> deadlock \<Rightarrow> deadlock" where
  "async_victim x dl = dl\<lparr>posted := posted dl @ [x]\<rparr>"

definition add_wait_set :: "tx_wait \<Rightarrow> deadlock \<Rightarrow> deadlock" where
  "add_wait_set ws dl =
     (if wait_die' dl then
        fold (\<lambda>i dl. if xid' ws \<ge> i then async_victim (xid' ws) dl else dl) (in_set' ws) dl
      else if detecting' dl then dl\<lparr>set' := set' dl @ [ws]\<rparr>
      else dl\<lparr>wait_path' := add_wait_node ws (wait_path' dl)\<rparr>)"

definition add_dependency :: "dependency_set \<Rightarrow> deadlock \<Rightarrow> deadlock" where
  "add_dependency ds dl =
     (if detecting' dl then dl\<lparr>dep' := dep' dl @ [ds]\<rparr>
      else dl\<lparr>wait_path' := add_dependency_set ds (wait_path' dl)\<rparr>)"

definition gut_tx_finish :: "xid_t \<Rightarrow> deadlock \<Rightarrow> deadlock" where
  "gut_tx_finish x dl = dl"

definition set_next_node :: "node_id_t \<Rightarrow> deadlock \<Rightarrow> deadlock" where
  "set_next_node n dl = dl\<lparr>send_to_node' := n\<rparr>"

definition send_dependency :: "nat \<Rightarrow> nat \<Rightarrow> deadlock \<Rightarrow> deadlock" where
  "send_dependency ms sq dl =
     (if \<not> distributed' dl then dl\<lparr>wait_path' := clear_set (wait_path' dl)\<rparr>
      else if send_to_node' dl = 0 then dl\<lparr>wait_path' := clear_set (wait_path' dl)\<rparr>
      else if ms > time_ms' dl \<and> ms - time_ms' dl < deadlock_detect_ms' dl \<and> sq = 0 then dl
      else dl\<lparr>time_ms' := ms,
             sent := sent dl @ [(send_to_node' dl, (to_dependency_set (wait_path' dl))\<lparr>sequence := sq\<rparr>)]\<rparr>)"

definition gut_recv_dependency :: "nat \<Rightarrow> dependency_set \<Rightarrow> deadlock \<Rightarrow> deadlock option" where
  "gut_recv_dependency ms ds dl =
     (if sequence ds \<ge> num_shard' dl + 1 then
        Some (dl\<lparr>wait_path' := clear_set (wait_path' dl)\<rparr>)
      else do {
        boost_assert (distributed' dl);
        Some (send_dependency ms (sequence ds + 1) (add_dependency ds dl)) })"

text \<open>The callback of \<^verbatim>\<open>detect\<close>: \<^term>\<open>n\<close> is the random draw, \<^term>\<open>xids\<close> the victims so far.\<close>

definition choose_victim :: "nat \<Rightarrow> xid_t list \<Rightarrow> xid_t list \<Rightarrow> xid_t list" where
  "choose_victim n circle xids =
     (if circle \<noteq> [] then
        (let index = length circle * n div 100;
             index = (if index \<ge> length circle then length circle - 1 else index)
         in List.insert (circle ! index) xids)
      else xids)"

fun choose_victims :: "(nat \<Rightarrow> nat) \<Rightarrow> nat \<Rightarrow> xid_t list list \<Rightarrow> xid_t list \<Rightarrow> xid_t list" where
  "choose_victims rnd k [] xids = xids"
| "choose_victims rnd k (c # cs) xids = choose_victims rnd (Suc k) cs (choose_victim (rnd k) c xids)"

text \<open>The first block of \<^verbatim>\<open>detect\<close>: queued sets join the graph.\<close>

definition detect_collect :: "deadlock \<Rightarrow> deadlock" where
  "detect_collect dl =
     (let wp = fold add_dependency_set (dep' dl) (wait_path' dl);
          wp = fold add_wait_node (set' dl) wp
      in dl\<lparr>wait_path' := wp, dep' := [], set' := [], detecting' := True\<rparr>)"

definition detect :: "(nat \<Rightarrow> nat) \<Rightarrow> nat \<Rightarrow> deadlock \<Rightarrow> deadlock option" where
  "detect rnd ms dl0 = do {
     let dl = detect_collect dl0;
     (b, cs, wp) \<leftarrow> detect_circle (wait_path' dl);
     let xids = choose_victims rnd 0 cs [];
     let wp = fold wp_tx_victim xids wp;
     let dl = dl\<lparr>detecting' := False, wait_path' := wp\<rparr>;
     let dl = fold async_victim (victim' wp) dl;
     Some (send_dependency ms 0 dl) }"

text \<open>
  The timer handler of \<^verbatim>\<open>async_wait_lock\<close>: \<^term>\<open>r\<close> is what \<^verbatim>\<open>fn_wait\<close> delivers, the
  node of a transaction that still waits or nothing.  The first component
  tells whether the timer is armed again.
\<close>

definition wait_lock_timeout :: "tx_wait option \<Rightarrow> deadlock \<Rightarrow> bool \<times> deadlock" where
  "wait_lock_timeout r dl = (case r of Some ws \<Rightarrow> (True, add_wait_set ws dl) | None \<Rightarrow> (False, dl))"

section \<open>Victims\<close>

lemma posted_async_victims: "posted (fold async_victim xs dl) = posted dl @ xs"
  by (induction xs arbitrary: dl) (simp_all add: async_victim_def)

lemma choose_victim_mem:
  assumes "c \<noteq> []"
  shows "\<exists>x \<in> set c. set (choose_victim n c xids) = insert x (set xids)"
proof -
  let ?i = "if length c * n div 100 \<ge> length c then length c - 1 else length c * n div 100"
  have "?i < length c" using assms by (cases c) auto
  then show ?thesis
    using assms by (intro bexI[of _ "c ! ?i"]) (auto simp: choose_victim_def Let_def)
qed

lemma choose_victims_spec:
  assumes "[] \<notin> set cs"
  shows "set xids \<subseteq> set (choose_victims rnd k cs xids) \<and>
    (\<forall>c \<in> set cs. set c \<inter> set (choose_victims rnd k cs xids) \<noteq> {}) \<and>
    (\<forall>x \<in> set (choose_victims rnd k cs xids). x \<in> set xids \<or> (\<exists>c \<in> set cs. x \<in> set c))"
  using assms
proof (induction cs arbitrary: k xids)
  case (Cons a cs)
  have "a \<noteq> []" using Cons.prems by auto
  then obtain y where y: "y \<in> set a" "set (choose_victim (rnd k) a xids) = insert y (set xids)"
    using choose_victim_mem by blast
  show ?case
    using Cons.IH[of "choose_victim (rnd k) a xids" "Suc k"] Cons.prems y by auto
qed simp

lemma wp_tx_victims:
  "set (victim' (fold wp_tx_victim xs ws)) = set xs \<union> set (victim' ws)"
  "tx_wait' (fold wp_tx_victim xs ws) = tx_wait' ws"
  by (induction xs arbitrary: ws) (auto simp: wp_tx_victim_def)

lemma find_scc_keeps_victims: "find_scc ws = Some (cs, ws') \<Longrightarrow> victim' ws' = victim' ws"
  by (auto simp: find_scc_def Let_def split: option.splits bind_splits)

lemma send_dependency_posted [simp]: "posted (send_dependency ms sq dl) = posted dl"
  by (simp add: send_dependency_def)

text \<open>
  (C3) Detection breaks every deadlock and aborts nobody else: a run of
  \<^verbatim>\<open>detect\<close> returns, for every circle of mutually waiting transactions it
  posts at least one member to the victim callback, and a transaction it
  posts either was a victim before or lies on a circle.  This holds for every
  outcome of the random draws.
\<close>

theorem detect_breaks_circles:
  assumes "wp = wait_path' (detect_collect dl)" "E = wait_edges wp"
  shows "\<exists>dl' vs. detect rnd ms dl = Some dl' \<and> posted dl' = posted dl @ vs \<and>
    (\<forall>x y. x \<noteq> y \<longrightarrow> (x, y) \<in> E\<^sup>* \<longrightarrow> (y, x) \<in> E\<^sup>* \<longrightarrow> set vs \<inter> scc_of E x \<noteq> {}) \<and>
    (\<forall>v \<in> set vs. v \<in> set (victim' wp) \<or> 1 < card (scc_of E v))"
proof -
  obtain cs ws' where r: "find_scc wp = Some (cs, ws')"
    and s: "set (map set cs) = {C. \<exists>x. C = scc_of E x \<and> 1 < card C}"
    unfolding assms(2) by (rule find_scc_run)
  let ?xids = "choose_victims rnd 0 cs []"
  let ?vs = "victim' (fold wp_tx_victim ?xids ws')"
  have "[] \<notin> set cs"
  proof
    assume "[] \<in> set cs"
    then have "{} \<in> set (map set cs)" by force
    then show False unfolding s by auto
  qed
  note ch = choose_victims_spec[OF this, of "[]" rnd 0]
  have vs: "set ?vs = set ?xids \<union> set (victim' wp)"
    using find_scc_keeps_victims[OF r] by (simp add: wp_tx_victims)
  have hit: "set ?vs \<inter> scc_of E x \<noteq> {}" if "x \<noteq> y" "(x, y) \<in> E\<^sup>*" "(y, x) \<in> E\<^sup>*" for x y
  proof -
    have "finite (scc_of E x)" unfolding assms(2) by (rule scc_of_finite[OF finite_wait_edges])
    moreover have "{x, y} \<subseteq> scc_of E x" using that by (auto simp: scc_of_def)
    ultimately have "card {x, y} \<le> card (scc_of E x)" by (rule card_mono)
    then have "scc_of E x \<in> set (map set cs)" using that(1) unfolding s by auto
    then obtain c where "c \<in> set cs" "set c = scc_of E x" by auto
    then show ?thesis using ch vs by blast
  qed
  have only: "v \<in> set (victim' wp) \<or> 1 < card (scc_of E v)" if vv: "v \<in> set ?vs" for v
  proof (cases "v \<in> set (victim' wp)")
    case False
    then obtain c where c: "c \<in> set cs" "v \<in> set c" using vv vs ch by auto
    then have "set c \<in> set (map set cs)" by simp
    then obtain x where "set c = scc_of E x" "1 < card (set c)" unfolding s by auto
    then show ?thesis using scc_of_cong[of v E x] c(2) by auto
  qed simp
  let ?dl = "send_dependency ms 0
      (fold async_victim ?vs ((detect_collect dl)\<lparr>detecting' := False, wait_path' := fold wp_tx_victim ?xids ws'\<rparr>))"
  have "detect rnd ms dl = Some ?dl"
    using r assms(1) by (simp add: detect_def detect_circle_def Let_def)
  moreover have "posted ?dl = posted dl @ ?vs"
    by (simp add: posted_async_victims) (simp add: detect_collect_def Let_def)
  ultimately show ?thesis
    using hit only by blast
qed

text \<open>A detector whose graph holds the circle 8, 9, 7 and the bystander 5.\<close>

definition demo_dl :: deadlock where
  "demo_dl = (new_deadlock 2 True False 100)\<lparr>wait_path' := demo_ws\<rparr>"

lemma detect_breaks_circles_witness:
  "map_option posted (detect (\<lambda>_. 50) 1000 demo_dl) = Some [9] \<and>
   1 < card (scc_of (wait_edges (wait_path' (detect_collect demo_dl))) 9)"
proof -
  have v: "map_option posted (detect (\<lambda>_. 50) 1000 demo_dl) = Some [9]" by code_simp
  have e: "posted demo_dl = []" "victim' (wait_path' (detect_collect demo_dl)) = []" by code_simp+
  show ?thesis
    using detect_breaks_circles[OF refl refl, of "\<lambda>_. 50" 1000 demo_dl] v e by auto
qed

section \<open>Wait-die\<close>

lemma add_wait_set_die:
  assumes "wait_die' dl"
  shows "wait_die' (add_wait_set w dl)" and "set (posted dl) \<subseteq> set (posted (add_wait_set w dl))"
    and "i \<in> set (in_set' w) \<Longrightarrow> i \<le> xid' w \<Longrightarrow> xid' w \<in> set (posted (add_wait_set w dl))"
proof -
  define f where "f = (\<lambda>i dl. if xid' w \<ge> i then async_victim (xid' w) dl else dl)"
  have f: "wait_die' (f j d) = wait_die' d" "set (posted (f j d)) = set (posted d) \<union> (if j \<le> xid' w then {xid' w} else {})" for j d
    by (auto simp: f_def async_victim_def)
  have fold: "wait_die' (fold f is d) = wait_die' d \<and> set (posted d) \<subseteq> set (posted (fold f is d)) \<and>
      (\<forall>i \<in> set is. i \<le> xid' w \<longrightarrow> xid' w \<in> set (posted (fold f is d)))" for "is" d
  proof (induction "is" arbitrary: d)
    case (Cons a "is")
    show ?case using Cons.IH[of "f a d"] f[of a d] by auto
  qed simp
  have "add_wait_set w dl = fold f (in_set' w) dl" using assms by (simp add: add_wait_set_def f_def)
  then show "wait_die' (add_wait_set w dl)" "set (posted dl) \<subseteq> set (posted (add_wait_set w dl))"
    "i \<in> set (in_set' w) \<Longrightarrow> i \<le> xid' w \<Longrightarrow> xid' w \<in> set (posted (add_wait_set w dl))"
    using fold assms by auto
qed

lemma add_wait_sets_die:
  assumes "wait_die' dl" "w \<in> set ws" "i \<in> set (in_set' w)" "i \<le> xid' w"
  shows "xid' w \<in> set (posted (fold add_wait_set ws dl))"
proof -
  have mono: "set (posted d) \<subseteq> set (posted (fold add_wait_set vs d))" if "wait_die' d" for vs d
    using that
  proof (induction vs arbitrary: d)
    case (Cons a vs)
    then show ?case using add_wait_set_die(1,2)[of d a] by (auto dest: subsetD)
  qed simp
  show ?thesis
    using assms
  proof (induction ws arbitrary: dl)
    case (Cons a ws)
    show ?case
    proof (cases "w = a")
      case True
      then show ?thesis
        using add_wait_set_die(1)[OF Cons.prems(1), of a] add_wait_set_die(3)[OF Cons.prems(1), of i a] Cons.prems mono[of "add_wait_set a dl" ws] by auto
    next
      case False
      then show ?thesis using Cons.IH[of "add_wait_set a dl"] Cons.prems add_wait_set_die(1) by simp
    qed
  qed simp
qed

text \<open>
  (C18) Wait-die admits no deadlock: whatever waits are reported and in
  whatever order, the waits of the transactions that are not told to abort
  form an acyclic relation, because each of them goes to a transaction with
  a greater identifier.
\<close>

theorem wait_die_acyclic:
  assumes "wait_die' dl"
  shows "acyclic {(x, i). \<exists>w \<in> set ws. xid' w = x \<and> i \<in> set (in_set' w) \<and>
    x \<notin> set (posted (fold add_wait_set ws dl))}"
proof -
  have "{(x, i). \<exists>w \<in> set ws. xid' w = x \<and> i \<in> set (in_set' w) \<and>
      x \<notin> set (posted (fold add_wait_set ws dl))} \<subseteq> {(x, i). x < i}"
    using add_wait_sets_die[OF assms] by force
  moreover have "acyclic {(x :: xid_t, i). x < i}"
    by (intro acyclicI_order[of _ "\<lambda>x. - uint x"]) (auto simp: word_less_def)
  ultimately show ?thesis by (rule acyclic_subset[rotated])
qed

lemma wait_die_acyclic_witness:
  "acyclic {(x, i). \<exists>w \<in> set [(new_tx_wait 3)\<lparr>in_set' := [7]\<rparr>, (new_tx_wait 7)\<lparr>in_set' := [3]\<rparr>].
     xid' w = x \<and> i \<in> set (in_set' w) \<and>
     x \<notin> set (posted (fold add_wait_set [(new_tx_wait 3)\<lparr>in_set' := [7]\<rparr>, (new_tx_wait 7)\<lparr>in_set' := [3]\<rparr>]
       (new_deadlock 2 False False 100)))} \<and>
   posted (fold add_wait_set [(new_tx_wait 3)\<lparr>in_set' := [7]\<rparr>, (new_tx_wait 7)\<lparr>in_set' := [3]\<rparr>]
       (new_deadlock 2 False False 100)) = [7]"
proof (rule conjI)
  show "posted (fold add_wait_set [(new_tx_wait 3)\<lparr>in_set' := [7]\<rparr>, (new_tx_wait 7)\<lparr>in_set' := [3]\<rparr>]
      (new_deadlock 2 False False 100)) = [7]" by code_simp
qed (rule wait_die_acyclic, simp add: new_deadlock_def)

section \<open>Exchange of dependency sets\<close>

lemma waits_for_fold_add_in:
  "waits_for (fold (\<lambda>d. add_in (dep_in d) (dep_out d)) ds r) x =
     waits_for r x \<union> (\<Union>d \<in> {d \<in> set ds. dep_out d = x}. set (dep_in d))"
  by (induction ds arbitrary: r) auto

lemma fold_add_in_frame:
  "victim' (fold (\<lambda>d. add_in (dep_in d) (dep_out d)) ds r) = victim' r"
  "finish' (fold (\<lambda>d. add_in (dep_in d) (dep_out d)) ds r) = finish' r"
  by (induction ds arbitrary: r) (simp_all add: add_in_def split: option.split)

lemma fold_finish_one:
  "waits_for (fold finish_one xs s) x = (if x \<in> set xs then {} else waits_for s x)"
  "set (victim' (fold finish_one xs s)) = set (victim' s) - set xs"
  "set (finish' (fold finish_one xs s)) = set (finish' s) \<union> set xs"
  by (induction xs arbitrary: s) (auto simp: finish_one_def waits_for_finish_one[unfolded finish_one_def])

lemma waits_for_victim [simp]: "waits_for (s\<lparr>victim' := v\<rparr>) = waits_for s"
  by (simp add: waits_for_def fun_eq_iff)

lemma waits_for_dep:
  assumes "ws_wf s"
  shows "(\<Union>d \<in> {d \<in> set (dep (to_dependency_set s)). dep_out d = x}. set (dep_in d)) = waits_for s x"
proof -
  have iff: "(k, w) \<in> set (tx_wait' s) \<longleftrightarrow> map_of (tx_wait' s) k = Some w" for k w
    using assms by (simp add: ws_wf_def)
  have "{d \<in> set (dep (to_dependency_set s)). dep_out d = x} =
      (\<lambda>w. \<lparr>dep_out = xid' w, dep_in = in_set' w\<rparr>) ` {w. map_of (tx_wait' s) x = Some w}" (is "?L = ?R")
  proof (intro equalityI subsetI)
    fix d assume "d \<in> ?L"
    then obtain k w where kw: "(k, w) \<in> set (tx_wait' s)" "d = \<lparr>dep_out = xid' w, dep_in = in_set' w\<rparr>" "xid' w = x"
      by (auto simp: to_dependency_set_def)
    then have m: "map_of (tx_wait' s) k = Some w" using iff by simp
    then have "k = x" using ws_wf_map_of[OF assms m] kw(3) by simp
    then show "d \<in> ?R" using m kw(2) by auto
  next
    fix d assume "d \<in> ?R"
    then obtain w where w: "map_of (tx_wait' s) x = Some w" "d = \<lparr>dep_out = xid' w, dep_in = in_set' w\<rparr>" by auto
    then show "d \<in> ?L" using ws_wf_map_of[OF assms w(1)] iff[of x w] by (force simp: to_dependency_set_def)
  qed
  then show ?thesis by (simp add: waits_for_def split: option.split)
qed

text \<open>
  (C19) A site that receives the dependency set of another site ends up with
  the union of both graphs and of both victim sets, minus the transactions
  the set reports as finished; nothing of the sender's graph is lost or
  invented by the exchange format.
\<close>

theorem dependency_set_merge:
  assumes "ws_wf s" and "r' = add_dependency_set (to_dependency_set s) r"
  shows "waits_for r' = (\<lambda>x. if x \<in> set (finish' s) then {} else waits_for r x \<union> waits_for s x) \<and>
    set (victim' r') = (set (victim' r) \<union> set (victim' s)) - set (finish' s) \<and>
    set (finish' r') = set (finish' r) \<union> set (finish' s)"
  unfolding assms(2) add_dependency_set_def Let_def
  using waits_for_dep[OF assms(1)]
  by (auto simp: fun_eq_iff fold_finish_one waits_for_fold_add_in fold_add_in_frame to_dependency_set_def)

lemma dependency_set_merge_witness:
  "waits_for (add_dependency_set (to_dependency_set demo_ws) demo_ws) 8 = {9}"
proof -
  have wf: "ws_wf demo_ws" by code_simp
  have "set (finish' demo_ws) = {}" "waits_for demo_ws 8 = {9}" by code_simp+
  then show ?thesis using dependency_set_merge[OF wf refl, of demo_ws] by simp
qed

text \<open>The number of messages sent when a received set travels along a list of sites.\<close>

fun relay :: "(nat \<times> deadlock) list \<Rightarrow> dependency_set \<Rightarrow> nat" where
  "relay [] ds = 0"
| "relay ((ms, dl) # sites) ds =
     (case gut_recv_dependency ms ds dl of
        None \<Rightarrow> 0
      | Some dl' \<Rightarrow> if length (sent dl') > length (sent dl)
                   then Suc (relay sites (snd (last (sent dl')))) else 0)"

lemma gut_recv_sends:
  assumes "gut_recv_dependency ms ds dl = Some dl'" "length (sent dl) < length (sent dl')"
  shows "sequence ds \<le> num_shard' dl" and "sequence (snd (last (sent dl'))) = Suc (sequence ds)"
  using assms
  by (auto simp: gut_recv_dependency_def send_dependency_def add_dependency_def split: if_splits)

text \<open>
  (C20) Forwarding of dependency sets ends: along any route through sites
  configured with \<^term>\<open>n\<close> shards a set with sequence number \<^term>\<open>k\<close> is sent on
  at most \<^term>\<open>n + 1 - k\<close> times, so the exchange never circulates forever.
\<close>

theorem relay_bounded:
  assumes "\<And>ms dl. (ms, dl) \<in> set sites \<Longrightarrow> num_shard' dl = n"
  shows "relay sites ds \<le> n + 1 - sequence ds"
  using assms
proof (induction sites arbitrary: ds)
  case (Cons site sites)
  obtain ms dl where site: "site = (ms, dl)" by (cases site)
  show ?case
  proof (cases "gut_recv_dependency ms ds dl")
    case (Some dl')
    show ?thesis
    proof (cases "length (sent dl) < length (sent dl')")
      case True
      have "num_shard' dl = n" using Cons.prems[of ms dl] site by simp
      then show ?thesis
        using gut_recv_sends[OF Some True] Cons.IH[of "snd (last (sent dl'))"] Cons.prems site Some True
        by fastforce
    qed (simp add: site Some)
  qed (simp add: site)
qed simp

definition demo_site :: deadlock where
  "demo_site = (new_deadlock 1 True True 100)\<lparr>send_to_node' := 65793\<rparr>"

lemma relay_bounded_witness:
  "relay [(500, demo_site), (600, demo_site), (700, demo_site)] (to_dependency_set demo_ws) = 2 \<and>
   relay [(500, demo_site), (600, demo_site), (700, demo_site)] (to_dependency_set demo_ws) \<le> 1 + 1 - 0"
proof -
  have s: "sequence (to_dependency_set demo_ws) = 0" "num_shard' demo_site = 1" by code_simp+
  have "relay [(500, demo_site), (600, demo_site), (700, demo_site)] (to_dependency_set demo_ws) = 2"
    by code_simp
  moreover have "relay [(500, demo_site), (600, demo_site), (700, demo_site)] (to_dependency_set demo_ws)
      \<le> 1 + 1 - sequence (to_dependency_set demo_ws)"
    by (rule relay_bounded) (use s in auto)
  ultimately show ?thesis using s by simp
qed

end
