(* ===== verification/Lock_Slot.thy ===== *)
theory Lock_Slot
  imports Tx_Wait
begin

text \<open>
  The lock of one row: \<^verbatim>\<open>lock_slot\<close> of
  \<^verbatim>\<open>src/concurrency/lock_slot.cpp\<close> with its holders, its FIFO queue of
  waiting requests and the notification of waiters on release.

  Every operation runs under the slot's mutex, so it is one step on the
  record \<^verbatim>\<open>lock_slot\<close>.  \<^verbatim>\<open>ptr<tx_rm>\<close> is the identifier of the
  transaction; a \<^verbatim>\<open>ptr<tx_lock_ctx>\<close> is the entry of \<^verbatim>\<open>info_\<close> it points
  to.  Calls that leave the slot are appended to the ghost field
  \<^verbatim>\<open>events\<close>.  \<^verbatim>\<open>read_count_\<close> and \<^verbatim>\<open>write_count_\<close> are natural numbers:
  the invariant shows them equal to the number of holders.
\<close>

section \<open>Data\<close>

datatype lock_mode = LOCK_INVALID | LOCK_READ_PREDICATE | LOCK_READ_ROW | LOCK_WRITE_ROW

datatype tx_cmd_type =
    TX_CMD_RM_READ | TX_CMD_RM_WRITE | TX_CMD_RM_BEGIN | TX_CMD_RM_PREPARE_COMMIT
  | TX_CMD_RM_PREPARE_ABORT | TX_CMD_RM_COMMIT | TX_CMD_RM_ABORT | TX_CMD_TM_BEGIN
  | TX_CMD_TM_COMMIT | TX_CMD_TM_ABORT | TX_CMD_TM_END | TX_CMD_REPLAY_DSB | RAFT_LOG_ENTRY

datatype tx_op_type =
    TX_OP_ACCESS_BEGIN | TX_OP_READ | TX_OP_READ_FOR_WRITE | TX_OP_INSERT | TX_OP_UPDATE
  | TX_OP_DELETE | TX_OP_ACCESS_END

definition op_type_to_lock_mode :: "tx_op_type \<Rightarrow> lock_mode option" where
  "op_type_to_lock_mode op =
     (case op of
        TX_OP_UPDATE \<Rightarrow> Some LOCK_WRITE_ROW
      | TX_OP_DELETE \<Rightarrow> Some LOCK_WRITE_ROW
      | TX_OP_INSERT \<Rightarrow> Some LOCK_WRITE_ROW
      | TX_OP_READ_FOR_WRITE \<Rightarrow> Some LOCK_WRITE_ROW
      | TX_OP_READ \<Rightarrow> Some LOCK_READ_ROW
      | _ \<Rightarrow> None)"

record tx_lock_ctx =
  ctx' :: xid_t
  oid' :: "oid_t list"
  type' :: lock_mode
  acquired' :: bool

definition new_tx_lock_ctx :: "xid_t \<Rightarrow> oid_t \<Rightarrow> lock_mode \<Rightarrow> bool \<Rightarrow> tx_lock_ctx" where
  "new_tx_lock_ctx x oid mode acquire = \<lparr>ctx' = x, oid' = [oid], type' = mode, acquired' = acquire\<rparr>"

record tx_op =
  op_cmd :: tx_cmd_type
  op_xid :: xid_t
  op_oid :: oid_t
  op_table :: table_id_t
  op_shard :: shard_id_t
  op_tuple :: tuple_id_t

datatype slot_event =
    Fn_before tx_op
  | Fn_after tx_op
  | Async_lock_acquire EC xid_t oid_t
  | Async_add_dependency xid_t

record lock_slot =
  table_id' :: table_id_t
  shard_id' :: shard_id_t
  tuple_id' :: tuple_id_t
  mgr' :: bool
  fn_before' :: bool
  fn_after' :: bool
  non_deterministic :: bool
  read_count' :: nat
  write_count' :: nat
  read' :: "xid_t list"
  write' :: "xid_t list"
  wait' :: "(xid_t \<times> oid_t) list"
  info' :: "xid_t \<rightharpoonup> tx_lock_ctx"
  events :: "slot_event list"

definition new_lock_slot :: "bool \<Rightarrow> bool \<Rightarrow> bool \<Rightarrow> bool \<Rightarrow> table_id_t \<Rightarrow> shard_id_t \<Rightarrow> tuple_id_t \<Rightarrow> lock_slot" where
  "new_lock_slot mgr before after nondet table shard tuple =
     \<lparr>table_id' = table, shard_id' = shard, tuple_id' = tuple, mgr' = mgr, fn_before' = before,
      fn_after' = after, non_deterministic = nondet, read_count' = 0, write_count' = 0, read' = [],
      write' = [], wait' = [], info' = Map.empty, events = []\<rparr>"

section \<open>Operations\<close>

definition is_read :: "lock_mode \<Rightarrow> bool" where
  "is_read m \<longleftrightarrow> m = LOCK_READ_ROW \<or> m = LOCK_READ_PREDICATE"

definition slot_assert_check :: "lock_slot \<Rightarrow> unit option" where
  "slot_assert_check s = do {
     boost_assert (write_count' s = length (write' s));
     boost_assert (read_count' s = length (read' s)) }"

definition emit :: "slot_event \<Rightarrow> lock_slot \<Rightarrow> lock_slot" where
  "emit e s = s\<lparr>events := events s @ [e]\<rparr>"

definition slot_op :: "lock_slot \<Rightarrow> tx_cmd_type \<Rightarrow> xid_t \<Rightarrow> oid_t \<Rightarrow> tx_op" where
  "slot_op s cmd x oid = \<lparr>op_cmd = cmd, op_xid = x, op_oid = oid, op_table = table_id' s,
     op_shard = shard_id' s, op_tuple = tuple_id' s\<rparr>"

definition on_lock_acquired :: "EC \<Rightarrow> lock_mode \<Rightarrow> xid_t \<Rightarrow> oid_t \<Rightarrow> lock_slot \<Rightarrow> lock_slot" where
  "on_lock_acquired ec mode x oid s =
     (let s1 = (if fn_after' s then
                  emit (Fn_after (slot_op s (if is_read mode then TX_CMD_RM_READ else TX_CMD_RM_WRITE) x oid)) s
                else s)
      in emit (Async_lock_acquire ec x oid) s1)"

text \<open>A slot without a manager has no strand to post to: the pointer is dereferenced.\<close>

definition slot_async_add_dependency :: "xid_t \<Rightarrow> lock_slot \<Rightarrow> lock_slot option" where
  "slot_async_add_dependency x s = (if mgr' s then Some (emit (Async_add_dependency x) s) else None)"

definition slot_add_wait :: "xid_t \<Rightarrow> oid_t \<Rightarrow> lock_slot \<Rightarrow> lock_slot option" where
  "slot_add_wait x oid s = do {
     let s = s\<lparr>wait' := wait' s @ [(x, oid)]\<rparr>;
     s \<leftarrow> (if non_deterministic s then slot_async_add_dependency x s else Some s);
     slot_assert_check s;
     Some s }"

definition set_acquired :: "xid_t \<Rightarrow> lock_slot \<Rightarrow> lock_slot" where
  "set_acquired x s =
     (case info' s x of None \<Rightarrow> s | Some i \<Rightarrow> s\<lparr>info' := (info' s)(x \<mapsto> i\<lparr>acquired' := True\<rparr>)\<rparr>)"

definition insert_read :: "xid_t \<Rightarrow> lock_slot \<Rightarrow> lock_slot" where
  "insert_read x s =
     (if x \<notin> set (read' s) then s\<lparr>read_count' := read_count' s + 1, read' := x # read' s\<rparr> else s)"

definition insert_write :: "xid_t \<Rightarrow> lock_slot \<Rightarrow> lock_slot" where
  "insert_write x s =
     (if x \<notin> set (write' s) then s\<lparr>write_count' := write_count' s + 1, write' := x # write' s\<rparr> else s)"

definition slot_add_read :: "xid_t \<Rightarrow> oid_t \<Rightarrow> lock_slot \<Rightarrow> lock_slot option" where
  "slot_add_read x oid s = do {
     let s = insert_read x (set_acquired x s);
     slot_assert_check s;
     Some s }"

definition slot_add_write :: "xid_t \<Rightarrow> oid_t \<Rightarrow> lock_slot \<Rightarrow> lock_slot option" where
  "slot_add_write x oid s = do {
     let s = insert_write x (set_acquired x s);
     boost_assert (x \<in> set (write' s));
     slot_assert_check s;
     Some s }"

definition acquire_read_lock :: "xid_t \<Rightarrow> oid_t \<Rightarrow> lock_slot \<Rightarrow> (bool \<times> lock_slot) option" where
  "acquire_read_lock x oid s =
     (if write_count' s = 0 then do {
        s \<leftarrow> slot_add_read x oid s;
        boost_assert (read_count' s = length (read' s));
        Some (True, s) }
      else do {
        s \<leftarrow> slot_add_wait x oid s;
        Some (False, s) })"

definition slot_read_lock :: "xid_t \<Rightarrow> oid_t \<Rightarrow> lock_slot \<Rightarrow> (bool \<times> lock_slot) option" where
  "slot_read_lock x oid s = do {
     boost_assert (read_count' s = length (read' s));
     (acquire, s) \<leftarrow> acquire_read_lock x oid s;
     let s = (if fn_before' s then emit (Fn_before (slot_op s TX_CMD_RM_READ x oid)) s else s);
     let s = (if acquire then on_lock_acquired EC_OK LOCK_READ_ROW x oid s else s);
     boost_assert (read_count' s = length (read' s));
     Some (acquire, s) }"

definition slot_write_lock :: "xid_t \<Rightarrow> oid_t \<Rightarrow> lock_slot \<Rightarrow> (bool \<times> lock_slot) option" where
  "slot_write_lock x oid s = do {
     (acquire, s) \<leftarrow>
       (if write_count' s = 0 \<and> read_count' s = 0 then do {
          s \<leftarrow> slot_add_write x oid s;
          boost_assert (wait' s = []);
          Some (True, s) }
        else do {
          s \<leftarrow> slot_add_wait x oid s;
          Some (False, s) });
     let s = (if fn_before' s then emit (Fn_before (slot_op s TX_CMD_RM_WRITE x oid)) s else s);
     let s = (if acquire then on_lock_acquired EC_OK LOCK_WRITE_ROW x oid s else s);
     boost_assert (write_count' s = length (write' s));
     Some (acquire, s) }"

definition add_lock_info :: "lock_mode \<Rightarrow> xid_t \<Rightarrow> oid_t \<Rightarrow> lock_slot \<Rightarrow> bool \<times> lock_slot" where
  "add_lock_info mode x oid s =
     (case info' s x of
        Some i \<Rightarrow> (acquired' i, s\<lparr>info' := (info' s)(x \<mapsto> i\<lparr>oid' := oid' i @ [oid]\<rparr>)\<rparr>)
      | None \<Rightarrow> (False, s\<lparr>info' := (info' s)(x \<mapsto> new_tx_lock_ctx x oid mode False)\<rparr>))"

definition slot_lock :: "lock_mode \<Rightarrow> xid_t \<Rightarrow> oid_t \<Rightarrow> lock_slot \<Rightarrow> (bool \<times> lock_slot) option" where
  "slot_lock mode x oid s = (let (acquired, s) = add_lock_info mode x oid s in
     if acquired then Some (True, on_lock_acquired EC_OK LOCK_READ_ROW x oid s)
     else do {
       (ok, s) \<leftarrow> (if mode = LOCK_READ_ROW \<or> mode = LOCK_READ_PREDICATE then slot_read_lock x oid s
                  else if mode = LOCK_WRITE_ROW then slot_write_lock x oid s
                  else None);
       slot_assert_check s;
       Some (ok, s) })"

definition remove_lock :: "xid_t \<Rightarrow> lock_slot \<Rightarrow> (bool \<times> lock_slot) option" where
  "remove_lock x s =
     (case info' s x of
        None \<Rightarrow> do { slot_assert_check s; Some (False, s) }
      | Some ti \<Rightarrow> do {
          s \<leftarrow> (if acquired' ti then do {
                  slot_assert_check s;
                  (if is_read (type' ti) then do {
                     boost_assert (read_count' s > 0);
                     let s = s\<lparr>info' := (info' s)(x := None)\<rparr>;
                     Some (if x \<in> set (read' s)
                           then s\<lparr>read_count' := read_count' s - 1, read' := removeAll x (read' s)\<rparr> else s) }
                   else if type' ti = LOCK_WRITE_ROW then do {
                     boost_assert (write_count' s > 0);
                     let s = s\<lparr>info' := (info' s)(x := None)\<rparr>;
                     Some (if x \<in> set (write' s)
                           then s\<lparr>write' := removeAll x (write' s), write_count' := write_count' s - 1\<rparr> else s) }
                   else Some s) }
                else Some (s\<lparr>info' := (info' s)(x := None), wait' := filter (\<lambda>(y, _). y \<noteq> x) (wait' s)\<rparr>));
          slot_assert_check s;
          Some (True, s) })"

text \<open>\<^verbatim>\<open>lock_mgr::conflict\<close> runs \<^verbatim>\<open>find_conflict\<close> over an empty set of tuples.\<close>

definition mgr_conflict :: "xid_t \<Rightarrow> oid_t \<Rightarrow> bool" where
  "mgr_conflict x oid = False"

text \<open>
  The first loop of \<^verbatim>\<open>notify_lock_acquire\<close>: it returns \<^verbatim>\<open>notify_tx\<close> and the
  queue that is left.  A front entry whose mode is neither read nor write is
  never popped, the loop does not end.
\<close>

fun notify_scan :: "lock_slot \<Rightarrow> nat \<Rightarrow> nat \<Rightarrow> (xid_t \<times> oid_t) list \<Rightarrow> (xid_t list \<times> (xid_t \<times> oid_t) list) option" where
  "notify_scan s read write [] = Some ([], [])"
| "notify_scan s read write ((x, oid) # q) =
     (case info' s x of
        None \<Rightarrow> notify_scan s read write q
      | Some i \<Rightarrow>
          if is_read (type' i) then
            (if write = 0 \<and> write_count' s = 0 then
               (if type' i = LOCK_READ_PREDICATE \<and> mgr' s \<and> mgr_conflict (ctx' i) oid
                then Some ([], (x, oid) # q)
                else do {
                  (n, q') \<leftarrow> notify_scan s (read + 1) write q;
                  Some (x # n, q') })
             else Some ([], (x, oid) # q))
          else if type' i = LOCK_WRITE_ROW then
            (if (read = 0 \<and> write = 0) \<and> (read_count' s = 0 \<and> write_count' s = 0)
             then Some ([x], q) else Some ([], (x, oid) # q))
          else None)"

text \<open>The body of its second loop and the loop.\<close>

definition notify_one :: "xid_t \<Rightarrow> lock_slot \<Rightarrow> lock_slot option" where
  "notify_one x s =
     (case info' s x of
        None \<Rightarrow> None
      | Some i \<Rightarrow>
          (let s = set_acquired x s;
               s = (if is_read (type' i) then insert_read x s
                    else if type' i = LOCK_WRITE_ROW then insert_write x s else s)
           in Some (fold (\<lambda>oid. on_lock_acquired EC_OK (type' i) x oid) (oid' i) s)))"

fun notify_all :: "xid_t list \<Rightarrow> lock_slot \<Rightarrow> lock_slot option" where
  "notify_all [] s = Some s"
| "notify_all (x # xs) s = do { s \<leftarrow> notify_one x s; notify_all xs s }"

text \<open>The last assertion dereferences \<^verbatim>\<open>info_.find(front)\<close> when no writer holds the lock.\<close>

definition front_not_reader :: "lock_slot \<Rightarrow> bool" where
  "front_not_reader s =
     (write_count' s = 0 \<longrightarrow>
       (case wait' s of [] \<Rightarrow> True
        | (x, _) # _ \<Rightarrow> (case info' s x of None \<Rightarrow> False | Some i \<Rightarrow> type' i \<noteq> LOCK_READ_ROW)))"

definition notify_lock_acquire :: "lock_slot \<Rightarrow> lock_slot option" where
  "notify_lock_acquire s = do {
     slot_assert_check s;
     (if wait' s = [] then Some s
      else do {
        (n, q) \<leftarrow> notify_scan s 0 0 (wait' s);
        s \<leftarrow> notify_all n (s\<lparr>wait' := q\<rparr>);
        boost_assert (\<not> (read_count' s = 0 \<and> write_count' s = 0 \<and> wait' s \<noteq> []));
        boost_assert (front_not_reader s);
        slot_assert_check s;
        Some s }) }"

definition slot_unlock :: "xid_t \<Rightarrow> lock_slot \<Rightarrow> lock_slot option" where
  "slot_unlock x s = do {
     (_, s) \<leftarrow> remove_lock x s;
     slot_assert_check s;
     s \<leftarrow> notify_lock_acquire s;
     slot_assert_check s;
     Some s }"

definition tx_build_dependency :: "lock_slot \<Rightarrow> tx_wait \<Rightarrow> tx_wait" where
  "tx_build_dependency s w =
     (case info' s (xid' w) of
        None \<Rightarrow> w
      | Some i \<Rightarrow>
          if type' i = LOCK_READ_ROW then w\<lparr>in_set' := insert_all (write' s) (in_set' w)\<rparr>
          else if type' i = LOCK_WRITE_ROW then
            w\<lparr>in_set' := insert_all (write' s) (insert_all (read' s) (in_set' w))\<rparr>
          else w)"

definition tx_wait_for :: "lock_slot \<Rightarrow> tx_wait \<Rightarrow> EC + tx_wait" where
  "tx_wait_for s ws =
     (case info' s (xid' ws) of
        None \<Rightarrow> Inl EC_NOT_FOUND_ERROR
      | Some i \<Rightarrow> if acquired' i then Inl EC_NOT_FOUND_ERROR else Inr (tx_build_dependency s ws))"

text \<open>
  The function that \<^verbatim>\<open>async_add_dependency\<close> hands to the deadlock manager:
  \<^term>\<open>ended\<close> is \<^verbatim>\<open>rm->is_end()\<close>.
\<close>

definition fn_wait_lock :: "bool \<Rightarrow> xid_t \<Rightarrow> lock_slot \<Rightarrow> tx_wait option" where
  "fn_wait_lock ended x s =
     (if ended then None
      else (case tx_wait_for s (new_tx_wait x) of Inl _ \<Rightarrow> None | Inr ws \<Rightarrow> Some ws))"

definition build_dependency :: "lock_slot \<Rightarrow> tx_wait_set \<Rightarrow> tx_wait_set" where
  "build_dependency s ds =
     fold (\<lambda>(x, _) ds. add_wait_node (tx_build_dependency s (new_tx_wait x)) ds) (wait' s) ds"

definition predicate_conflict :: "xid_t \<Rightarrow> oid_t \<Rightarrow> xid_t \<Rightarrow> lock_slot \<Rightarrow> bool \<times> lock_slot" where
  "predicate_conflict x oid txn s =
     (let acquire = (write_count' s = 0) in
      case info' s x of
        Some i \<Rightarrow> (acquire \<or> acquired' i, s)
      | None \<Rightarrow>
          (let s = (if acquire then s\<lparr>read_count' := read_count' s + 1\<rparr>
                    else s\<lparr>wait' := wait' s @ [(x, oid)]\<rparr>)
           in (acquire, s\<lparr>info' := (info' s)(x \<mapsto> new_tx_lock_ctx txn oid LOCK_READ_PREDICATE acquire)\<rparr>)))"

section \<open>The invariant\<close>

text \<open>What a slot knows of a transaction: whether it holds the lock, and in which mode.\<close>

definition status :: "lock_slot \<Rightarrow> xid_t \<Rightarrow> (bool \<times> lock_mode) option" where
  "status s x = map_option (\<lambda>i. (acquired' i, type' i)) (info' s x)"

text \<open>
  The part of the invariant that a release may break for a moment is the last
  two conjuncts of \<^verbatim>\<open>slot_inv\<close>: somebody holds the lock whenever somebody
  waits, and no reader is at the front of the queue unless a writer holds it.
\<close>

definition slot_core :: "lock_slot \<Rightarrow> bool" where
  "slot_core s \<longleftrightarrow>
     read_count' s = length (read' s) \<and> write_count' s = length (write' s) \<and>
     distinct (read' s) \<and> distinct (write' s) \<and> distinct (map fst (wait' s)) \<and>
     (\<forall>x. x \<in> set (read' s) \<longleftrightarrow> status s x = Some (True, LOCK_READ_ROW)) \<and>
     (\<forall>x. x \<in> set (write' s) \<longleftrightarrow> status s x = Some (True, LOCK_WRITE_ROW)) \<and>
     (\<forall>x. x \<in> fst ` set (wait' s) \<longleftrightarrow> (\<exists>m. status s x = Some (False, m))) \<and>
     (\<forall>x a m. status s x = Some (a, m) \<longrightarrow> m = LOCK_READ_ROW \<or> m = LOCK_WRITE_ROW) \<and>
     (write' s \<noteq> [] \<longrightarrow> read' s = [] \<and> length (write' s) = 1) \<and>
     (non_deterministic s \<longrightarrow> mgr' s)"

definition slot_inv :: "lock_slot \<Rightarrow> bool" where
  "slot_inv s \<longleftrightarrow> slot_core s \<and>
     (wait' s \<noteq> [] \<longrightarrow> read' s \<noteq> [] \<or> write' s \<noteq> []) \<and>
     (\<forall>x oid q. write' s = [] \<longrightarrow> wait' s = (x, oid) # q \<longrightarrow> status s x = Some (False, LOCK_WRITE_ROW))"

lemma status_None_iff: "status s x = None \<longleftrightarrow> info' s x = None"
  by (simp add: status_def)

lemma status_SomeE:
  assumes "status s x = Some (a, m)"
  obtains i where "info' s x = Some i" "acquired' i = a" "type' i = m"
  using assms by (auto simp: status_def)

lemma emit_frame [simp]:
  "read_count' (emit e s) = read_count' s" "write_count' (emit e s) = write_count' s"
  "read' (emit e s) = read' s" "write' (emit e s) = write' s" "wait' (emit e s) = wait' s"
  "info' (emit e s) = info' s" "status (emit e s) = status s" "mgr' (emit e s) = mgr' s"
  "non_deterministic (emit e s) = non_deterministic s" "events (emit e s) = events s @ [e]"
  "fn_after' (emit e s) = fn_after' s" "fn_before' (emit e s) = fn_before' s"
  by (simp_all add: emit_def status_def fun_eq_iff)

lemma acquired_frame [simp]:
  "read_count' (on_lock_acquired ec m x oid s) = read_count' s"
  "write_count' (on_lock_acquired ec m x oid s) = write_count' s"
  "read' (on_lock_acquired ec m x oid s) = read' s" "write' (on_lock_acquired ec m x oid s) = write' s"
  "wait' (on_lock_acquired ec m x oid s) = wait' s" "info' (on_lock_acquired ec m x oid s) = info' s"
  "status (on_lock_acquired ec m x oid s) = status s" "mgr' (on_lock_acquired ec m x oid s) = mgr' s"
  "non_deterministic (on_lock_acquired ec m x oid s) = non_deterministic s"
  by (simp_all add: on_lock_acquired_def Let_def)

lemma fold_acquired_frame [simp]:
  "read_count' (fold (on_lock_acquired ec m x) oids s) = read_count' s"
  "write_count' (fold (on_lock_acquired ec m x) oids s) = write_count' s"
  "read' (fold (on_lock_acquired ec m x) oids s) = read' s"
  "write' (fold (on_lock_acquired ec m x) oids s) = write' s"
  "wait' (fold (on_lock_acquired ec m x) oids s) = wait' s"
  "info' (fold (on_lock_acquired ec m x) oids s) = info' s"
  "status (fold (on_lock_acquired ec m x) oids s) = status s"
  "mgr' (fold (on_lock_acquired ec m x) oids s) = mgr' s"
  "non_deterministic (fold (on_lock_acquired ec m x) oids s) = non_deterministic s"
  by (induction oids arbitrary: s) simp_all

lemma set_acquired_frame [simp]:
  "read_count' (set_acquired x s) = read_count' s" "write_count' (set_acquired x s) = write_count' s"
  "read' (set_acquired x s) = read' s" "write' (set_acquired x s) = write' s"
  "wait' (set_acquired x s) = wait' s" "mgr' (set_acquired x s) = mgr' s"
  "non_deterministic (set_acquired x s) = non_deterministic s"
  by (simp_all add: set_acquired_def split: option.split)

lemma set_acquired_status:
  "status s x = Some (a, m) \<Longrightarrow> status (set_acquired x s) = (status s)(x := Some (True, m))"
  by (auto simp: set_acquired_def status_def fun_eq_iff)

lemma insert_frame [simp]:
  "status (insert_read x s) = status s" "status (insert_write x s) = status s"
  "wait' (insert_read x s) = wait' s" "wait' (insert_write x s) = wait' s"
  "write' (insert_read x s) = write' s" "write_count' (insert_read x s) = write_count' s"
  "read' (insert_write x s) = read' s" "read_count' (insert_write x s) = read_count' s"
  "mgr' (insert_read x s) = mgr' s" "mgr' (insert_write x s) = mgr' s"
  "non_deterministic (insert_read x s) = non_deterministic s"
  "non_deterministic (insert_write x s) = non_deterministic s"
  by (simp_all add: insert_read_def insert_write_def status_def fun_eq_iff)

lemma slot_assert_check_ok [simp]:
  "write_count' s = length (write' s) \<Longrightarrow> read_count' s = length (read' s) \<Longrightarrow> slot_assert_check s = Some ()"
  by (simp add: slot_assert_check_def)

section \<open>What a request does\<close>

text \<open>The fields the invariant reads, and the state after a request by a new transaction.\<close>

definition slot_view :: "lock_slot \<Rightarrow> nat \<times> nat \<times> xid_t list \<times> xid_t list \<times> (xid_t \<times> oid_t) list \<times>
    (xid_t \<Rightarrow> (bool \<times> lock_mode) option) \<times> bool \<times> bool" where
  "slot_view s = (read_count' s, write_count' s, read' s, write' s, wait' s, status s, mgr' s, non_deterministic s)"

lemma slot_inv_view: "slot_view s = slot_view t \<Longrightarrow> slot_inv s = slot_inv t"
  by (simp add: slot_view_def slot_inv_def slot_core_def)

lemma slot_coreD:
  assumes "slot_core s"
  shows "read_count' s = length (read' s)" and "write_count' s = length (write' s)"
    and "distinct (read' s)" and "distinct (write' s)" and "distinct (map fst (wait' s))"
    and "\<And>x. x \<in> set (read' s) \<longleftrightarrow> status s x = Some (True, LOCK_READ_ROW)"
    and "\<And>x. x \<in> set (write' s) \<longleftrightarrow> status s x = Some (True, LOCK_WRITE_ROW)"
    and "\<And>x. x \<in> fst ` set (wait' s) \<longleftrightarrow> (\<exists>m. status s x = Some (False, m))"
    and "\<And>x a m. status s x = Some (a, m) \<Longrightarrow> m = LOCK_READ_ROW \<or> m = LOCK_WRITE_ROW"
    and "write' s \<noteq> [] \<Longrightarrow> read' s = [] \<and> length (write' s) = 1"
    and "non_deterministic s \<Longrightarrow> mgr' s"
  using assms unfolding slot_core_def by blast+

lemma slot_lock_held:
  assumes "status s x = Some (True, m)"
  shows "\<exists>s'. slot_lock mode x oid s = Some (True, s') \<and> slot_view s' = slot_view s"
proof -
  obtain i where i: "info' s x = Some i" "acquired' i" "type' i = m" using assms by (auto elim: status_SomeE)
  have "status (s\<lparr>info' := (info' s)(x \<mapsto> i\<lparr>oid' := oid' i @ [oid]\<rparr>)\<rparr>) = status s"
    using i by (auto simp: status_def fun_eq_iff)
  then show ?thesis
    using i by (simp add: slot_lock_def add_lock_info_def slot_view_def)
qed

text \<open>The state in which \<^verbatim>\<open>read_lock\<close> and \<^verbatim>\<open>write_lock\<close> start for a new transaction.\<close>

lemma add_lock_info_new:
  assumes "status s x = None"
  obtains s1 where "add_lock_info mode x oid s = (False, s1)"
    and "status s1 = (status s)(x := Some (False, mode))"
    and "read_count' s1 = read_count' s" "write_count' s1 = write_count' s" "read' s1 = read' s"
    "write' s1 = write' s" "wait' s1 = wait' s" "mgr' s1 = mgr' s" "non_deterministic s1 = non_deterministic s"
  using assms by (auto simp: add_lock_info_def status_def new_tx_lock_ctx_def fun_eq_iff)

lemma slot_add_wait_ok:
  assumes "read_count' s = length (read' s)" "write_count' s = length (write' s)"
    and "non_deterministic s \<Longrightarrow> mgr' s"
  obtains s' where "slot_add_wait x oid s = Some s'" and "slot_view s' =
    (read_count' s, write_count' s, read' s, write' s, wait' s @ [(x, oid)], status s, mgr' s, non_deterministic s)"
proof -
  let ?s = "s\<lparr>wait' := wait' s @ [(x, oid)]\<rparr>"
  have "status ?s = status s" by (simp add: status_def fun_eq_iff)
  then show thesis
    using that assms
    by (cases "non_deterministic s")
      (auto simp: slot_add_wait_def slot_async_add_dependency_def slot_view_def)
qed

lemma slot_lock_read_new:
  assumes inv: "slot_inv s" and new: "status s x = None"
  shows "\<exists>s'. slot_lock LOCK_READ_ROW x oid s = Some (write' s = [], s') \<and> slot_view s' =
    (if write' s = []
     then (Suc (read_count' s), write_count' s, x # read' s, write' s, wait' s,
           (status s)(x := Some (True, LOCK_READ_ROW)), mgr' s, non_deterministic s)
     else (read_count' s, write_count' s, read' s, write' s, wait' s @ [(x, oid)],
           (status s)(x := Some (False, LOCK_READ_ROW)), mgr' s, non_deterministic s))"
proof -
  note D = slot_coreD[OF inv[unfolded slot_inv_def, THEN conjunct1]]
  obtain s1 where s1: "add_lock_info LOCK_READ_ROW x oid s = (False, s1)"
    "status s1 = (status s)(x := Some (False, LOCK_READ_ROW))"
    "read_count' s1 = read_count' s" "write_count' s1 = write_count' s" "read' s1 = read' s"
    "write' s1 = write' s" "wait' s1 = wait' s" "mgr' s1 = mgr' s" "non_deterministic s1 = non_deterministic s"
    using add_lock_info_new[OF new] by metis
  have st: "status s1 x = Some (False, LOCK_READ_ROW)" using s1(2) by simp
  have xr: "x \<notin> set (read' s)" using D(6)[of x] new by simp
  show ?thesis
  proof (cases "write' s = []")
    case True
    let ?s2 = "insert_read x (set_acquired x s1)"
    have v: "read' ?s2 = x # read' s" "read_count' ?s2 = Suc (read_count' s)"
      using xr s1 by (simp_all add: insert_read_def)
    have "slot_add_read x oid s1 = Some ?s2"
      using v D s1 by (simp add: slot_add_read_def)
    then show ?thesis
      using True v D s1 set_acquired_status[OF st]
      by (auto simp: slot_lock_def slot_read_lock_def acquire_read_lock_def slot_view_def)
  next
    case False
    obtain s2 where s2: "slot_add_wait x oid s1 = Some s2" and v: "slot_view s2 =
      (read_count' s1, write_count' s1, read' s1, write' s1, wait' s1 @ [(x, oid)], status s1, mgr' s1, non_deterministic s1)"
      using slot_add_wait_ok[of s1 x oid] D s1 by auto
    then show ?thesis
      using False D s1
      by (auto simp: slot_lock_def slot_read_lock_def acquire_read_lock_def slot_view_def)
  qed
qed

lemma slot_lock_write_new:
  assumes inv: "slot_inv s" and new: "status s x = None"
  defines "free \<equiv> write' s = [] \<and> read' s = []"
  shows "\<exists>s'. slot_lock LOCK_WRITE_ROW x oid s = Some (free, s') \<and> slot_view s' =
    (if free
     then (read_count' s, Suc (write_count' s), read' s, x # write' s, wait' s,
           (status s)(x := Some (True, LOCK_WRITE_ROW)), mgr' s, non_deterministic s)
     else (read_count' s, write_count' s, read' s, write' s, wait' s @ [(x, oid)],
           (status s)(x := Some (False, LOCK_WRITE_ROW)), mgr' s, non_deterministic s))"
proof -
  note D = slot_coreD[OF inv[unfolded slot_inv_def, THEN conjunct1]]
  obtain s1 where s1: "add_lock_info LOCK_WRITE_ROW x oid s = (False, s1)"
    "status s1 = (status s)(x := Some (False, LOCK_WRITE_ROW))"
    "read_count' s1 = read_count' s" "write_count' s1 = write_count' s" "read' s1 = read' s"
    "write' s1 = write' s" "wait' s1 = wait' s" "mgr' s1 = mgr' s" "non_deterministic s1 = non_deterministic s"
    using add_lock_info_new[OF new] by metis
  have st: "status s1 x = Some (False, LOCK_WRITE_ROW)" using s1(2) by simp
  have xw: "x \<notin> set (write' s)" using D(7)[of x] new by simp
  show ?thesis
  proof (cases free)
    case True
    then have e: "write' s = []" "read' s = []" by (simp_all add: free_def)
    have w: "wait' s = []" using inv e by (auto simp: slot_inv_def)
    let ?s2 = "insert_write x (set_acquired x s1)"
    have v: "write' ?s2 = x # write' s" "write_count' ?s2 = Suc (write_count' s)"
      using xw s1 by (simp_all add: insert_write_def)
    have "slot_add_write x oid s1 = Some ?s2"
      using v D s1 by (simp add: slot_add_write_def)
    then show ?thesis
      using True e w v D s1 set_acquired_status[OF st]
      by (auto simp: slot_lock_def slot_write_lock_def slot_view_def)
  next
    case False
    obtain s2 where s2: "slot_add_wait x oid s1 = Some s2" and v: "slot_view s2 =
      (read_count' s1, write_count' s1, read' s1, write' s1, wait' s1 @ [(x, oid)], status s1, mgr' s1, non_deterministic s1)"
      using slot_add_wait_ok[of s1 x oid] D s1 by auto
    then show ?thesis
      using False D s1 unfolding free_def
      by (auto simp: slot_lock_def slot_write_lock_def slot_view_def)
  qed
qed

section \<open>The contract of a row lock\<close>

text \<open>
  What the slot promises: a set of readers or one writer, and a queue of
  pending requests (\<^term>\<open>True\<close> for a write request).
\<close>

record rw_lock =
  readers :: "xid_t set"
  writers :: "xid_t set"
  queue :: "(xid_t \<times> bool) list"

definition spec_request :: "bool \<Rightarrow> xid_t \<Rightarrow> rw_lock \<Rightarrow> bool \<times> rw_lock" where
  "spec_request w x l =
     (if x \<in> readers l \<union> writers l then (True, l)
      else if w then
        (if readers l = {} \<and> writers l = {} then (True, l\<lparr>writers := {x}\<rparr>)
         else (False, l\<lparr>queue := queue l @ [(x, True)]\<rparr>))
      else
        (if writers l = {} then (True, l\<lparr>readers := insert x (readers l)\<rparr>)
         else (False, l\<lparr>queue := queue l @ [(x, False)]\<rparr>)))"

text \<open>On release the queue is served in order: one writer, or all the readers at its front.\<close>

definition spec_promote :: "rw_lock \<Rightarrow> rw_lock" where
  "spec_promote l =
     (if writers l \<noteq> {} then l
      else (case queue l of
              (x, True) # q \<Rightarrow> (if readers l = {} then l\<lparr>writers := {x}, queue := q\<rparr> else l)
            | q \<Rightarrow> l\<lparr>readers := readers l \<union> fst ` set (takeWhile (\<lambda>(_, w). \<not> w) q),
                     queue := dropWhile (\<lambda>(_, w). \<not> w) q\<rparr>))"

definition spec_release :: "xid_t \<Rightarrow> rw_lock \<Rightarrow> rw_lock" where
  "spec_release x l = spec_promote
     \<lparr>readers = readers l - {x}, writers = writers l - {x}, queue = filter (\<lambda>(y, _). y \<noteq> x) (queue l)\<rparr>"

definition wants_write :: "(xid_t \<Rightarrow> (bool \<times> lock_mode) option) \<Rightarrow> xid_t \<times> oid_t \<Rightarrow> xid_t \<times> bool" where
  "wants_write st e = (fst e, st (fst e) = Some (False, LOCK_WRITE_ROW))"

definition slot_abs :: "lock_slot \<Rightarrow> rw_lock" where
  "slot_abs s = \<lparr>readers = set (read' s), writers = set (write' s), queue = map (wants_write (status s)) (wait' s)\<rparr>"

definition is_row_mode :: "lock_mode \<Rightarrow> bool" where
  "is_row_mode m \<longleftrightarrow> m = LOCK_READ_ROW \<or> m = LOCK_WRITE_ROW"

text \<open>A transaction issues one request at a time: it does not ask again while it waits.\<close>

definition not_waiting :: "xid_t \<Rightarrow> lock_slot \<Rightarrow> bool" where
  "not_waiting x s \<longleftrightarrow> (case info' s x of None \<Rightarrow> True | Some i \<Rightarrow> acquired' i)"

lemma not_waiting_cases:
  assumes "slot_core s" "not_waiting x s"
  obtains "status s x = None" | m where "status s x = Some (True, m)"
  using assms by (auto simp: not_waiting_def status_def split: option.splits)

lemma wants_write_upd:
  "x \<notin> fst ` set q \<Longrightarrow> map (wants_write (st(x := v))) q = map (wants_write st) q"
  by (auto simp: wants_write_def)

lemma slot_coreI:
  assumes "read_count' s = length (read' s)" and "write_count' s = length (write' s)"
    and "distinct (read' s)" and "distinct (write' s)" and "distinct (map fst (wait' s))"
    and "\<And>x. x \<in> set (read' s) \<longleftrightarrow> status s x = Some (True, LOCK_READ_ROW)"
    and "\<And>x. x \<in> set (write' s) \<longleftrightarrow> status s x = Some (True, LOCK_WRITE_ROW)"
    and "\<And>x. x \<in> fst ` set (wait' s) \<longleftrightarrow> (\<exists>m. status s x = Some (False, m))"
    and "\<And>x a m. status s x = Some (a, m) \<Longrightarrow> m = LOCK_READ_ROW \<or> m = LOCK_WRITE_ROW"
    and "write' s \<noteq> [] \<Longrightarrow> read' s = [] \<and> length (write' s) = 1"
    and "non_deterministic s \<Longrightarrow> mgr' s"
  shows "slot_core s"
  unfolding slot_core_def using assms by simp

text \<open>The three ways in which an entry of a well-formed slot changes.\<close>

lemma core_enqueue:
  assumes core: "slot_core s" and new: "status s x = None" and m: "is_row_mode m"
    and v: "slot_view s' = (read_count' s, write_count' s, read' s, write' s, wait' s @ [(x, oid)],
      (status s)(x := Some (False, m)), mgr' s, non_deterministic s)"
  shows "slot_core s'"
proof -
  note D = slot_coreD[OF core]
  have v': "read_count' s' = read_count' s" "write_count' s' = write_count' s" "read' s' = read' s"
    "write' s' = write' s" "wait' s' = wait' s @ [(x, oid)]" "status s' = (status s)(x := Some (False, m))"
    "mgr' s' = mgr' s" "non_deterministic s' = non_deterministic s"
    using v by (simp_all add: slot_view_def)
  have xn: "x \<notin> set (read' s)" "x \<notin> set (write' s)" "x \<notin> fst ` set (wait' s)" using D(6,7,8) new by auto
  show ?thesis
  proof (rule slot_coreI)
    show "y \<in> set (read' s') \<longleftrightarrow> status s' y = Some (True, LOCK_READ_ROW)" for y
      using D(6)[of y] xn by (auto simp: v')
    show "y \<in> set (write' s') \<longleftrightarrow> status s' y = Some (True, LOCK_WRITE_ROW)" for y
      using D(7)[of y] xn by (auto simp: v')
    show "y \<in> fst ` set (wait' s') \<longleftrightarrow> (\<exists>m. status s' y = Some (False, m))" for y
      using D(8)[of y] xn by (auto simp: v')
    show "n = LOCK_READ_ROW \<or> n = LOCK_WRITE_ROW" if "status s' y = Some (a, n)" for y a n
      using D(9)[of y a n] that m by (auto simp: v' is_row_mode_def split: if_splits)
  qed (use D xn in \<open>auto simp: v'\<close>)
qed

lemma core_hold_read:
  assumes core: "slot_core s" and st: "status s x = None \<or> status s x = Some (False, LOCK_READ_ROW)"
    and w: "write' s = []" and q: "fst ` set q = fst ` set (wait' s) - {x}" "distinct (map fst q)"
    and v: "slot_view s' = (Suc (read_count' s), write_count' s, x # read' s, write' s, q,
      (status s)(x := Some (True, LOCK_READ_ROW)), mgr' s, non_deterministic s)"
  shows "slot_core s'"
proof -
  note D = slot_coreD[OF core]
  have v': "read_count' s' = Suc (read_count' s)" "write_count' s' = write_count' s" "read' s' = x # read' s"
    "write' s' = write' s" "wait' s' = q" "status s' = (status s)(x := Some (True, LOCK_READ_ROW))"
    "mgr' s' = mgr' s" "non_deterministic s' = non_deterministic s"
    using v by (simp_all add: slot_view_def)
  have xn: "x \<notin> set (read' s)" "x \<notin> set (write' s)" using D(6,7) st by auto
  show ?thesis
  proof (rule slot_coreI)
    show "y \<in> set (read' s') \<longleftrightarrow> status s' y = Some (True, LOCK_READ_ROW)" for y
      using D(6)[of y] by (auto simp: v')
    show "y \<in> set (write' s') \<longleftrightarrow> status s' y = Some (True, LOCK_WRITE_ROW)" for y
      using D(7)[of y] xn by (auto simp: v')
    show "y \<in> fst ` set (wait' s') \<longleftrightarrow> (\<exists>m. status s' y = Some (False, m))" for y
      using D(8)[of y] q by (auto simp: v')
    show "n = LOCK_READ_ROW \<or> n = LOCK_WRITE_ROW" if "status s' y = Some (a, n)" for y a n
      using D(9)[of y a n] that by (auto simp: v' split: if_splits)
  qed (use D xn q w in \<open>auto simp: v'\<close>)
qed

lemma core_hold_write:
  assumes core: "slot_core s" and st: "status s x = None \<or> status s x = Some (False, LOCK_WRITE_ROW)"
    and w: "write' s = []" "read' s = []" and q: "fst ` set q = fst ` set (wait' s) - {x}" "distinct (map fst q)"
    and v: "slot_view s' = (read_count' s, Suc (write_count' s), read' s, x # write' s, q,
      (status s)(x := Some (True, LOCK_WRITE_ROW)), mgr' s, non_deterministic s)"
  shows "slot_core s'"
proof -
  note D = slot_coreD[OF core]
  have v': "read_count' s' = read_count' s" "write_count' s' = Suc (write_count' s)" "read' s' = read' s"
    "write' s' = x # write' s" "wait' s' = q" "status s' = (status s)(x := Some (True, LOCK_WRITE_ROW))"
    "mgr' s' = mgr' s" "non_deterministic s' = non_deterministic s"
    using v by (simp_all add: slot_view_def)
  have xn: "x \<notin> set (read' s)" "x \<notin> set (write' s)" using D(6,7) st by auto
  show ?thesis
  proof (rule slot_coreI)
    show "y \<in> set (read' s') \<longleftrightarrow> status s' y = Some (True, LOCK_READ_ROW)" for y
      using D(6)[of y] xn by (auto simp: v')
    show "y \<in> set (write' s') \<longleftrightarrow> status s' y = Some (True, LOCK_WRITE_ROW)" for y
      using D(7)[of y] by (auto simp: v')
    show "y \<in> fst ` set (wait' s') \<longleftrightarrow> (\<exists>m. status s' y = Some (False, m))" for y
      using D(8)[of y] q by (auto simp: v')
    show "n = LOCK_READ_ROW \<or> n = LOCK_WRITE_ROW" if "status s' y = Some (a, n)" for y a n
      using D(9)[of y a n] that by (auto simp: v' split: if_splits)
  qed (use D xn q w in \<open>auto simp: v'\<close>)
qed

lemma slot_lock_refines:
  assumes inv: "slot_inv s" and mode: "is_row_mode mode" and nw: "not_waiting x s"
  shows "\<exists>b s'. slot_lock mode x oid s = Some (b, s') \<and> slot_inv s' \<and>
    (b, slot_abs s') = spec_request (mode = LOCK_WRITE_ROW) x (slot_abs s)"
proof -
  have core: "slot_core s" using inv by (simp add: slot_inv_def)
  note D = slot_coreD[OF core]
  from core nw consider (new) "status s x = None" | (held) m where "status s x = Some (True, m)"
    by (rule not_waiting_cases)
  then show ?thesis
  proof cases
    case held
    obtain s' where s': "slot_lock mode x oid s = Some (True, s')" "slot_view s' = slot_view s"
      using slot_lock_held[OF held] by blast
    then have "slot_abs s' = slot_abs s" by (simp add: slot_view_def slot_abs_def)
    moreover have "x \<in> set (read' s) \<union> set (write' s)" using D(6,7,9) held by auto
    then have "spec_request (mode = LOCK_WRITE_ROW) x (slot_abs s) = (True, slot_abs s)"
      by (simp add: spec_request_def slot_abs_def)
    ultimately show ?thesis
      using s' slot_inv_view[OF s'(2)] inv by (intro exI[of _ True] exI[of _ s']) simp
  next
    case new
    have xn: "x \<notin> set (read' s)" "x \<notin> set (write' s)" "x \<notin> fst ` set (wait' s)"
      using D(6,7,8) new by auto
    note wu = wants_write_upd[OF xn(3)]
    show ?thesis
    proof (cases "mode = LOCK_WRITE_ROW")
      case True
      obtain s' where s': "slot_lock LOCK_WRITE_ROW x oid s = Some (write' s = [] \<and> read' s = [], s')"
        and v: "slot_view s' =
          (if write' s = [] \<and> read' s = []
           then (read_count' s, Suc (write_count' s), read' s, x # write' s, wait' s,
                 (status s)(x := Some (True, LOCK_WRITE_ROW)), mgr' s, non_deterministic s)
           else (read_count' s, write_count' s, read' s, write' s, wait' s @ [(x, oid)],
                 (status s)(x := Some (False, LOCK_WRITE_ROW)), mgr' s, non_deterministic s))"
        using slot_lock_write_new[OF inv new] by blast
      have "slot_core s'"
        using core_hold_write[OF core, of x "wait' s" s'] core_enqueue[OF core new, of LOCK_WRITE_ROW s' oid]
          v new xn D(5) by (cases "write' s = [] \<and> read' s = []") (auto simp: is_row_mode_def)
      then have "slot_inv s'"
        using v inv xn by (auto simp: slot_inv_def slot_view_def append_eq_Cons_conv split: if_splits)
      moreover have "slot_abs s' = snd (spec_request True x (slot_abs s))"
        using v xn wu by (auto simp: slot_view_def slot_abs_def spec_request_def wants_write_def split: if_splits)
      moreover have "(write' s = [] \<and> read' s = []) = fst (spec_request True x (slot_abs s))"
        using xn by (auto simp: slot_abs_def spec_request_def)
      ultimately show ?thesis
        using s' True by (intro exI[of _ "write' s = [] \<and> read' s = []"] exI[of _ s']) (simp add: prod_eq_iff)
    next
      case False
      then have m: "mode = LOCK_READ_ROW" using mode by (simp add: is_row_mode_def)
      obtain s' where s': "slot_lock LOCK_READ_ROW x oid s = Some (write' s = [], s')"
        and v: "slot_view s' =
          (if write' s = []
           then (Suc (read_count' s), write_count' s, x # read' s, write' s, wait' s,
                 (status s)(x := Some (True, LOCK_READ_ROW)), mgr' s, non_deterministic s)
           else (read_count' s, write_count' s, read' s, write' s, wait' s @ [(x, oid)],
                 (status s)(x := Some (False, LOCK_READ_ROW)), mgr' s, non_deterministic s))"
        using slot_lock_read_new[OF inv new] by blast
      have "slot_core s'"
        using core_hold_read[OF core, of x "wait' s" s'] core_enqueue[OF core new, of LOCK_READ_ROW s' oid]
          v new xn D(5) by (cases "write' s = []") (auto simp: is_row_mode_def)
      then have "slot_inv s'"
        using v inv xn by (auto simp: slot_inv_def slot_view_def append_eq_Cons_conv split: if_splits)
      moreover have "slot_abs s' = snd (spec_request False x (slot_abs s))"
        using v xn wu by (auto simp: slot_view_def slot_abs_def spec_request_def wants_write_def split: if_splits)
      moreover have "(write' s = []) = fst (spec_request False x (slot_abs s))"
        using xn by (auto simp: slot_abs_def spec_request_def)
      ultimately show ?thesis
        using s' m by (intro exI[of _ "write' s = []"] exI[of _ s']) (simp add: prod_eq_iff)
    qed
  qed
qed

section \<open>What a release does\<close>

lemma removeAll_absent: "x \<notin> set xs \<Longrightarrow> removeAll x xs = xs"
  by (simp add: removeAll_id)

lemma length_removeAll_distinct: "distinct xs \<Longrightarrow> x \<in> set xs \<Longrightarrow> length (removeAll x xs) = length xs - 1"
  by (simp add: distinct_remove1_removeAll[symmetric] length_remove1)

lemma status_erase: "status (s\<lparr>info' := (info' s)(x := None)\<rparr>) = (status s)(x := None)"
  by (auto simp: status_def fun_eq_iff)

lemma remove_lock_ok:
  assumes core: "slot_core s"
  shows "\<exists>b s'. remove_lock x s = Some (b, s') \<and> slot_view s' =
    (length (removeAll x (read' s)), length (removeAll x (write' s)), removeAll x (read' s), removeAll x (write' s),
     filter (\<lambda>(y, _). y \<noteq> x) (wait' s), (status s)(x := None), mgr' s, non_deterministic s)"
proof -
  note D = slot_coreD[OF core]
  have fw: "filter (\<lambda>(y, _). y \<noteq> x) (wait' s) = wait' s" if "x \<notin> fst ` set (wait' s)"
    using that by (intro filter_True) (auto simp: image_iff)
  show ?thesis
  proof (cases "info' s x")
    case None
    then have st: "status s x = None" by (simp add: status_def)
    then have "x \<notin> set (read' s)" "x \<notin> set (write' s)" "x \<notin> fst ` set (wait' s)" using D(6,7,8) by auto
    moreover have "(status s)(x := None) = status s" using st by auto
    ultimately show ?thesis using None D fw by (simp add: remove_lock_def slot_view_def removeAll_absent ex_bool_eq)
  next
    case (Some i)
    then have st: "status s x = Some (acquired' i, type' i)" by (simp add: status_def)
    then have ty: "type' i = LOCK_READ_ROW \<or> type' i = LOCK_WRITE_ROW" using D(9) by blast
    show ?thesis
    proof (cases "acquired' i")
      case False
      then have "x \<notin> set (read' s)" "x \<notin> set (write' s)" using D(6,7) st by auto
      then show ?thesis
        using Some False D
        by (auto simp: remove_lock_def slot_view_def removeAll_absent status_def fun_eq_iff)
    next
      case True
      then have xw: "x \<notin> fst ` set (wait' s)" using D(8) st by auto
      show ?thesis
      proof (cases "type' i = LOCK_READ_ROW")
        case rd: True
        then have "x \<in> set (read' s)" "x \<notin> set (write' s)" using D(6,7) st True by auto
        then show ?thesis
          using Some True rd D fw[OF xw]
          by (auto simp: remove_lock_def slot_view_def removeAll_absent length_removeAll_distinct is_read_def
              status_def fun_eq_iff length_greater_0_conv)
      next
        case wr: False
        then have wr: "type' i = LOCK_WRITE_ROW" using ty by simp
        then have "x \<notin> set (read' s)" "x \<in> set (write' s)" using D(6,7) st True by auto
        then show ?thesis
          using Some True wr D fw[OF xw]
          by (auto simp: remove_lock_def slot_view_def removeAll_absent length_removeAll_distinct is_read_def
              status_def fun_eq_iff length_greater_0_conv)
      qed
    qed
  qed
qed

lemma core_remove:
  assumes core: "slot_core s" and v: "slot_view s' =
    (length (removeAll x (read' s)), length (removeAll x (write' s)), removeAll x (read' s), removeAll x (write' s),
     filter (\<lambda>(y, _). y \<noteq> x) (wait' s), (status s)(x := None), mgr' s, non_deterministic s)"
  shows "slot_core s'"
proof -
  note D = slot_coreD[OF core]
  have v': "read_count' s' = length (removeAll x (read' s))" "write_count' s' = length (removeAll x (write' s))"
    "read' s' = removeAll x (read' s)" "write' s' = removeAll x (write' s)"
    "wait' s' = filter (\<lambda>(y, _). y \<noteq> x) (wait' s)" "status s' = (status s)(x := None)"
    "mgr' s' = mgr' s" "non_deterministic s' = non_deterministic s"
    using v by (simp_all add: slot_view_def)
  show ?thesis
  proof (rule slot_coreI)
    show "distinct (map fst (wait' s'))" using D(5) by (simp add: v' distinct_filter_fst)
    show "y \<in> set (read' s') \<longleftrightarrow> status s' y = Some (True, LOCK_READ_ROW)" for y
      using D(6)[of y] by (auto simp: v')
    show "y \<in> set (write' s') \<longleftrightarrow> status s' y = Some (True, LOCK_WRITE_ROW)" for y
      using D(7)[of y] by (auto simp: v')
    have "y \<in> fst ` set (wait' s') \<longleftrightarrow> y \<noteq> x \<and> y \<in> fst ` set (wait' s)" for y by (auto simp: v')
    then show "y \<in> fst ` set (wait' s') \<longleftrightarrow> (\<exists>m. status s' y = Some (False, m))" for y
      using D(8)[of y] by (auto simp: v')
    show "n = LOCK_READ_ROW \<or> n = LOCK_WRITE_ROW" if "status s' y = Some (a, n)" for y a n
      using D(9)[of y a n] that by (auto simp: v' split: if_splits)
    show "read' s' = [] \<and> length (write' s') = 1" if "write' s' \<noteq> []"
    proof -
      have "write' s \<noteq> []" using that by (auto simp: v')
      then obtain w where "write' s = [w]" "read' s = []" using D(10) by (auto simp: length_Suc_conv)
      then show ?thesis using that by (auto simp: v' split: if_splits)
    qed
  qed (use D in \<open>simp_all add: v' distinct_removeAll\<close>)
qed

subsection \<open>Serving the queue\<close>

abbreviation waits_read :: "lock_slot \<Rightarrow> xid_t \<times> oid_t \<Rightarrow> bool" where
  "waits_read s e \<equiv> status s (fst e) = Some (False, LOCK_READ_ROW)"

lemma scan_readers:
  assumes "\<forall>e \<in> set q. \<exists>m. status s (fst e) = Some (False, m) \<and> is_row_mode m"
    and "write_count' s = 0" "read_count' s \<noteq> 0 \<or> r \<noteq> 0"
  shows "notify_scan s r 0 q = Some (map fst (takeWhile (waits_read s) q), dropWhile (waits_read s) q)"
  using assms
proof (induction q arbitrary: r)
  case (Cons e q)
  obtain x oid where e: "e = (x, oid)" by (cases e)
  obtain i where i: "info' s x = Some i" "\<not> acquired' i" "is_row_mode (type' i)"
    using Cons.prems(1) e by (auto simp: status_def)
  show ?case
    using Cons.IH[of "r + 1"] Cons.prems i
    by (auto simp: e status_def is_read_def is_row_mode_def)
qed simp

lemma scan_blocked:
  assumes "\<forall>e \<in> set q. \<exists>m. status s (fst e) = Some (False, m) \<and> is_row_mode m" and "write_count' s \<noteq> 0"
  shows "notify_scan s 0 0 q = Some ([], q)"
  using assms by (cases q) (auto simp: status_def is_read_def is_row_mode_def)

lemma scan_writer:
  assumes "status s x = Some (False, LOCK_WRITE_ROW)" "write_count' s = 0" "read_count' s = 0"
  shows "notify_scan s 0 0 ((x, oid) # q) = Some ([x], q)"
  using assms by (auto simp: status_def is_read_def)

lemma scan_first_reader:
  assumes "\<forall>e \<in> set q. \<exists>m. status s (fst e) = Some (False, m) \<and> is_row_mode m"
    and "write_count' s = 0" "status s x = Some (False, LOCK_READ_ROW)"
  shows "notify_scan s 0 0 ((x, oid) # q) =
    Some (map fst (takeWhile (waits_read s) ((x, oid) # q)), dropWhile (waits_read s) ((x, oid) # q))"
  using assms scan_readers[OF assms(1,2), of 1] by (auto simp: status_def is_read_def)

lemma notify_readers:
  assumes "\<forall>x \<in> set ns. status s x = Some (False, LOCK_READ_ROW)" "distinct ns" "set ns \<inter> set (read' s) = {}"
  shows "\<exists>s'. notify_all ns s = Some s' \<and> slot_view s' =
    (read_count' s + length ns, write_count' s, rev ns @ read' s, write' s, wait' s,
     (\<lambda>y. if y \<in> set ns then Some (True, LOCK_READ_ROW) else status s y), mgr' s, non_deterministic s)"
  using assms
proof (induction ns arbitrary: s)
  case (Cons x ns)
  have st: "status s x = Some (False, LOCK_READ_ROW)" using Cons.prems(1) by simp
  then obtain i where i: "info' s x = Some i" "type' i = LOCK_READ_ROW" by (auto elim: status_SomeE)
  have xr: "x \<notin> set (read' s)" using Cons.prems by auto
  define s1 where "s1 = fold (on_lock_acquired EC_OK (type' i) x) (oid' i) (insert_read x (set_acquired x s))"
  have one: "notify_one x s = Some s1" using i by (simp add: notify_one_def is_read_def s1_def)
  have v1: "read_count' s1 = Suc (read_count' s)" "read' s1 = x # read' s"
    using xr by (simp_all add: s1_def insert_read_def)
  have st1: "status s1 = (status s)(x := Some (True, LOCK_READ_ROW))"
    by (simp add: s1_def set_acquired_status[OF st])
  have f1: "write_count' s1 = write_count' s" "write' s1 = write' s" "wait' s1 = wait' s" "mgr' s1 = mgr' s"
    "non_deterministic s1 = non_deterministic s"
    by (simp_all add: s1_def)
  have "\<exists>s'. notify_all ns s1 = Some s' \<and> slot_view s' =
    (read_count' s1 + length ns, write_count' s1, rev ns @ read' s1, write' s1, wait' s1,
     (\<lambda>y. if y \<in> set ns then Some (True, LOCK_READ_ROW) else status s1 y), mgr' s1, non_deterministic s1)"
    using Cons.prems by (intro Cons.IH) (auto simp: st1 v1)
  then show ?case using one by (auto simp: v1 f1 st1 fun_eq_iff)
qed (simp add: slot_view_def fun_eq_iff)

lemma notify_writer:
  assumes st: "status s x = Some (False, LOCK_WRITE_ROW)" and "x \<notin> set (write' s)"
  shows "\<exists>s'. notify_all [x] s = Some s' \<and> slot_view s' =
    (read_count' s, Suc (write_count' s), read' s, x # write' s, wait' s,
     (status s)(x := Some (True, LOCK_WRITE_ROW)), mgr' s, non_deterministic s)"
proof -
  obtain i where i: "info' s x = Some i" "type' i = LOCK_WRITE_ROW" using st by (auto elim: status_SomeE)
  let ?s = "fold (on_lock_acquired EC_OK (type' i) x) (oid' i) (insert_write x (set_acquired x s))"
  have "notify_one x s = Some ?s" using i by (simp add: notify_one_def is_read_def)
  moreover have "slot_view ?s = (read_count' s, Suc (write_count' s), read' s, x # write' s, wait' s,
     (status s)(x := Some (True, LOCK_WRITE_ROW)), mgr' s, non_deterministic s)"
    using assms(2) by (simp add: slot_view_def set_acquired_status[OF st]) (simp add: insert_write_def)
  ultimately show ?thesis by simp
qed

lemma core_hold_readers:
  assumes core: "slot_core s" and ns: "\<forall>x \<in> set ns. status s x = Some (False, LOCK_READ_ROW)" "distinct ns"
    and w: "write' s = []" and q: "fst ` set q = fst ` set (wait' s) - set ns" "distinct (map fst q)"
    and v: "slot_view s' = (read_count' s + length ns, write_count' s, rev ns @ read' s, write' s, q,
      (\<lambda>y. if y \<in> set ns then Some (True, LOCK_READ_ROW) else status s y), mgr' s, non_deterministic s)"
  shows "slot_core s'"
proof -
  note D = slot_coreD[OF core]
  have v': "read_count' s' = read_count' s + length ns" "write_count' s' = write_count' s" "read' s' = rev ns @ read' s"
    "write' s' = write' s" "wait' s' = q"
    "status s' = (\<lambda>y. if y \<in> set ns then Some (True, LOCK_READ_ROW) else status s y)"
    "mgr' s' = mgr' s" "non_deterministic s' = non_deterministic s"
    using v by (simp_all add: slot_view_def)
  have nr: "set ns \<inter> set (read' s) = {}" using D(6) ns by auto
  show ?thesis
  proof (rule slot_coreI)
    show "y \<in> set (read' s') \<longleftrightarrow> status s' y = Some (True, LOCK_READ_ROW)" for y
      using D(6)[of y] by (auto simp: v')
    show "y \<in> set (write' s') \<longleftrightarrow> status s' y = Some (True, LOCK_WRITE_ROW)" for y
      using D(7)[of y] ns(1) by (auto simp: v' w)
    show "y \<in> fst ` set (wait' s') \<longleftrightarrow> (\<exists>m. status s' y = Some (False, m))" for y
      using D(8)[of y] q by (auto simp: v')
    show "n = LOCK_READ_ROW \<or> n = LOCK_WRITE_ROW" if "status s' y = Some (a, n)" for y a n
      using D(9)[of y a n] that by (auto simp: v' split: if_splits)
  qed (use D ns nr q w in \<open>auto simp: v'\<close>)
qed

lemma status_wait [simp]: "status (s\<lparr>wait' := q\<rparr>) = status s"
  by (simp add: status_def fun_eq_iff)

lemma queue_entries:
  assumes "slot_core s"
  shows "\<forall>e \<in> set (wait' s). \<exists>m. status s (fst e) = Some (False, m) \<and> is_row_mode m"
proof
  fix e assume "e \<in> set (wait' s)"
  then have "fst e \<in> fst ` set (wait' s)" by simp
  then obtain m where m: "status s (fst e) = Some (False, m)" using slot_coreD(8)[OF assms, of "fst e"] by blast
  then show "\<exists>m. status s (fst e) = Some (False, m) \<and> is_row_mode m"
    using slot_coreD(9)[OF assms m] by (simp add: is_row_mode_def)
qed

lemma split_queue:
  assumes "distinct (map fst q)"
  shows "distinct (map fst (takeWhile P q))" "distinct (map fst (dropWhile P q))"
    "fst ` set (dropWhile P q) = fst ` set q - set (map fst (takeWhile P q))"
proof -
  have d: "distinct (map fst (takeWhile P q) @ map fst (dropWhile P q))"
    using assms by (simp flip: map_append)
  then show "distinct (map fst (takeWhile P q))" "distinct (map fst (dropWhile P q))" by simp_all
  have "fst ` set q = set (map fst (takeWhile P q)) \<union> fst ` set (dropWhile P q)"
    by (metis image_Un list.set_map set_append takeWhile_dropWhile_id)
  then show "fst ` set (dropWhile P q) = fst ` set q - set (map fst (takeWhile P q))"
    using d by auto
qed

lemma wants_write_split:
  assumes "\<forall>e \<in> set q. \<exists>m. st (fst e) = Some (False, m) \<and> is_row_mode m"
  defines "rd \<equiv> \<lambda>e. st (fst e) = Some (False, LOCK_READ_ROW)"
  shows "takeWhile (\<lambda>(_, w). \<not> w) (map (wants_write st) q) = map (wants_write st) (takeWhile rd q)"
    "dropWhile (\<lambda>(_, w). \<not> w) (map (wants_write st) q) = map (wants_write st) (dropWhile rd q)"
  using assms(1) by (induction q) (auto simp: wants_write_def rd_def is_row_mode_def)

lemma spec_promote_readers:
  "writers l = {} \<Longrightarrow> queue l = (x, False) # q \<Longrightarrow> spec_promote l =
     l\<lparr>readers := readers l \<union> fst ` set (takeWhile (\<lambda>(_, w). \<not> w) (queue l)),
       queue := dropWhile (\<lambda>(_, w). \<not> w) (queue l)\<rparr>"
  by (simp add: spec_promote_def)

lemma notify_ok_readers:
  assumes core: "slot_core s" and w: "write' s = []" and q: "wait' s \<noteq> []"
    and rd: "read' s \<noteq> [] \<or> waits_read s (hd (wait' s))"
  shows "\<exists>s'. notify_lock_acquire s = Some s' \<and> slot_inv s' \<and> slot_abs s' = spec_promote (slot_abs s)"
proof -
  note D = slot_coreD[OF core] and qe = queue_entries[OF core]
  let ?q = "wait' s" and ?P = "waits_read s"
  define ns where "ns = map fst (takeWhile ?P ?q)"
  define r where "r = dropWhile ?P ?q"
  note sq = split_queue[OF D(5), of ?P, folded ns_def r_def]
  obtain x0 o0 q0 where q0: "?q = (x0, o0) # q0" using q by (cases ?q) auto
  have wc: "write_count' s = 0" using D(2) w by simp
  have scan: "notify_scan s 0 0 ?q = Some (ns, r)"
  proof (cases "read' s = []")
    case True
    then have "status s x0 = Some (False, LOCK_READ_ROW)" using rd q0 by simp
    then show ?thesis using scan_first_reader[of q0 s x0 o0] qe wc q0 by (simp add: ns_def r_def)
  next
    case False
    then show ?thesis using scan_readers[OF qe wc, of 0] D(1) by (simp add: ns_def r_def)
  qed
  have nsr: "\<forall>x \<in> set ns. status s x = Some (False, LOCK_READ_ROW)" by (auto simp: ns_def dest: set_takeWhileD)
  have "set ns \<inter> set (read' s) = {}" using nsr D(6) by auto
  with notify_readers[of ns "s\<lparr>wait' := r\<rparr>", unfolded status_wait] nsr sq(1) obtain s' where s': "notify_all ns (s\<lparr>wait' := r\<rparr>) = Some s'"
    and v: "slot_view s' = (read_count' s + length ns, write_count' s, rev ns @ read' s, write' s, r,
      (\<lambda>y. if y \<in> set ns then Some (True, LOCK_READ_ROW) else status s y), mgr' s, non_deterministic s)"
    by auto
  have core': "slot_core s'"
    using core_hold_readers[OF core nsr sq(1) w sq(3) sq(2) v] .
  have v': "read' s' = rev ns @ read' s" "write' s' = []" "wait' s' = r" "write_count' s' = 0"
    "status s' = (\<lambda>y. if y \<in> set ns then Some (True, LOCK_READ_ROW) else status s y)"
    using v w wc by (simp_all add: slot_view_def)
  have front: "status s' x = Some (False, LOCK_WRITE_ROW)" if rq: "r = (x, oid) # q'" for x oid q'
  proof -
    have "\<not> ?P (x, oid)" using rq hd_dropWhile[of ?P ?q, folded r_def] by simp
    moreover have "(x, oid) \<in> set ?q" using rq set_dropWhile_subset[of ?P ?q, folded r_def] by auto
    ultimately have "status s x = Some (False, LOCK_WRITE_ROW)" using qe by (auto simp: is_row_mode_def)
    moreover have "x \<notin> set ns" using sq(3) rq by auto
    ultimately show ?thesis by (simp add: v'(5))
  qed
  have held: "read' s' \<noteq> []" using rd q0 by (auto simp: v' ns_def)
  have inv: "slot_inv s'"
    using core' held front by (auto simp: slot_inv_def v'(2,3))
  have fr: "front_not_reader s'"
  proof (cases r)
    case (Cons e q')
    obtain x oid where e: "e = (x, oid)" by (cases e)
    then obtain i where "info' s' x = Some i" "type' i = LOCK_WRITE_ROW"
      using front[of x oid q'] Cons by (auto elim: status_SomeE)
    then show ?thesis using Cons e v' by (simp add: front_not_reader_def)
  qed (simp add: front_not_reader_def v')
  have run: "notify_lock_acquire s = Some s'"
    using q scan s' D(1,2) fr held slot_coreD(1,2)[OF core'] by (simp add: notify_lock_acquire_def)
  have qabs: "map (wants_write (status s')) r = map (wants_write (status s)) r"
    using sq(3) by (auto simp: wants_write_def v'(5))
  have "slot_abs s' = spec_promote (slot_abs s)"
  proof (cases "waits_read s (x0, o0)")
    case True
    then have ww: "queue (slot_abs s) = (x0, False) # map (wants_write (status s)) q0"
      using q0 by (simp add: slot_abs_def wants_write_def)
    have rs: "fst ` set (takeWhile (\<lambda>(_, w). \<not> w) (queue (slot_abs s))) = set ns"
      using wants_write_split(1)[OF qe] by (simp add: slot_abs_def ns_def image_image wants_write_def)
    have qs: "dropWhile (\<lambda>(_, w). \<not> w) (queue (slot_abs s)) = map (wants_write (status s)) r"
      using wants_write_split(2)[OF qe] by (simp add: slot_abs_def r_def)
    have "spec_promote (slot_abs s) = (slot_abs s)\<lparr>readers := set (read' s) \<union> set ns,
        queue := map (wants_write (status s)) r\<rparr>"
      using spec_promote_readers[OF _ ww] rs qs w by (simp add: slot_abs_def)
    then show ?thesis
      using qabs w by (simp add: slot_abs_def v'(1,2,3) Un_commute)
  next
    case False
    then have ww: "status s x0 = Some (False, LOCK_WRITE_ROW)" using qe q0 by (auto simp: is_row_mode_def)
    then have "ns = []" "r = ?q" using q0 by (simp_all add: ns_def r_def)
    then show ?thesis
      using qabs ww q0 w rd False by (auto simp: slot_abs_def spec_promote_def v' wants_write_def)
  qed
  then show ?thesis using run inv by blast
qed

lemma notify_ok:
  assumes core: "slot_core s"
  shows "\<exists>s'. notify_lock_acquire s = Some s' \<and> slot_inv s' \<and> slot_abs s' = spec_promote (slot_abs s)"
proof -
  note D = slot_coreD[OF core] and qe = queue_entries[OF core]
  consider (empty) "wait' s = []" | (held) "wait' s \<noteq> []" "write' s \<noteq> []"
    | (readers) "wait' s \<noteq> []" "write' s = []" "read' s \<noteq> [] \<or> waits_read s (hd (wait' s))"
    | (writer) x oid q where "wait' s = (x, oid) # q" "write' s = []" "read' s = []" "\<not> waits_read s (x, oid)"
    by (metis list.exhaust_sel prod.exhaust)
  then show ?thesis
  proof cases
    case empty
    then show ?thesis
      using core D by (auto simp: notify_lock_acquire_def slot_inv_def spec_promote_def slot_abs_def)
  next
    case held
    have run: "notify_lock_acquire s = Some s"
      using held D scan_blocked[OF qe] by (simp add: notify_lock_acquire_def front_not_reader_def)
    have "slot_inv s" using core held by (simp add: slot_inv_def)
    moreover have "slot_abs s = spec_promote (slot_abs s)" using held by (simp add: spec_promote_def slot_abs_def)
    ultimately show ?thesis using run by metis
  next
    case readers
    then show ?thesis using notify_ok_readers[OF core] by blast
  next
    case writer
    have st: "status s x = Some (False, LOCK_WRITE_ROW)" using qe writer by (auto simp: is_row_mode_def)
    obtain s' where s': "notify_all [x] (s\<lparr>wait' := q\<rparr>) = Some s'"
      and v: "slot_view s' = (read_count' s, Suc (write_count' s), read' s, x # write' s, q,
        (status s)(x := Some (True, LOCK_WRITE_ROW)), mgr' s, non_deterministic s)"
      using notify_writer[of "s\<lparr>wait' := q\<rparr>" x, unfolded status_wait, OF st] writer by auto
    have q: "fst ` set q = fst ` set (wait' s) - {x}" "distinct (map fst q)" using D(5) writer by auto
    have core': "slot_core s'"
      using core_hold_write[OF core _ writer(2,3) q v] st by simp
    have scan: "notify_scan s 0 0 (wait' s) = Some ([x], q)"
      unfolding writer(1) by (rule scan_writer[OF st]) (simp_all add: D(1,2) writer)
    have "write_count' s' \<noteq> 0" using v by (simp add: slot_view_def)
    then have run: "notify_lock_acquire s = Some s'"
      using scan D(1,2) writer(1) s' slot_coreD(1,2)[OF core']
      by (simp add: notify_lock_acquire_def front_not_reader_def del: notify_scan.simps notify_all.simps)
    have "slot_inv s'" using core' v by (simp add: slot_inv_def slot_view_def)
    moreover have "slot_abs s' = spec_promote (slot_abs s)"
    proof -
      have v': "read' s' = []" "write' s' = [x]" "wait' s' = q" "status s' = (status s)(x := Some (True, LOCK_WRITE_ROW))"
        using v writer by (simp_all add: slot_view_def)
      have "map (wants_write (status s')) q = map (wants_write (status s)) q"
        unfolding v'(4) by (rule wants_write_upd) (simp add: q)
      moreover have "queue (slot_abs s) = (x, True) # map (wants_write (status s)) q"
        using writer(1) st by (simp add: slot_abs_def wants_write_def)
      ultimately show ?thesis
        using writer(2,3) v'(1-3) by (simp add: spec_promote_def slot_abs_def)
    qed
    ultimately show ?thesis using run by blast
  qed
qed

lemma slot_unlock_refines:
  assumes inv: "slot_inv s"
  shows "\<exists>s'. slot_unlock x s = Some s' \<and> slot_inv s' \<and> slot_abs s' = spec_release x (slot_abs s)"
proof -
  have core: "slot_core s" using inv by (simp add: slot_inv_def)
  obtain b s1 where s1: "remove_lock x s = Some (b, s1)" and v: "slot_view s1 =
    (length (removeAll x (read' s)), length (removeAll x (write' s)), removeAll x (read' s), removeAll x (write' s),
     filter (\<lambda>(y, _). y \<noteq> x) (wait' s), (status s)(x := None), mgr' s, non_deterministic s)"
    using remove_lock_ok[OF core] by blast
  have core1: "slot_core s1" using core_remove[OF core v] .
  obtain s2 where s2: "notify_lock_acquire s1 = Some s2" "slot_inv s2" "slot_abs s2 = spec_promote (slot_abs s1)"
    using notify_ok[OF core1] by blast
  have "slot_core s2" using s2(2) by (simp add: slot_inv_def)
  then have run: "slot_unlock x s = Some s2"
    using s1 s2 slot_coreD(1,2)[OF core1] slot_coreD(1,2)[of s2] by (simp add: slot_unlock_def)
  have "map (wants_write ((status s)(x := None))) (filter (\<lambda>(y, _). y \<noteq> x) (wait' s)) =
      filter (\<lambda>(y, _). y \<noteq> x) (map (wants_write (status s)) (wait' s))"
    by (induction "wait' s") (auto simp: wants_write_def filter_map comp_def case_prod_unfold)
  then have "slot_abs s1 = \<lparr>readers = readers (slot_abs s) - {x}, writers = writers (slot_abs s) - {x},
      queue = filter (\<lambda>(y, _). y \<noteq> x) (queue (slot_abs s))\<rparr>"
    using v by (simp add: slot_view_def slot_abs_def)
  then show ?thesis using run s2 by (simp add: spec_release_def)
qed

section \<open>Runs of a slot\<close>

datatype slot_call = Lock lock_mode xid_t oid_t | Unlock xid_t

definition slot_step :: "slot_call \<Rightarrow> lock_slot \<Rightarrow> lock_slot option" where
  "slot_step c s = (case c of Lock m x oid \<Rightarrow> map_option snd (slot_lock m x oid s) | Unlock x \<Rightarrow> slot_unlock x s)"

definition slot_call_ok :: "slot_call \<Rightarrow> lock_slot \<Rightarrow> bool" where
  "slot_call_ok c s = (case c of Lock m x oid \<Rightarrow> is_row_mode m \<and> not_waiting x s | Unlock x \<Rightarrow> True)"

definition spec_step :: "slot_call \<Rightarrow> rw_lock \<Rightarrow> rw_lock" where
  "spec_step c l = (case c of Lock m x oid \<Rightarrow> snd (spec_request (m = LOCK_WRITE_ROW) x l) | Unlock x \<Rightarrow> spec_release x l)"

lemma slot_step_refines:
  assumes "slot_inv s" "slot_call_ok c s"
  shows "\<exists>s'. slot_step c s = Some s' \<and> slot_inv s' \<and> slot_abs s' = spec_step c (slot_abs s)"
proof (cases c)
  case (Lock m x oid)
  then obtain b s' where "slot_lock m x oid s = Some (b, s')" "slot_inv s'"
    "(b, slot_abs s') = spec_request (m = LOCK_WRITE_ROW) x (slot_abs s)"
    using slot_lock_refines[OF assms(1), of m x oid] assms(2) unfolding slot_call_ok_def Lock slot_call.case by blast
  then show ?thesis using Lock by (auto simp: slot_step_def spec_step_def prod_eq_iff)
next
  case (Unlock x)
  then show ?thesis using slot_unlock_refines[OF assms(1)] by (auto simp: slot_step_def spec_step_def)
qed

lemma slot_run_abs:
  assumes "slot_inv s" "disciplined slot_step slot_call_ok cs s"
  shows "map_option slot_abs (run slot_step cs s) = Some (fold spec_step cs (slot_abs s))"
  using assms
proof (induction cs arbitrary: s)
  case (Cons c cs)
  obtain s1 where s1: "slot_step c s = Some s1" "slot_inv s1" "slot_abs s1 = spec_step c (slot_abs s)"
    using slot_step_refines[of s c] Cons.prems by auto
  then show ?case using Cons.IH[of s1] Cons.prems by simp
qed simp

interpretation slot: guarded_machine slot_step slot_call_ok slot_inv
  by unfold_locales (use slot_step_refines in blast)

lemma new_slot_inv: "mgr \<or> \<not> nondet \<Longrightarrow> slot_inv (new_lock_slot mgr before after nondet table shard tuple)"
  by (auto simp: slot_inv_def slot_core_def new_lock_slot_def status_def)

text \<open>
  (C5) No assertion of a row lock fails and its bookkeeping is exact: along
  every sequence of requests and releases in which no transaction asks again
  while it waits, the slot never aborts, its counters equal the numbers of
  holders, a writer excludes every other holder, each waiting transaction has
  exactly one queue entry, and nobody waits for a lock that nobody holds.
\<close>

theorem slot_run_safe:
  assumes "slot_inv s" "disciplined slot_step slot_call_ok cs s"
  shows "\<exists>s'. run slot_step cs s = Some s' \<and>
    read_count' s' = card (set (read' s')) \<and> write_count' s' = card (set (write' s')) \<and>
    (write' s' = [] \<or> (\<exists>x. write' s' = [x]) \<and> read' s' = []) \<and>
    distinct (map fst (wait' s')) \<and>
    (\<forall>x. x \<in> fst ` set (wait' s') \<longleftrightarrow> (\<exists>m. status s' x = Some (False, m))) \<and>
    (wait' s' = [] \<or> read' s' \<noteq> [] \<or> write' s' \<noteq> [])"
proof -
  obtain s' where s': "run slot_step cs s = Some s'" "slot_inv s'" using slot.run_safe[OF assms] by blast
  then have core: "slot_core s'" by (simp add: slot_inv_def)
  note D = slot_coreD[OF core]
  have "write' s' = [] \<or> (\<exists>x. write' s' = [x]) \<and> read' s' = []" using D(10) by (auto simp: length_Suc_conv)
  moreover have "read_count' s' = card (set (read' s'))" "write_count' s' = card (set (write' s'))"
    using D(1-4) by (simp_all add: distinct_card)
  moreover have "wait' s' = [] \<or> read' s' \<noteq> [] \<or> write' s' \<noteq> []" using s'(2) by (auto simp: slot_inv_def)
  ultimately show ?thesis using s'(1) D(5,8) by blast
qed

definition demo_slot :: lock_slot where
  "demo_slot = new_lock_slot True True True True 3 1 100"

definition demo_calls :: "slot_call list" where
  "demo_calls = [Lock LOCK_WRITE_ROW 9 1, Lock LOCK_READ_ROW 1 1, Lock LOCK_WRITE_ROW 2 1, Lock LOCK_READ_ROW 3 1, Unlock 9]"

lemma slot_run_safe_witness:
  "map_option (\<lambda>s. (read' s, write' s, wait' s, read_count' s)) (run slot_step demo_calls demo_slot)
     = Some ([1], [], [(2, 1), (3, 1)], 1) \<and>
   (\<exists>s'. run slot_step demo_calls demo_slot = Some s' \<and> read_count' s' = card (set (read' s')))"
proof
  show "map_option (\<lambda>s. (read' s, write' s, wait' s, read_count' s)) (run slot_step demo_calls demo_slot)
     = Some ([1], [], [(2, 1), (3, 1)], 1)" by code_simp
  have "disciplined slot_step slot_call_ok demo_calls demo_slot" by code_simp
  moreover have "slot_inv demo_slot" unfolding demo_slot_def by (rule new_slot_inv) simp
  ultimately show "\<exists>s'. run slot_step demo_calls demo_slot = Some s' \<and> read_count' s' = card (set (read' s'))"
    using slot_run_safe[of demo_slot demo_calls] by blast
qed

text \<open>
  (C4) The slot implements the abstract row lock: along every such sequence the
  readers, the writer and the queue evolve exactly as the specification of a
  shared/exclusive lock says, in which a release serves the queue in arrival
  order (one writer, or every reader in front of the first writer).
\<close>

theorem slot_run_refines:
  assumes "slot_inv s" "disciplined slot_step slot_call_ok cs s"
  shows "map_option slot_abs (run slot_step cs s) = Some (fold spec_step cs (slot_abs s))"
  using slot_run_abs[OF assms] .

lemma slot_run_refines_witness:
  "map_option slot_abs (run slot_step demo_calls demo_slot) =
     Some \<lparr>readers = {1}, writers = {}, queue = [(2, True), (3, False)]\<rparr>"
proof -
  have "disciplined slot_step slot_call_ok demo_calls demo_slot" by code_simp
  moreover have "slot_inv demo_slot" unfolding demo_slot_def by (rule new_slot_inv) simp
  ultimately have "map_option slot_abs (run slot_step demo_calls demo_slot) = Some (fold spec_step demo_calls (slot_abs demo_slot))"
    by (intro slot_run_refines)
  also have "fold spec_step demo_calls (slot_abs demo_slot) =
      \<lparr>readers = {1}, writers = {}, queue = [(2, True), (3, False)]\<rparr>" by code_simp
  finally show ?thesis .
qed

section \<open>Progress of the queue\<close>

lemma spec_release_writer:
  assumes "writers l = {w}" "readers l = {}" "queue l = (x, b) # q" "x \<noteq> w"
  shows "x \<in> readers (spec_release w l) \<union> writers (spec_release w l)"
  using assms by (cases b) (simp_all add: spec_release_def spec_promote_def)

lemma spec_release_readers:
  assumes "rs \<noteq> []" "distinct rs" "readers l = set rs" "writers l = {}" "queue l = (x, True) # q" "x \<notin> set rs"
  shows "writers (fold spec_release rs l) = {x}"
  using assms
proof (induction rs arbitrary: l q)
  case (Cons r rs)
  let ?l = "spec_release r l"
  show ?case
  proof (cases "rs = []")
    case True
    then show ?thesis using Cons.prems by (simp add: spec_release_def spec_promote_def)
  next
    case False
    have "set (r # rs) - {r} = set rs" using Cons.prems(2) by auto
    then have "readers ?l = set rs" "writers ?l = {}"
      "queue ?l = (x, True) # filter (\<lambda>(y, _). y \<noteq> r) q"
      using Cons.prems False by (simp_all add: spec_release_def spec_promote_def)
    then show ?thesis using Cons.IH[of ?l "filter (\<lambda>(y, _). y \<noteq> r) q"] Cons.prems False by simp
  qed
qed simp

lemma disciplined_unlocks: "disciplined slot_step slot_call_ok (map Unlock xs) s"
  by (induction xs arbitrary: s) (auto simp: slot_call_ok_def split: option.split)

lemma fold_spec_unlocks: "fold spec_step (map Unlock xs) l = fold spec_release xs l"
  by (induction xs arbitrary: l) (simp_all add: spec_step_def)



section \<open>The waits a slot reports\<close>

text \<open>
  (C21) The edges a slot reports to the deadlock manager: for a waiting
  transaction that has not ended they are the holders it conflicts with, never
  the transaction itself, and they are empty in exactly one situation, a
  reader that queues while other readers hold the lock.
\<close>

theorem reported_waits_exact:
  assumes inv: "slot_inv s" and w: "(x, oid) \<in> set (wait' s)"
  shows "\<exists>ws. fn_wait_lock False x s = Some ws \<and> xid' ws = x \<and> x \<notin> set (in_set' ws) \<and>
    set (in_set' ws) = (if status s x = Some (False, LOCK_READ_ROW) then set (write' s)
                        else set (read' s) \<union> set (write' s)) \<and>
    (in_set' ws = [] \<longleftrightarrow> status s x = Some (False, LOCK_READ_ROW) \<and> write' s = [])"
proof -
  have core: "slot_core s" using inv by (simp add: slot_inv_def)
  note D = slot_coreD[OF core]
  obtain m where m: "status s x = Some (False, m)" "m = LOCK_READ_ROW \<or> m = LOCK_WRITE_ROW"
    using queue_entries[OF core] w by (force simp: is_row_mode_def)
  then obtain i where i: "info' s x = Some i" "\<not> acquired' i" "type' i = m" by (auto elim: status_SomeE)
  have xn: "x \<notin> set (read' s)" "x \<notin> set (write' s)" using D(6,7)[of x] m by auto
  have hold: "read' s \<noteq> [] \<or> write' s \<noteq> []" using inv w by (auto simp: slot_inv_def)
  have sets: "set (insert_all (write' s) []) = set (write' s)"
    "set (insert_all (write' s) (insert_all (read' s) [])) = set (read' s) \<union> set (write' s)" by auto
  have e: "insert_all (write' s) [] = [] \<longleftrightarrow> write' s = []"
    "insert_all (write' s) (insert_all (read' s) []) = [] \<longleftrightarrow> read' s = [] \<and> write' s = []"
    using sets by (metis set_empty sup_eq_bot_iff)+
  show ?thesis
    using i m xn hold e
    by (auto simp: fn_wait_lock_def tx_wait_for_def tx_build_dependency_def new_tx_wait_def)
qed

lemma reported_waits_exact_witness:
  "\<exists>s. run slot_step demo_calls demo_slot = Some s \<and> (2, 1) \<in> set (wait' s) \<and>
     (\<exists>ws. fn_wait_lock False 2 s = Some ws \<and> set (in_set' ws) = {1})"
proof -
  have "disciplined slot_step slot_call_ok demo_calls demo_slot" by code_simp
  moreover have "slot_inv demo_slot" unfolding demo_slot_def by (rule new_slot_inv) simp
  ultimately obtain s where s: "run slot_step demo_calls demo_slot = Some s" "slot_inv s" using slot.run_safe by blast
  have "map_option (\<lambda>s. (wait' s, read' s, write' s, status s 2)) (run slot_step demo_calls demo_slot) =
      Some ([(2, 1), (3, 1)], [1], [], Some (False, LOCK_WRITE_ROW))" by code_simp
  then have w: "wait' s = [(2, 1), (3, 1)]" "read' s = [1]" "write' s = []" "status s 2 = Some (False, LOCK_WRITE_ROW)"
    using s by simp_all
  then show ?thesis using reported_waits_exact[OF s(2), of 2 1] s(1) by auto
qed


section \<open>Requests outside the discipline\<close>

text \<open>
  (C23) A write request of a transaction that already holds the row for
  reading is granted at once, without a write lock: two readers of a row are
  both told that their write request succeeded while both keep holding it.
\<close>

theorem read_holders_both_granted_write:
  assumes inv: "slot_inv s" and xy: "x \<noteq> y" "x \<in> set (read' s)" "y \<in> set (read' s)"
  shows "\<exists>s1 s2. slot_lock LOCK_WRITE_ROW x o1 s = Some (True, s1) \<and> slot_lock LOCK_WRITE_ROW y o2 s1 = Some (True, s2) \<and>
    last (events s1) = Async_lock_acquire EC_OK x o1 \<and> last (events s2) = Async_lock_acquire EC_OK y o2 \<and>
    write' s2 = [] \<and> {x, y} \<subseteq> set (read' s2)"
proof -
  have core: "slot_core s" using inv by (simp add: slot_inv_def)
  note D = slot_coreD[OF core]
  have st: "status s x = Some (True, LOCK_READ_ROW)" "status s y = Some (True, LOCK_READ_ROW)" using D(6) xy by auto
  have w: "write' s = []" using D(10) xy by (cases "write' s = []") auto
  obtain s1 where s1: "slot_lock LOCK_WRITE_ROW x o1 s = Some (True, s1)" "slot_view s1 = slot_view s"
    using slot_lock_held[OF st(1)] by blast
  then have "status s1 y = Some (True, LOCK_READ_ROW)" using st by (simp add: slot_view_def)
  then obtain s2 where s2: "slot_lock LOCK_WRITE_ROW y o2 s1 = Some (True, s2)" "slot_view s2 = slot_view s1"
    using slot_lock_held by blast
  have ev: "last (events t') = Async_lock_acquire EC_OK z oo"
    if "slot_lock LOCK_WRITE_ROW z oo t = Some (True, t')" "status t z = Some (True, LOCK_READ_ROW)" for t t' z oo
    using that by (auto simp: slot_lock_def add_lock_info_def on_lock_acquired_def Let_def status_def)
  show ?thesis
    using s1 s2 ev[OF s1(1) st(1)] ev[OF s2(1)] \<open>status s1 y = _\<close> w xy by (auto simp: slot_view_def)
qed

lemma read_holders_both_granted_write_witness:
  "\<exists>s s1 s2. run slot_step [Lock LOCK_READ_ROW 1 1, Lock LOCK_READ_ROW 2 1] demo_slot = Some s \<and>
     slot_lock LOCK_WRITE_ROW 1 2 s = Some (True, s1) \<and> slot_lock LOCK_WRITE_ROW 2 2 s1 = Some (True, s2) \<and> write' s2 = []"
proof -
  let ?cs = "[Lock LOCK_READ_ROW 1 1, Lock LOCK_READ_ROW 2 1]"
  have "disciplined slot_step slot_call_ok ?cs demo_slot" by code_simp
  moreover have "slot_inv demo_slot" unfolding demo_slot_def by (rule new_slot_inv) simp
  ultimately obtain s where s: "run slot_step ?cs demo_slot = Some s" "slot_inv s" using slot.run_safe by blast
  have "map_option read' (run slot_step ?cs demo_slot) = Some [2, 1]" by code_simp
  then have "read' s = [2, 1]" using s by simp
  then show ?thesis using read_holders_both_granted_write[OF s(2), of 1 2 2 2] s(1) by auto
qed


end
