(* ===== verification/Hash_Table.thy ===== *)
theory Hash_Table
  imports Prelude
begin

text \<open>
  \<^verbatim>\<open>concurrent_hash_table\<close> of \<^verbatim>\<open>include/common/hash_table.h\<close>, over the
  contents of the underlying map, and the interface \<^verbatim>\<open>key_table\<close> that
  the lock manager and the data manager rely on.  An accessor holds the entry
  for the whole call, so each operation is one step.
\<close>

type_synonym ('k, 'v) cht = "'k \<rightharpoonup> 'v"

text \<open>The result is the value and whether it existed; \<^term>\<open>f\<close> is \<^verbatim>\<open>fn_if_exist\<close>, \<^term>\<open>d\<close> the value of \<^verbatim>\<open>fn_if_absent\<close>.\<close>

definition cht_find_or_insert :: "'k \<Rightarrow> ('v \<Rightarrow> 'v) \<Rightarrow> 'v \<Rightarrow> ('k, 'v) cht \<Rightarrow> ('v \<times> bool) \<times> ('k, 'v) cht" where
  "cht_find_or_insert k f d m =
     (case m k of
        None \<Rightarrow> ((d, False), m(k \<mapsto> d))
      | Some v \<Rightarrow> ((v, True), m(k \<mapsto> f v)))"

definition cht_find :: "'k \<Rightarrow> ('k, 'v) cht \<Rightarrow> 'v option" where
  "cht_find k m = m k"

definition cht_insert :: "'k \<Rightarrow> 'v \<Rightarrow> ('k, 'v) cht \<Rightarrow> bool \<times> ('k, 'v) cht" where
  "cht_insert k v m = (case m k of None \<Rightarrow> (True, m(k \<mapsto> v)) | Some _ \<Rightarrow> (False, m))"

text \<open>\<^verbatim>\<open>remove\<close> looks the entry up and reports whether it exists.\<close>

definition cht_remove :: "'k \<Rightarrow> ('k, 'v) cht \<Rightarrow> bool \<times> ('k, 'v) cht" where
  "cht_remove k m = (case m k of Some v \<Rightarrow> (True, m) | None \<Rightarrow> (False, m))"

text \<open>A value reached through a stored pointer is changed in place.\<close>

definition cht_store :: "'k \<Rightarrow> 'v \<Rightarrow> ('k, 'v) cht \<Rightarrow> ('k, 'v) cht" where
  "cht_store k v m = m(k \<mapsto> v)"

locale key_table =
  fixes look :: "'k \<Rightarrow> 't \<Rightarrow> 'v option"
    and get_or_new :: "'k \<Rightarrow> 'v \<Rightarrow> 't \<Rightarrow> 'v \<times> 't"
    and store :: "'k \<Rightarrow> 'v \<Rightarrow> 't \<Rightarrow> 't"
  assumes get_found: "look k t = Some v \<Longrightarrow> get_or_new k d t = (v, t)"
    and get_new: "look k t = None \<Longrightarrow> fst (get_or_new k d t) = d"
    and look_get: "look j (snd (get_or_new k d t)) = (if j = k then Some (fst (get_or_new k d t)) else look j t)"
    and look_store: "look j (store k v t) = (if j = k then Some v else look j t)"
begin

lemma get_entry:
  assumes "\<And>v. look k t = Some v \<Longrightarrow> P v" "P d"
  shows "P (fst (get_or_new k d t))"
  using assms get_found[of k t] get_new[of k t d] by (cases "look k t") auto

lemma update_entry:
  "look j (store k v (snd (get_or_new k d t))) = (if j = k then Some v else look j t)"
  by (simp add: look_store look_get)

end

definition cht_get :: "'k \<Rightarrow> 'v \<Rightarrow> ('k, 'v) cht \<Rightarrow> 'v \<times> ('k, 'v) cht" where
  "cht_get k d m = (let ((v, _), m') = cht_find_or_insert k (\<lambda>v. v) d m in (v, m'))"

interpretation cht: key_table cht_find cht_get cht_store
  by unfold_locales
    (auto simp: cht_find_def cht_get_def cht_store_def cht_find_or_insert_def split: option.splits)


end
