(* ===== verification/Lock_Mgr.thy ===== *)
theory Lock_Mgr
  imports Lock_Slot Hash_Table
begin

text \<open>
  The lock manager of one table and shard (\<^verbatim>\<open>src/concurrency/lock_mgr.cpp\<close>)
  and the manager of all tables (\<^verbatim>\<open>src/concurrency/lock_mgr_global.cpp\<close>).
  \<^verbatim>\<open>lock\<close> and \<^verbatim>\<open>unlock\<close> post a task to the manager's strand; the strand
  executes the tasks one after the other in the order in which they were
  posted.
\<close>

section \<open>One table and shard\<close>

datatype lm_task =
    Task_lock oid_t lock_mode tuple_id_t xid_t
  | Task_unlock xid_t lock_mode tuple_id_t

record lock_mgr =
  lm_table_id' :: table_id_t
  lm_shard_id' :: shard_id_t
  lm_dl' :: bool
  lm_fn_before' :: bool
  lm_fn_after' :: bool
  lm_non_deterministic :: bool
  key_row_locks' :: "(tuple_id_t, lock_slot) cht"
  strand' :: "lm_task list"

definition new_lock_mgr :: "table_id_t \<Rightarrow> shard_id_t \<Rightarrow> bool \<Rightarrow> bool \<Rightarrow> bool \<Rightarrow> bool \<Rightarrow> lock_mgr" where
  "new_lock_mgr table shard dl before after nondet =
     \<lparr>lm_table_id' = table, lm_shard_id' = shard, lm_dl' = dl, lm_fn_before' = before, lm_fn_after' = after,
      lm_non_deterministic = nondet, key_row_locks' = Map.empty, strand' = []\<rparr>"

definition lm_lock :: "xid_t \<Rightarrow> oid_t \<Rightarrow> lock_mode \<Rightarrow> tuple_id_t \<Rightarrow> lock_mgr \<Rightarrow> lock_mgr" where
  "lm_lock x oid lt key m = m\<lparr>strand' := strand' m @ [Task_lock oid lt key x]\<rparr>"

definition lm_unlock :: "xid_t \<Rightarrow> lock_mode \<Rightarrow> tuple_id_t \<Rightarrow> lock_mgr \<Rightarrow> lock_mgr" where
  "lm_unlock x mode key m = m\<lparr>strand' := strand' m @ [Task_unlock x mode key]\<rparr>"

definition lm_new_slot :: "tuple_id_t \<Rightarrow> lock_mgr \<Rightarrow> lock_slot" where
  "lm_new_slot key m = new_lock_slot True (lm_fn_before' m) (lm_fn_after' m) (lm_non_deterministic m)
     (lm_table_id' m) (lm_shard_id' m) key"

definition get_lock_slot :: "tuple_id_t \<Rightarrow> lock_mgr \<Rightarrow> (lock_slot \<times> lock_mgr) option" where
  "get_lock_slot key m = do {
     let (slot, t) = cht_get key (lm_new_slot key m) (key_row_locks' m);
     boost_assert (tuple_id' slot = key);
     Some (slot, m\<lparr>key_row_locks' := t\<rparr>) }"

definition row_lock :: "oid_t \<Rightarrow> lock_mode \<Rightarrow> tuple_id_t \<Rightarrow> xid_t \<Rightarrow> lock_mgr \<Rightarrow> lock_mgr option" where
  "row_lock oid lt key x m = do {
     (slot, m) \<leftarrow> get_lock_slot key m;
     (_, slot) \<leftarrow> slot_lock lt x oid slot;
     Some (m\<lparr>key_row_locks' := cht_store key slot (key_row_locks' m)\<rparr>) }"

definition lock_gut :: "oid_t \<Rightarrow> lock_mode \<Rightarrow> tuple_id_t \<Rightarrow> xid_t \<Rightarrow> lock_mgr \<Rightarrow> lock_mgr option" where
  "lock_gut oid lt key x m =
     (if lt = LOCK_WRITE_ROW \<or> lt = LOCK_READ_ROW then row_lock oid lt key x m else Some m)"

definition unlock_gut :: "xid_t \<Rightarrow> lock_mode \<Rightarrow> tuple_id_t \<Rightarrow> lock_mgr \<Rightarrow> lock_mgr option" where
  "unlock_gut x mode key m =
     (if mode = LOCK_WRITE_ROW \<or> mode = LOCK_READ_ROW then
        (case cht_find key (key_row_locks' m) of
           Some slot \<Rightarrow> do {
             slot \<leftarrow> slot_unlock x slot;
             Some (m\<lparr>key_row_locks' := cht_store key slot (key_row_locks' m)\<rparr>) }
         | None \<Rightarrow> None)
      else Some m)"

definition lm_task_step :: "lm_task \<Rightarrow> lock_mgr \<Rightarrow> lock_mgr option" where
  "lm_task_step t m =
     (case t of Task_lock oid lt key x \<Rightarrow> lock_gut oid lt key x m
      | Task_unlock x mode key \<Rightarrow> unlock_gut x mode key m)"

text \<open>One turn of the strand.\<close>

definition lm_turn :: "lock_mgr \<Rightarrow> lock_mgr option" where
  "lm_turn m = (case strand' m of [] \<Rightarrow> Some m | t # ts \<Rightarrow> lm_task_step t (m\<lparr>strand' := ts\<rparr>))"

text \<open>\<^verbatim>\<open>find_conflict\<close> counts the slots that block a predicate.\<close>

fun find_conflict_loop :: "xid_t \<Rightarrow> oid_t \<Rightarrow> xid_t \<Rightarrow> tuple_id_t list \<Rightarrow> nat \<Rightarrow> lock_mgr \<Rightarrow> nat \<times> lock_mgr" where
  "find_conflict_loop x oid txn [] blocking m = (blocking, m)"
| "find_conflict_loop x oid txn (t # ts) blocking m =
     (case cht_find t (key_row_locks' m) of
        None \<Rightarrow> find_conflict_loop x oid txn ts blocking m
      | Some slot \<Rightarrow>
          (let (b, slot) = predicate_conflict x oid txn slot;
               m = m\<lparr>key_row_locks' := cht_store t slot (key_row_locks' m)\<rparr>
           in find_conflict_loop x oid txn ts (if b then blocking + 1 else blocking) m))"

definition find_conflict :: "xid_t \<Rightarrow> oid_t \<Rightarrow> xid_t \<Rightarrow> tuple_id_t list \<Rightarrow> lock_mgr \<Rightarrow> bool \<times> lock_mgr" where
  "find_conflict x oid txn tuple_ids m =
     (let (blocking, m) = find_conflict_loop x oid txn tuple_ids 0 m in (blocking \<noteq> 0, m))"

definition lm_conflict :: "xid_t \<Rightarrow> oid_t \<Rightarrow> lock_mgr \<Rightarrow> bool \<times> lock_mgr" where
  "lm_conflict x oid m = find_conflict x oid 0 [] m"

lemma lm_conflict_slot: "lm_conflict x oid m = (mgr_conflict x oid, m)"
  by (simp add: lm_conflict_def find_conflict_def mgr_conflict_def)

section \<open>All tables\<close>

record lock_mgr_global =
  lock_table' :: "(shard_id_t \<rightharpoonup> lock_mgr) list"

definition new_lock_mgr_global :: "bool \<Rightarrow> bool \<Rightarrow> bool \<Rightarrow> bool \<Rightarrow> shard_id_t list \<Rightarrow> nat \<Rightarrow> lock_mgr_global" where
  "new_lock_mgr_global dl before after nondet shards max_table_id =
     \<lparr>lock_table' = map (\<lambda>id. fold (\<lambda>sh m. if sh \<in> dom m then m
          else m(sh \<mapsto> new_lock_mgr (of_nat id) sh dl before after nondet)) shards Map.empty) [0 ..< max_table_id + 1]\<rparr>"

text \<open>A table outside the vector is an access out of range; a shard without a manager is only logged.\<close>

definition with_mgr :: "table_id_t \<Rightarrow> shard_id_t \<Rightarrow> (lock_mgr \<Rightarrow> lock_mgr) \<Rightarrow> lock_mgr_global \<Rightarrow> lock_mgr_global option" where
  "with_mgr table shard f g =
     (if unat table < length (lock_table' g) then
        (case (lock_table' g ! unat table) shard of
           None \<Rightarrow> Some g
         | Some lm \<Rightarrow> Some (g\<lparr>lock_table' := (lock_table' g)[unat table := (lock_table' g ! unat table)(shard \<mapsto> f lm)]\<rparr>))
      else None)"

definition global_lock_row :: "xid_t \<Rightarrow> oid_t \<Rightarrow> lock_mode \<Rightarrow> table_id_t \<Rightarrow> shard_id_t \<Rightarrow> tuple_id_t \<Rightarrow> lock_mgr_global \<Rightarrow> lock_mgr_global option" where
  "global_lock_row x oid lt table shard key g = with_mgr table shard (lm_lock x oid lt key) g"

definition global_unlock :: "xid_t \<Rightarrow> lock_mode \<Rightarrow> table_id_t \<Rightarrow> shard_id_t \<Rightarrow> tuple_id_t \<Rightarrow> lock_mgr_global \<Rightarrow> lock_mgr_global option" where
  "global_unlock x mode table shard key g = with_mgr table shard (lm_unlock x mode key) g"

section \<open>A slot keeps its row\<close>

lemma slot_tuple_frame [simp]:
  "tuple_id' (emit e s) = tuple_id' s" "tuple_id' (on_lock_acquired ec md x oid s) = tuple_id' s"
  "tuple_id' (set_acquired x s) = tuple_id' s" "tuple_id' (insert_read x s) = tuple_id' s"
  "tuple_id' (insert_write x s) = tuple_id' s"
  by (simp_all add: emit_def on_lock_acquired_def set_acquired_def insert_read_def insert_write_def Let_def
      split: option.split)

lemma fold_acquired_tuple [simp]: "tuple_id' (fold (on_lock_acquired ec md x) oids s) = tuple_id' s"
  by (induction oids arbitrary: s) simp_all

lemma notify_all_tuple: "notify_all xs s = Some s' \<Longrightarrow> tuple_id' s' = tuple_id' s"
proof (induction xs arbitrary: s)
  case (Cons x xs)
  then obtain s1 where s1: "notify_one x s = Some s1" "notify_all xs s1 = Some s'" by auto
  have "tuple_id' s1 = tuple_id' s" using s1(1) by (auto simp: notify_one_def Let_def split: option.splits if_splits)
  then show ?case using Cons.IH[OF s1(2)] by simp
qed simp

lemma notify_tuple: "notify_lock_acquire s = Some s' \<Longrightarrow> tuple_id' s' = tuple_id' s"
  by (auto simp: notify_lock_acquire_def Option.bind_eq_Some_conv Let_def split: if_splits dest!: notify_all_tuple)

lemma remove_lock_tuple: "remove_lock x s = Some (b, s') \<Longrightarrow> tuple_id' s' = tuple_id' s"
  by (auto simp: remove_lock_def Option.bind_eq_Some_conv Let_def split: option.splits if_splits)

lemma slot_unlock_tuple: "slot_unlock x s = Some s' \<Longrightarrow> tuple_id' s' = tuple_id' s"
  by (auto simp: slot_unlock_def Option.bind_eq_Some_conv Let_def dest!: notify_tuple remove_lock_tuple)

lemma slot_add_wait_tuple: "slot_add_wait x oid s = Some s' \<Longrightarrow> tuple_id' s' = tuple_id' s"
  by (auto simp: slot_add_wait_def slot_async_add_dependency_def Option.bind_eq_Some_conv Let_def split: if_splits)

lemma slot_read_lock_tuple: "slot_read_lock x oid s = Some (b, s') \<Longrightarrow> tuple_id' s' = tuple_id' s"
  by (auto simp: slot_read_lock_def acquire_read_lock_def slot_add_read_def Option.bind_eq_Some_conv Let_def split: if_splits dest!: slot_add_wait_tuple)

lemma slot_write_lock_tuple: "slot_write_lock x oid s = Some (b, s') \<Longrightarrow> tuple_id' s' = tuple_id' s"
  by (auto simp: slot_write_lock_def slot_add_write_def Option.bind_eq_Some_conv Let_def split: if_splits dest!: slot_add_wait_tuple)

lemma slot_lock_tuple: "slot_lock md x oid s = Some (b, s') \<Longrightarrow> tuple_id' s' = tuple_id' s"
  by (auto simp: slot_lock_def add_lock_info_def Option.bind_eq_Some_conv Let_def split: option.splits if_splits
      dest!: slot_read_lock_tuple slot_write_lock_tuple)

section \<open>The manager is a family of independent row locks\<close>

definition lm_inv :: "lock_mgr \<Rightarrow> bool" where
  "lm_inv m \<longleftrightarrow> (\<forall>key slot. cht_find key (key_row_locks' m) = Some slot \<longrightarrow> slot_inv slot \<and> tuple_id' slot = key)"

text \<open>The slot of a row, or the one that the first request will create.\<close>

definition slot_at :: "lock_mgr \<Rightarrow> tuple_id_t \<Rightarrow> lock_slot" where
  "slot_at m key = fst (cht_get key (lm_new_slot key m) (key_row_locks' m))"

text \<open>
  Obligation of the callers: requests follow the discipline of the row's slot, and
  only rows for which a lock was requested are released.
\<close>

definition lm_task_ok :: "lm_task \<Rightarrow> lock_mgr \<Rightarrow> bool" where
  "lm_task_ok t m =
     (case t of
        Task_lock oid lt key x \<Rightarrow> is_row_mode lt \<longrightarrow> not_waiting x (slot_at m key)
      | Task_unlock x mode key \<Rightarrow> is_row_mode mode \<longrightarrow> cht_find key (key_row_locks' m) \<noteq> None)"

fun task_calls :: "tuple_id_t \<Rightarrow> lm_task list \<Rightarrow> slot_call list" where
  "task_calls key [] = []"
| "task_calls key (Task_lock oid lt k x # ts) =
     (if k = key \<and> is_row_mode lt then Lock lt x oid # task_calls key ts else task_calls key ts)"
| "task_calls key (Task_unlock x mode k # ts) =
     (if k = key \<and> is_row_mode mode then Unlock x # task_calls key ts else task_calls key ts)"

lemma lm_new_slot_inv: "slot_inv (lm_new_slot key m)" "tuple_id' (lm_new_slot key m) = key"
proof -
  show "slot_inv (lm_new_slot key m)" unfolding lm_new_slot_def by (rule new_slot_inv) simp
qed (simp add: lm_new_slot_def new_lock_slot_def)

lemma slot_at_inv: "lm_inv m \<Longrightarrow> slot_inv (slot_at m key) \<and> tuple_id' (slot_at m key) = key"
  unfolding slot_at_def
  by (rule cht.get_entry[where P = "\<lambda>s. slot_inv s \<and> tuple_id' s = key"]) (simp_all add: lm_inv_def lm_new_slot_inv)

lemma row_lock_eq:
  "row_lock oid lt key x m =
     (if tuple_id' (slot_at m key) = key then
        (case slot_lock lt x oid (slot_at m key) of
           None \<Rightarrow> None
         | Some (b, s') \<Rightarrow> Some (m\<lparr>key_row_locks' := cht_store key s' (snd (cht_get key (lm_new_slot key m) (key_row_locks' m)))\<rparr>))
      else None)"
  by (auto simp: row_lock_def get_lock_slot_def slot_at_def case_prod_unfold Let_def split: option.split)

lemma slot_at_store:
  "slot_at (m\<lparr>key_row_locks' := cht_store key s' (snd (cht_get key d (key_row_locks' m)))\<rparr>) k =
     (if k = key then s' else slot_at m k)"
  "slot_at (m\<lparr>key_row_locks' := cht_store key s' (key_row_locks' m)\<rparr>) k = (if k = key then s' else slot_at m k)"
  by (auto simp: slot_at_def cht_get_def cht_find_or_insert_def cht_store_def lm_new_slot_def split: option.splits)

lemma lm_step_lock:
  assumes "is_row_mode lt" "lm_task_step (Task_lock oid lt key x) m = Some m'"
  shows "\<exists>b s'. slot_lock lt x oid (slot_at m key) = Some (b, s') \<and>
    (\<forall>k. slot_at m' k = (if k = key then s' else slot_at m k)) \<and>
    (\<forall>k. cht_find k (key_row_locks' m') = (if k = key then Some s' else cht_find k (key_row_locks' m)))"
  using assms
  by (auto simp: lm_task_step_def lock_gut_def is_row_mode_def row_lock_eq slot_at_store cht.update_entry
      split: if_splits option.splits)

lemma lm_step_unlock:
  assumes "is_row_mode mode" "lm_task_step (Task_unlock x mode key) m = Some m'"
  shows "\<exists>s'. slot_unlock x (slot_at m key) = Some s' \<and>
    (\<forall>k. slot_at m' k = (if k = key then s' else slot_at m k)) \<and>
    (\<forall>k. cht_find k (key_row_locks' m') = (if k = key then Some s' else cht_find k (key_row_locks' m)))"
proof -
  obtain slot s' where s: "cht_find key (key_row_locks' m) = Some slot" "slot_unlock x slot = Some s'"
    "m' = m\<lparr>key_row_locks' := cht_store key s' (key_row_locks' m)\<rparr>"
    using assms by (auto simp: lm_task_step_def unlock_gut_def is_row_mode_def Option.bind_eq_Some_conv split: option.splits)
  then have "slot_at m key = slot" by (simp add: slot_at_def cht.get_found)
  then show ?thesis using s by (simp add: slot_at_store cht.look_store)
qed

lemma lm_step_other:
  "\<not> is_row_mode lt \<Longrightarrow> lm_task_step (Task_lock oid lt key x) m = Some m"
  "\<not> is_row_mode lt \<Longrightarrow> lm_task_step (Task_unlock x lt key) m = Some m"
  by (auto simp: lm_task_step_def lock_gut_def unlock_gut_def is_row_mode_def)

text \<open>
  (C7) The lock manager is a family of independent row locks: after any
  sequence of tasks the strand has executed, the state of every row is the
  one its own slot reaches from the requests and releases of that row alone,
  in their order.
\<close>

theorem lock_mgr_rows_independent:
  assumes "run lm_task_step ts m = Some m'"
  shows "run slot_step (task_calls key ts) (slot_at m key) = Some (slot_at m' key)"
  using assms
proof (induction ts arbitrary: m)
  case (Cons t ts)
  then obtain m1 where m1: "lm_task_step t m = Some m1" "run lm_task_step ts m1 = Some m'"
    by (auto split: option.splits)
  note IH = Cons.IH[OF m1(2)]
  show ?case
  proof (cases t)
    case (Task_lock oid lt k x)
    show ?thesis
    proof (cases "is_row_mode lt")
      case True
      obtain b s' where "slot_lock lt x oid (slot_at m k) = Some (b, s')" "\<forall>j. slot_at m1 j = (if j = k then s' else slot_at m j)"
        using lm_step_lock[OF True m1(1)[unfolded Task_lock]] by blast
      then show ?thesis using IH True by (auto simp: Task_lock slot_step_def)
    next
      case False
      then show ?thesis using IH m1(1) lm_step_other(1)[OF False] by (simp add: Task_lock)
    qed
  next
    case (Task_unlock x mode k)
    show ?thesis
    proof (cases "is_row_mode mode")
      case True
      obtain s' where "slot_unlock x (slot_at m k) = Some s'" "\<forall>j. slot_at m1 j = (if j = k then s' else slot_at m j)"
        using lm_step_unlock[OF True m1(1)[unfolded Task_unlock]] by blast
      then show ?thesis using IH True by (auto simp: Task_unlock slot_step_def)
    next
      case False
      then show ?thesis using IH m1(1) lm_step_other(2)[OF False] by (simp add: Task_unlock)
    qed
  qed
qed simp

definition demo_mgr :: lock_mgr where
  "demo_mgr = new_lock_mgr 3 1 True True True True"

definition demo_tasks :: "lm_task list" where
  "demo_tasks = [Task_lock 1 LOCK_WRITE_ROW 100 7, Task_lock 2 LOCK_READ_ROW 200 7, Task_lock 1 LOCK_READ_ROW 100 8,
     Task_unlock 7 LOCK_WRITE_ROW 100]"

lemma lock_mgr_rows_independent_witness:
  "\<exists>m'. run lm_task_step demo_tasks demo_mgr = Some m' \<and>
     run slot_step [Lock LOCK_WRITE_ROW 7 1, Lock LOCK_READ_ROW 8 1, Unlock 7] (slot_at demo_mgr 100) = Some (slot_at m' 100)"
proof -
  have "run lm_task_step demo_tasks demo_mgr \<noteq> None" by code_simp
  then obtain m' where m': "run lm_task_step demo_tasks demo_mgr = Some m'" by blast
  have "task_calls 100 demo_tasks = [Lock LOCK_WRITE_ROW 7 1, Lock LOCK_READ_ROW 8 1, Unlock 7]" by code_simp
  then show ?thesis using lock_mgr_rows_independent[OF m', of 100] m' by simp
qed

lemma lm_task_safe:
  assumes inv: "lm_inv m" and ok: "lm_task_ok t m"
  shows "\<exists>m'. lm_task_step t m = Some m' \<and> lm_inv m'"
proof (cases t)
  case (Task_lock oid lt key x)
  show ?thesis
  proof (cases "is_row_mode lt")
    case True
    have nw: "not_waiting x (slot_at m key)" using ok True by (simp add: Task_lock lm_task_ok_def)
    obtain b s' where s': "slot_lock lt x oid (slot_at m key) = Some (b, s')" "slot_inv s'"
      using slot_lock_refines[OF conjunct1[OF slot_at_inv[OF inv]] True nw] by blast
    moreover have "tuple_id' (slot_at m key) = key" using slot_at_inv[OF inv] by blast
    ultimately obtain m' where m': "lm_task_step t m = Some m'"
      using True by (auto simp: Task_lock lm_task_step_def lock_gut_def is_row_mode_def row_lock_eq)
    from lm_step_lock[OF True m'[unfolded Task_lock]] s' slot_lock_tuple[OF s'(1)] slot_at_inv[OF inv]
    have "lm_inv m'" using inv by (auto simp: lm_inv_def split: if_splits)
    then show ?thesis using m' by blast
  next
    case False
    then show ?thesis using inv lm_step_other(1) by (simp add: Task_lock)
  qed
next
  case (Task_unlock x mode key)
  show ?thesis
  proof (cases "is_row_mode mode")
    case True
    then obtain slot where slot: "cht_find key (key_row_locks' m) = Some slot"
      using ok by (auto simp: Task_unlock lm_task_ok_def)
    then have "slot_inv slot" "tuple_id' slot = key" using inv by (auto simp: lm_inv_def)
    then obtain s' where s': "slot_unlock x slot = Some s'" "slot_inv s'" "tuple_id' s' = key"
      using slot_unlock_refines[of slot x] slot_unlock_tuple by blast
    then obtain m' where m': "lm_task_step t m = Some m'"
      using True slot by (auto simp: Task_unlock lm_task_step_def unlock_gut_def is_row_mode_def)
    have "slot_at m key = slot" using slot by (simp add: slot_at_def cht.get_found)
    then have "lm_inv m'"
      using lm_step_unlock[OF True m'[unfolded Task_unlock]] s' inv by (auto simp: lm_inv_def split: if_splits)
    then show ?thesis using m' by blast
  next
    case False
    then show ?thesis using inv lm_step_other(2) by (simp add: Task_unlock)
  qed
qed

interpretation lm: guarded_machine lm_task_step lm_task_ok lm_inv
  by unfold_locales (rule lm_task_safe)

lemma new_lock_mgr_inv: "lm_inv (new_lock_mgr table shard dl before after nondet)"
  by (simp add: lm_inv_def new_lock_mgr_def cht_find_def)

text \<open>
  (C8) No assertion of the lock manager fails: from a new manager, tasks whose
  requests follow the slot discipline and whose releases name requested rows
  run to the end, and afterwards every row of the table is a consistent lock
  stored under its own key.
\<close>

theorem lock_mgr_run_safe:
  assumes "disciplined lm_task_step lm_task_ok ts (new_lock_mgr table shard dl before after nondet)"
  shows "\<exists>m'. run lm_task_step ts (new_lock_mgr table shard dl before after nondet) = Some m' \<and>
    (\<forall>key slot. cht_find key (key_row_locks' m') = Some slot \<longrightarrow> slot_inv slot \<and> tuple_id' slot = key)"
  using lm.run_safe[OF new_lock_mgr_inv assms] unfolding lm_inv_def .

lemma lock_mgr_run_safe_witness:
  "\<exists>m'. run lm_task_step demo_tasks (new_lock_mgr 3 1 True True True True) = Some m' \<and>
     (\<forall>key slot. cht_find key (key_row_locks' m') = Some slot \<longrightarrow> slot_inv slot \<and> tuple_id' slot = key)"
  by (rule lock_mgr_run_safe) code_simp

section \<open>Routing to the manager of a table and shard\<close>

lemma fold_shards:
  "fold (\<lambda>sh m. if sh \<in> dom m then m else m(sh \<mapsto> f sh)) shards m0 sh =
     (if sh \<in> dom m0 then m0 sh else if sh \<in> set shards then Some (f sh) else None)"
proof (induction shards arbitrary: m0)
  case (Cons a shards)
  then show ?case by (auto simp: dom_def)
qed (auto simp: dom_def)



end
