(* ===== verification/Tx_Log.thy ===== *)
theory Tx_Log
  imports Prelude
begin

text \<open>
  The wire format of transaction logs, \<^verbatim>\<open>include/common/tx_log.h\<close>, and
  its producer \<^verbatim>\<open>write_ahead_log::async_append\<close>
  (\<^verbatim>\<open>src/concurrency/write_ahead_log.cpp\<close>).

  A log is a header of three little-endian 64-bit words (payload size, time
  stamp, node) followed by the payload; a batch is a concatenation of logs.
  A \<^verbatim>\<open>log_buffer\<close> is an offset into the bytes of a batch and a size.  The
  serialisation of the payload is protobuf's, a parameter.  Arithmetic on
  sizes is modulo \<^term>\<open>2 ^ 64 :: nat\<close>, as \<^verbatim>\<open>size_t\<close> is.
\<close>

unbundle bit_operations_syntax

section \<open>Words in memory\<close>

definition u64_bytes :: "u64 \<Rightarrow> u8 list" where
  "u64_bytes w = map (\<lambda>i. ucast (drop_bit (8 * i) w)) [0, 1, 2, 3, 4, 5, 6, 7]"

definition bytes_u64 :: "u8 list \<Rightarrow> u64" where
  "bytes_u64 bs = foldr (\<lambda>b acc. ucast b OR push_bit 8 acc) bs 0"

text \<open>\<^verbatim>\<open>memcpy\<close> into and out of a byte string.\<close>

definition put_bytes :: "nat \<Rightarrow> u8 list \<Rightarrow> u8 list \<Rightarrow> u8 list" where
  "put_bytes off bs mem = take off mem @ bs @ drop (off + length bs) mem"

definition get_bytes :: "nat \<Rightarrow> nat \<Rightarrow> u8 list \<Rightarrow> u8 list" where
  "get_bytes off n mem = take n (drop off mem)"

section \<open>log_buffer\<close>

abbreviation (input) "OFFSET_PAYLOAD_SIZE \<equiv> (0 :: nat)"
abbreviation (input) "OFFSET_TIMESTAMP \<equiv> (8 :: nat)"
abbreviation (input) "OFFSET_NODE_ID \<equiv> (16 :: nat)"
abbreviation (input) "HEADER_SIZE \<equiv> (24 :: nat)"

record log_buffer =
  pointer' :: nat
  size' :: nat

definition lb_get_data :: "nat \<Rightarrow> log_buffer \<Rightarrow> nat option" where
  "lb_get_data off b = do { boost_assert (size' b \<ge> off + 8); Some (pointer' b + off) }"

definition lb_read_u64 :: "nat \<Rightarrow> log_buffer \<Rightarrow> u8 list \<Rightarrow> u64 option" where
  "lb_read_u64 off b mem = do {
     p \<leftarrow> lb_get_data off b;
     boost_assert (p + 8 \<le> length mem);
     Some (bytes_u64 (get_bytes p 8 mem)) }"

definition lb_write_u64 :: "nat \<Rightarrow> u64 \<Rightarrow> log_buffer \<Rightarrow> u8 list \<Rightarrow> u8 list option" where
  "lb_write_u64 off v b mem = do {
     p \<leftarrow> lb_get_data off b;
     boost_assert (p + 8 \<le> length mem);
     Some (put_bytes p (u64_bytes v) mem) }"

definition lb_timestamp :: "log_buffer \<Rightarrow> u8 list \<Rightarrow> u64 option" where
  "lb_timestamp = lb_read_u64 OFFSET_TIMESTAMP"

definition lb_payload_size :: "log_buffer \<Rightarrow> u8 list \<Rightarrow> u64 option" where
  "lb_payload_size = lb_read_u64 OFFSET_PAYLOAD_SIZE"

definition lb_node_id :: "log_buffer \<Rightarrow> u8 list \<Rightarrow> node_id_t option" where
  "lb_node_id b mem = map_option ucast (lb_read_u64 OFFSET_NODE_ID b mem)"

definition lb_set_timestamp :: "u64 \<Rightarrow> log_buffer \<Rightarrow> u8 list \<Rightarrow> u8 list option" where
  "lb_set_timestamp = lb_write_u64 OFFSET_TIMESTAMP"

definition lb_set_payload_size :: "u64 \<Rightarrow> log_buffer \<Rightarrow> u8 list \<Rightarrow> u8 list option" where
  "lb_set_payload_size = lb_write_u64 OFFSET_PAYLOAD_SIZE"

definition lb_set_node_id :: "node_id_t \<Rightarrow> log_buffer \<Rightarrow> u8 list \<Rightarrow> u8 list option" where
  "lb_set_node_id n = lb_write_u64 OFFSET_NODE_ID (ucast n)"

definition lb_copy_payload :: "u8 list \<Rightarrow> log_buffer \<Rightarrow> u8 list \<Rightarrow> u8 list option" where
  "lb_copy_payload src b mem = do {
     boost_assert (size' b \<ge> length src + HEADER_SIZE);
     p \<leftarrow> lb_get_data HEADER_SIZE b;
     boost_assert (p + length src \<le> length mem);
     Some (put_bytes p src mem) }"

definition lb_format :: "nat \<Rightarrow> nat \<Rightarrow> u8 list \<Rightarrow> u64 \<Rightarrow> node_id_t \<Rightarrow> u8 list \<Rightarrow> u8 list option" where
  "lb_format ptr cap src ts node mem = do {
     let b = \<lparr>pointer' = ptr, size' = cap\<rparr>;
     mem \<leftarrow> lb_set_payload_size (of_nat (length src)) b mem;
     mem \<leftarrow> lb_set_timestamp ts b mem;
     mem \<leftarrow> lb_set_node_id node b mem;
     lb_copy_payload src b mem }"

section \<open>Producing and consuming a batch\<close>

fun wal_format_loop :: "node_id_t \<Rightarrow> u8 list list \<Rightarrow> nat \<Rightarrow> u8 list \<Rightarrow> u8 list option" where
  "wal_format_loop node [] off mem = Some mem"
| "wal_format_loop node (e # es) off mem = do {
     mem \<leftarrow> lb_format off (length mem - off) e 0 node mem;
     wal_format_loop node es (off + (HEADER_SIZE + length e)) mem }"

text \<open>\<^verbatim>\<open>async_append\<close>: the bytes of the request that is sent.\<close>

definition wal_async_append :: "node_id_t \<Rightarrow> u64 \<Rightarrow> u8 list list \<Rightarrow> u8 list option" where
  "wal_async_append node cno es = do {
     boost_assert (cno \<noteq> 0);
     let total = sum_list (map (\<lambda>e. HEADER_SIZE + length e) es);
     wal_format_loop node es 0 (replicate total 0) }"

text \<open>The loop of \<^verbatim>\<open>handle_repeated_tx_logs_to_buffer\<close>: \<^term>\<open>fn\<close> is the callback.\<close>

datatype 'a loop_result = Done "'a list" | Abort | Out_of_fuel

fun loop_cons :: "'a \<Rightarrow> 'a loop_result \<Rightarrow> 'a loop_result" where
  "loop_cons x (Done xs) = Done (x # xs)"
| "loop_cons x Abort = Abort"
| "loop_cons x Out_of_fuel = Out_of_fuel"

fun tx_logs_loop :: "nat \<Rightarrow> (log_buffer \<Rightarrow> 'a option) \<Rightarrow> u8 list \<Rightarrow> nat \<Rightarrow> 'a loop_result" where
  "tx_logs_loop 0 fn logs pos =
     (if pos < length logs then Out_of_fuel else if pos = length logs then Done [] else Abort)"
| "tx_logs_loop (Suc n) fn logs pos =
     (if pos < length logs then
        (case lb_payload_size \<lparr>pointer' = pos, size' = length logs - pos\<rparr> logs of
           None \<Rightarrow> Abort
         | Some ps \<Rightarrow>
             let buffer_size = (unat ps + HEADER_SIZE) mod 2 ^ 64 in
             (case fn \<lparr>pointer' = pos, size' = buffer_size\<rparr> of
                None \<Rightarrow> Abort
              | Some a \<Rightarrow> loop_cons a (tx_logs_loop n fn logs ((pos + buffer_size) mod 2 ^ 64))))
      else if pos = length logs then Done [] else Abort)"

text \<open>
  \<^verbatim>\<open>ParseFromArray(payload_data(), payload_size())\<close>: reading past the end of
  the batch is an abort, as is a payload that does not parse.
\<close>

definition lb_parse :: "(u8 list \<Rightarrow> 'p option) \<Rightarrow> u8 list \<Rightarrow> log_buffer \<Rightarrow> 'p option" where
  "lb_parse parse logs b = do {
     p \<leftarrow> lb_get_data HEADER_SIZE b;
     n \<leftarrow> lb_payload_size b logs;
     boost_assert (p + unat n \<le> length logs);
     parse (get_bytes p (unat n) logs) }"

definition tx_logs_to_proto :: "nat \<Rightarrow> (u8 list \<Rightarrow> 'p option) \<Rightarrow> u8 list \<Rightarrow> 'p loop_result" where
  "tx_logs_to_proto fuel parse logs = tx_logs_loop fuel (lb_parse parse logs) logs 0"

definition tx_logs_to_proto_and_timestamp ::
  "nat \<Rightarrow> (u8 list \<Rightarrow> 'p option) \<Rightarrow> u8 list \<Rightarrow> ('p \<times> u64 \<times> node_id_t) loop_result" where
  "tx_logs_to_proto_and_timestamp fuel parse logs =
     tx_logs_loop fuel (\<lambda>b. do {
       x \<leftarrow> lb_parse parse logs b;
       ts \<leftarrow> lb_timestamp b logs;
       n \<leftarrow> lb_node_id b logs;
       Some (x, ts, n) }) logs 0"

text \<open>\<^verbatim>\<open>state_machine::ccb_append_log\<close> stamps a received batch: the first header only.\<close>

definition stamp_batch :: "u64 \<Rightarrow> u8 list \<Rightarrow> u8 list option" where
  "stamp_batch ms logs = lb_set_timestamp ms \<lparr>pointer' = 0, size' = length logs\<rparr> logs"

section \<open>Words survive memory\<close>

lemma length_u64_bytes [simp]: "length (u64_bytes w) = 8"
  by (simp add: u64_bytes_def)

lemma bytes_of_word_chunks:
  "foldr (\<lambda>b acc. ucast b OR push_bit 8 acc) (map (\<lambda>i. ucast (drop_bit (8 * i) w) :: u8) [k..<k + m]) 0 =
     take_bit (8 * m) (drop_bit (8 * k) w :: u64)"
proof (induction m arbitrary: k)
  case (Suc m)
  have split: "[k..<k + Suc m] = k # [Suc k..<Suc k + m]" by (simp add: upt_conv_Cons)
  have "ucast (ucast (drop_bit (8 * k) w) :: u8) OR push_bit 8 (take_bit (8 * m) (drop_bit (8 * Suc k) w)) =
      take_bit (8 * Suc m) (drop_bit (8 * k) w)"
  proof (rule bit_word_eqI)
    fix n assume "n < LENGTH(64)"
    then show "bit (ucast (ucast (drop_bit (8 * k) w) :: u8) OR push_bit 8 (take_bit (8 * m) (drop_bit (8 * Suc k) w))) n =
        bit (take_bit (8 * Suc m) (drop_bit (8 * k) w)) n"
      by (cases "n < 8") (auto simp: bit_simps add.assoc)
  qed
  then show ?case unfolding split list.map foldr.simps comp_apply Suc.IH .
qed simp

lemma bytes_u64_of_u64_bytes [simp]: "bytes_u64 (u64_bytes w) = w"
proof -
  have "[0..<0 + 8] = [0, 1, 2, 3, 4, 5, 6, 7 :: nat]" by (simp add: upt_rec)
  then have "bytes_u64 (u64_bytes w) = take_bit (8 * 8) (drop_bit (8 * 0) w)"
    using bytes_of_word_chunks[of w 0 8] by (simp only: bytes_u64_def u64_bytes_def)
  then show ?thesis by (simp add: take_bit_word_eq_self)
qed

section \<open>Round trip\<close>

lemma length_put_bytes: "off + length bs \<le> length mem \<Longrightarrow> length (put_bytes off bs mem) = length mem"
  by (simp add: put_bytes_def)

lemma put_bytes_append:
  "off = length pre \<Longrightarrow> length old = length bs \<Longrightarrow> put_bytes off bs (pre @ old @ post) = pre @ bs @ post"
  by (simp add: put_bytes_def)

lemma unat_of_nat_u64: "n < 2 ^ 64 \<Longrightarrow> unat (of_nat n :: u64) = n"
  by (simp add: unat_of_nat)

lemma node_id_widened [simp]: "ucast (ucast node :: u64) = (node :: node_id_t)"
  by (rule bit_word_eqI) (simp add: bit_simps)

text \<open>The bytes of one log.\<close>

definition log_bytes :: "u64 \<Rightarrow> node_id_t \<Rightarrow> u8 list \<Rightarrow> u8 list" where
  "log_bytes ts node e = u64_bytes (of_nat (length e)) @ u64_bytes ts @ u64_bytes (ucast node) @ e"

lemma length_log_bytes: "length (log_bytes ts node e) = 24 + length e"
  by (simp add: log_bytes_def)

lemma lb_format_bytes:
  assumes l: "length a = 8" "length b = 8" "length c = 8" "length d = length e" "8 \<le> length e"
    and cap: "cap = 24 + length e + length post"
  shows "lb_format (length pre) cap e ts node (pre @ a @ b @ c @ d @ post) = Some (pre @ log_bytes ts node e @ post)"
proof -
  let ?n = "u64_bytes (of_nat (length e))" and ?t = "u64_bytes ts" and ?i = "u64_bytes (ucast node)"
  have w1: "put_bytes (length pre) ?n (pre @ a @ b @ c @ d @ post) = pre @ ?n @ b @ c @ d @ post"
    using put_bytes_append[of "length pre" pre a ?n "b @ c @ d @ post"] l by simp
  have w2: "put_bytes (length pre + 8) ?t (pre @ ?n @ b @ c @ d @ post) = pre @ ?n @ ?t @ c @ d @ post"
    using put_bytes_append[of "length pre + 8" "pre @ ?n" b ?t "c @ d @ post"] l by simp
  have w3: "put_bytes (length pre + 16) ?i (pre @ ?n @ ?t @ c @ d @ post) = pre @ ?n @ ?t @ ?i @ d @ post"
    using put_bytes_append[of "length pre + 16" "pre @ ?n @ ?t" c ?i "d @ post"] l by simp
  have w4: "put_bytes (length pre + 24) e (pre @ ?n @ ?t @ ?i @ d @ post) = pre @ ?n @ ?t @ ?i @ e @ post"
    using put_bytes_append[of "length pre + 24" "pre @ ?n @ ?t @ ?i" d e post] l by simp
  show ?thesis
    using l cap
    by (simp add: lb_format_def lb_set_payload_size_def lb_set_timestamp_def lb_set_node_id_def lb_write_u64_def
        lb_get_data_def lb_copy_payload_def w1 w2 w3 w4 log_bytes_def)
qed

lemma wal_format_loop_bytes:
  assumes "\<forall>e \<in> set es. 8 \<le> length e" "off = length pre"
  shows "wal_format_loop node es off (pre @ replicate (sum_list (map (\<lambda>e. 24 + length e) es)) 0) =
    Some (pre @ concat (map (log_bytes 0 node) es))"
  using assms
proof (induction es arbitrary: pre off)
  case (Cons e es)
  let ?rest = "replicate (sum_list (map (\<lambda>e. 24 + length e) es)) (0 :: u8)"
  have r: "replicate (24 + length e + n) (0 :: u8) = replicate 8 0 @ replicate 8 0 @ replicate 8 0 @ replicate (length e) 0 @ replicate n 0" for n
    by (simp flip: replicate_add)
  have "lb_format (length pre) (24 + length e + length ?rest) e 0 node
      (pre @ replicate 8 0 @ replicate 8 0 @ replicate 8 0 @ replicate (length e) 0 @ ?rest) =
      Some (pre @ log_bytes 0 node e @ ?rest)"
    using Cons.prems(1) by (intro lb_format_bytes) simp_all
  moreover have "wal_format_loop node es (length pre + (24 + length e)) ((pre @ log_bytes 0 node e) @ ?rest) =
      Some ((pre @ log_bytes 0 node e) @ concat (map (log_bytes 0 node) es))"
    using Cons.prems(1) by (intro Cons.IH) (simp_all add: length_log_bytes)
  ultimately show ?case
    using Cons.prems(2) by (simp add: r add.assoc[symmetric])
qed simp

lemma wal_async_append_bytes:
  assumes "cno \<noteq> 0" "\<forall>e \<in> set es. 8 \<le> length e"
  shows "wal_async_append node cno es = Some (concat (map (log_bytes 0 node) es))"
  using wal_format_loop_bytes[OF assms(2), of 0 "[]"] assms(1) by (simp add: wal_async_append_def)

fun log_of :: "u64 \<times> node_id_t \<times> u8 list \<Rightarrow> u8 list" where
  "log_of (ts, node, e) = log_bytes ts node e"

lemma read_header:
  assumes logs: "logs = pre @ log_bytes ts node e @ post" and sz: "24 \<le> size' b" "pointer' b = length pre"
  shows "lb_payload_size b logs = Some (of_nat (length e))" "lb_timestamp b logs = Some ts"
    "lb_node_id b logs = Some node"
proof -
  let ?n = "u64_bytes (of_nat (length e))" and ?t = "u64_bytes ts" and ?i = "u64_bytes (ucast node)"
  have g1: "get_bytes (length pre) 8 (pre @ ?n @ ?t @ ?i @ e @ post) = ?n"
    by (simp add: get_bytes_def)
  have g2: "get_bytes (length pre + 8) 8 (pre @ ?n @ ?t @ ?i @ e @ post) = ?t"
    by (simp add: get_bytes_def)
  have g3: "get_bytes (length pre + 16) 8 (pre @ ?n @ ?t @ ?i @ e @ post) = ?i"
    by (simp add: get_bytes_def)
  have lg: "logs = pre @ ?n @ ?t @ ?i @ e @ post" by (simp add: logs log_bytes_def)
  have len: "length pre + 24 \<le> length logs" unfolding lg by simp
  have s: "8 \<le> size' b" "16 \<le> size' b" using sz(1) by simp_all
  show "lb_payload_size b logs = Some (of_nat (length e))"
    using g1[folded lg] len s sz by (simp add: lb_payload_size_def lb_read_u64_def lb_get_data_def)
  show "lb_timestamp b logs = Some ts"
    using g2[folded lg] len s sz by (simp add: lb_timestamp_def lb_read_u64_def lb_get_data_def)
  show "lb_node_id b logs = Some node"
    using g3[folded lg] len s sz by (simp add: lb_node_id_def lb_read_u64_def lb_get_data_def)
qed

lemma read_payload:
  assumes logs: "logs = pre @ log_bytes ts node e @ post" and len: "length e < 2 ^ 64" "8 \<le> length e"
    and b: "b = \<lparr>pointer' = length pre, size' = 24 + length e\<rparr>"
  shows "lb_parse parse logs b = parse e"
proof -
  have un: "unat (of_nat (length e) :: u64) = length e" using len(1) by (rule unat_of_nat_u64)
  have "get_bytes (length pre + 24) (length e) logs = e"
    by (simp add: logs log_bytes_def get_bytes_def)
  then show ?thesis
    using read_header(1)[OF logs, of b] len un
    by (simp add: lb_parse_def lb_get_data_def b) (simp add: logs log_bytes_def)
qed

text \<open>Every batch of well-formed logs is read back log by log.\<close>

lemma tx_logs_loop_reads:
  assumes len: "length (pre @ concat (map log_of ls)) < 2 ^ 64"
    and ok: "\<forall>(ts, node, e) \<in> set ls. 8 \<le> length e \<and> parse e = Some (dec e)"
    and fuel: "length ls \<le> fuel" and logs: "logs = pre @ concat (map log_of ls)"
  shows "tx_logs_loop fuel (\<lambda>b. do {
       x \<leftarrow> lb_parse parse logs b; ts \<leftarrow> lb_timestamp b logs; n \<leftarrow> lb_node_id b logs; Some (x, ts, n) })
       logs (length pre) = Done (map (\<lambda>(ts, node, e). (dec e, ts, node)) ls)"
  using assms
proof (induction ls arbitrary: pre fuel)
  case Nil
  then show ?case by (cases fuel) simp_all
next
  case (Cons l ls)
  obtain ts node e where l: "l = (ts, node, e)" by (cases l)
  obtain n where fuel: "fuel = Suc n" using Cons.prems(3) by (cases fuel) auto
  let ?post = "concat (map log_of ls)"
  have lg: "logs = pre @ log_bytes ts node e @ ?post" using Cons.prems(4) by (simp add: l)
  have e: "8 \<le> length e" "parse e = Some (dec e)" using Cons.prems(2) l by auto
  have el: "length e + 24 < 2 ^ 64" and tot: "length pre + (24 + length e) < 2 ^ 64"
    using Cons.prems(1) by (simp_all add: l length_log_bytes)
  have un: "unat (of_nat (length e) :: u64) = length e" using el by (intro unat_of_nat_u64) simp
  let ?b = "\<lparr>pointer' = length pre, size' = 24 + length e\<rparr>"
  have hd: "lb_payload_size \<lparr>pointer' = length pre, size' = length logs - length pre\<rparr> logs = Some (of_nat (length e))"
    using read_header(1)[OF lg] by (simp add: lg length_log_bytes)
  have bs: "(unat (of_nat (length e) :: u64) + 24) mod 2 ^ 64 = 24 + length e" using el by (simp add: un add.commute)
  have rd: "lb_parse parse logs ?b = Some (dec e)" "lb_timestamp ?b logs = Some ts" "lb_node_id ?b logs = Some node"
    using read_payload[OF lg _ e(1) refl, of parse] read_header[OF lg, of ?b] e el by simp_all
  have next_pos: "(length pre + (24 + length e)) mod 2 ^ 64 = length (pre @ log_bytes ts node e)"
    using tot by (simp add: length_log_bytes)
  have lt: "length pre < length logs" by (simp add: lg length_log_bytes)
  have IH: "tx_logs_loop n (\<lambda>b. do {
       x \<leftarrow> lb_parse parse logs b; ts \<leftarrow> lb_timestamp b logs; n \<leftarrow> lb_node_id b logs; Some (x, ts, n) })
       logs (length (pre @ log_bytes ts node e)) = Done (map (\<lambda>(ts, node, e). (dec e, ts, node)) ls)"
    by (rule Cons.IH) (use Cons.prems fuel in \<open>simp_all add: l\<close>)
  show ?case
    unfolding fuel tx_logs_loop.simps if_P[OF lt] hd option.case Let_def bs next_pos
    using rd IH by (simp add: l)
qed

lemma stamp_first:
  "stamp_batch ms (log_bytes ts node e @ post) = Some (log_bytes ms node e @ post)"
  by (simp add: stamp_batch_def lb_set_timestamp_def lb_write_u64_def lb_get_data_def log_bytes_def put_bytes_def)

text \<open>
  A batch as the replication log receives it: the logs of the transactions
  \<^term>\<open>xs\<close> of a node, stamped on arrival.
\<close>

definition wal_batch :: "('p \<Rightarrow> u8 list) \<Rightarrow> u64 \<Rightarrow> node_id_t \<times> u64 \<times> 'p list \<Rightarrow> u8 list option" where
  "wal_batch ser cno b = (case b of (node, ms, xs) \<Rightarrow> do {
     logs \<leftarrow> wal_async_append node cno (map ser xs);
     stamp_batch ms logs })"

definition batch_logs :: "node_id_t \<times> u64 \<times> 'p list \<Rightarrow> ('p \<times> u64 \<times> node_id_t) list" where
  "batch_logs b = (case b of (node, ms, xs) \<Rightarrow> (hd xs, ms, node) # map (\<lambda>x. (x, 0, node)) (tl xs))"

text \<open>The logs of a batch as header fields and payload.\<close>

definition batch_enc :: "('p \<Rightarrow> u8 list) \<Rightarrow> node_id_t \<times> u64 \<times> 'p list \<Rightarrow> (u64 \<times> node_id_t \<times> u8 list) list" where
  "batch_enc ser b = map (\<lambda>(x, ts, node). (ts, node, ser x)) (batch_logs b)"

definition batch_ok :: "('p \<Rightarrow> u8 list) \<Rightarrow> (u8 list \<Rightarrow> 'p option) \<Rightarrow> node_id_t \<times> u64 \<times> 'p list \<Rightarrow> bool" where
  "batch_ok ser parse b \<longleftrightarrow> (case b of (node, ms, xs) \<Rightarrow>
     xs \<noteq> [] \<and> (\<forall>x \<in> set xs. parse (ser x) = Some x \<and> 8 \<le> length (ser x)))"

lemma batch_okE:
  assumes "batch_ok ser parse b"
  obtains node ms y ys where "b = (node, ms, y # ys)" "\<forall>x \<in> set (y # ys). parse (ser x) = Some x \<and> 8 \<le> length (ser x)"
proof -
  obtain node ms xs where b: "b = (node, ms, xs)" by (cases b)
  then show ?thesis using assms that by (cases xs) (auto simp: batch_ok_def)
qed

lemma wal_batch_enc:
  assumes "cno \<noteq> 0" "batch_ok ser parse b"
  shows "wal_batch ser cno b = Some (concat (map log_of (batch_enc ser b)))"
proof -
  obtain node ms y ys where b: "b = (node, ms, y # ys)"
    and ok: "\<forall>x \<in> set (y # ys). parse (ser x) = Some x \<and> 8 \<le> length (ser x)"
    using assms(2) by (rule batch_okE)
  have "wal_async_append node cno (map ser (y # ys)) = Some (concat (map (log_bytes 0 node) (map ser (y # ys))))"
    using assms(1) ok by (intro wal_async_append_bytes) simp_all
  then show ?thesis
    by (simp add: wal_batch_def b batch_enc_def batch_logs_def stamp_first comp_def)
qed

lemma batch_enc_length:
  assumes "batch_ok ser parse b"
  shows "length (concat (map log_of (batch_enc ser b))) = (\<Sum>x \<leftarrow> snd (snd b). 24 + length (ser x))"
    "length (batch_enc ser b) = length (snd (snd b))"
  by (use assms in \<open>rule batch_okE, simp add: batch_enc_def batch_logs_def length_log_bytes length_concat comp_def\<close>)+

lemma batch_enc_ok:
  assumes "batch_ok ser parse b" "(ts, node, e) \<in> set (batch_enc ser b)"
  shows "8 \<le> length e \<and> parse e = Some (the (parse e))"
  by (use assms in \<open>elim batch_okE, auto simp: batch_enc_def batch_logs_def\<close>)

lemma batch_enc_decode:
  assumes "batch_ok ser parse b"
  shows "map (\<lambda>(ts, node, e). (the (parse e), ts, node)) (batch_enc ser b) = batch_logs b"
  by (use assms in \<open>elim batch_okE, auto simp: batch_enc_def batch_logs_def\<close>)

lemma batches_enc_length:
  assumes "\<forall>b \<in> set bs. batch_ok ser parse b"
  shows "length (concat (map log_of (concat (map (batch_enc ser) bs)))) = (\<Sum>b \<leftarrow> bs. \<Sum>x \<leftarrow> snd (snd b). 24 + length (ser x))"
    "length (concat (map (batch_enc ser) bs)) = (\<Sum>b \<leftarrow> bs. length (snd (snd b)))"
  using assms by (induction bs) (simp_all add: batch_enc_length[of ser parse] del: length_concat)

lemma batches_enc_concat:
  "concat (map (\<lambda>b. concat (map log_of (batch_enc ser b))) bs) = concat (map log_of (concat (map (batch_enc ser) bs)))"
  by (induction bs) simp_all

lemma batches_enc_decode:
  assumes "\<forall>b \<in> set bs. batch_ok ser parse b"
  shows "map (\<lambda>(ts, node, e). (the (parse e), ts, node)) (concat (map (batch_enc ser) bs)) = concat (map batch_logs bs)"
  using assms by (induction bs) (simp_all add: batch_enc_decode)

text \<open>
  (C10) Transaction logs survive the write-ahead path: whatever batches the
  nodes append and the replication log stamps and concatenates into one
  entry, parsing the entry yields exactly the appended transaction logs in
  order, each with its node and with the time stamp of its batch on the first
  log.  \<^term>\<open>ser\<close> and \<^term>\<open>parse\<close> are protobuf's serialisation; every
  batch is non-empty and every payload has at least eight bytes.
\<close>

theorem log_batches_round_trip:
  fixes ser :: "'p \<Rightarrow> u8 list" and parse :: "u8 list \<Rightarrow> 'p option"
  assumes cno: "cno \<noteq> 0"
    and ok: "\<forall>b \<in> set bs. batch_ok ser parse b"
    and size: "(\<Sum>b \<leftarrow> bs. \<Sum>x \<leftarrow> snd (snd b). 24 + length (ser x)) < 2 ^ 64"
    and fuel: "(\<Sum>b \<leftarrow> bs. length (snd (snd b))) \<le> fuel"
  shows "\<exists>ls. map (wal_batch ser cno) bs = map Some ls \<and>
    tx_logs_to_proto_and_timestamp fuel parse (concat ls) = Done (concat (map batch_logs bs))"
proof -
  let ?enc = "concat (map (batch_enc ser) bs)"
  define ls where "ls = map (\<lambda>b. concat (map log_of (batch_enc ser b))) bs"
  have ls: "concat ls = concat (map log_of ?enc)"
    unfolding ls_def by (rule batches_enc_concat)
  have good: "\<forall>(ts, node, e) \<in> set ?enc. 8 \<le> length e \<and> parse e = Some (the (parse e))"
  proof (clarify)
    fix ts node e assume "(ts, node, e) \<in> set ?enc"
    then obtain b where "b \<in> set bs" "(ts, node, e) \<in> set (batch_enc ser b)" by auto
    then show "8 \<le> length e \<and> parse e = Some (the (parse e))" using ok batch_enc_ok by blast
  qed
  have "tx_logs_to_proto_and_timestamp fuel parse (concat ls) =
      Done (map (\<lambda>(ts, node, e). (the (parse e), ts, node)) ?enc)"
    unfolding tx_logs_to_proto_and_timestamp_def
    using tx_logs_loop_reads[of "[]" ?enc parse "\<lambda>e. the (parse e)" fuel "concat ls"]
      batches_enc_length[OF ok] size fuel good ls by (simp del: length_concat)
  moreover have "map (wal_batch ser cno) bs = map Some ls"
    using wal_batch_enc[OF cno, of ser parse] ok by (simp add: ls_def)
  ultimately show ?thesis using batches_enc_decode[OF ok] by auto
qed

theorem log_batches_round_trip_witness:
  "\<exists>ls. map (wal_batch id 7) [(1, 100, [replicate 8 1, replicate 9 2]), (2, 200, [replicate 10 3])] = map Some ls \<and>
    tx_logs_to_proto_and_timestamp 3 Some (concat ls) =
      Done [(replicate 8 1, 100, 1), (replicate 9 2, 0, 1), (replicate 10 3, 200, 2)]"
  using log_batches_round_trip[of 7 "[(1, 100, [replicate 8 1, replicate 9 2]), (2, 200, [replicate 10 3])]" id Some 3]
  by (simp add: batch_ok_def batch_logs_def)

text \<open>
  A transaction log whose serialisation is shorter than eight bytes
  aborts the writer: \<^verbatim>\<open>copy_payload\<close> asks \<^verbatim>\<open>get_data\<close> for a whole
  word at the payload's offset and the assertion there fails.
\<close>

theorem wal_short_payload_aborts:
  assumes "length e < 8"
  shows "wal_async_append node cno [e] = None"
  using assms by (simp add: wal_async_append_def lb_format_def lb_copy_payload_def lb_get_data_def
      lb_set_payload_size_def lb_set_timestamp_def lb_set_node_id_def lb_write_u64_def)

theorem wal_short_payload_aborts_witness: "wal_async_append 1 7 [replicate 7 0] = None"
  using wal_short_payload_aborts[of "replicate 7 0"] by simp

end
