(* ===== verification/Ids.thy ===== *)
theory Ids
  imports Tx_Log
begin

text \<open>
  Identifiers and keys: node identifiers of \<^verbatim>\<open>include/common/id.h\<close>, the
  64-bit composition of \<^verbatim>\<open>make_int.h\<close>, the 128-bit keys of
  \<^verbatim>\<open>key128.h\<close> with their comparator, the composite primary keys of
  \<^verbatim>\<open>make_key.h\<close> and the routing of \<^verbatim>\<open>shard2node.h\<close>.
\<close>

unbundle bit_operations_syntax

section \<open>Node identifiers\<close>

abbreviation (input) "CCB_FLAG \<equiv> (1 :: u32)"
abbreviation (input) "RLB_FLAG \<equiv> (2 :: u32)"
abbreviation (input) "DSB_FLAG \<equiv> (4 :: u32)"

datatype block_type_id_t = BLOCK_TYPE_ID_CCB | BLOCK_TYPE_ID_RLB | BLOCK_TYPE_ID_DSB | BLOCK_TYPE_SIZE

definition node_type_id_2_name :: "block_type_id_t \<Rightarrow> string option" where
  "node_type_id_2_name t = (case t of
     BLOCK_TYPE_ID_CCB \<Rightarrow> Some ''CCB'' | BLOCK_TYPE_ID_RLB \<Rightarrow> Some ''RLB'' | BLOCK_TYPE_ID_DSB \<Rightarrow> Some ''DSB''
   | BLOCK_TYPE_SIZE \<Rightarrow> None)"

definition MAKE_NODE_ID :: "az_id_t \<Rightarrow> shard_id_t \<Rightarrow> string list \<Rightarrow> node_id_t" where
  "MAKE_NODE_ID az sd_id block_types =
     push_bit 16 sd_id OR push_bit 8 az
       OR (if ''CCB'' \<in> set block_types then CCB_FLAG else 0)
       OR (if ''RLB'' \<in> set block_types then RLB_FLAG else 0)
       OR (if ''DSB'' \<in> set block_types then DSB_FLAG else 0)"

definition TO_RG_ID :: "node_id_t \<Rightarrow> u32" where
  "TO_RG_ID n = drop_bit 16 n"

definition TO_AZ_ID :: "node_id_t \<Rightarrow> u32" where
  "TO_AZ_ID n = drop_bit 8 (n AND 0xff00)"

definition is_ccb_block :: "node_id_t \<Rightarrow> bool" where
  "is_ccb_block n \<longleftrightarrow> n AND CCB_FLAG \<noteq> 0"

definition is_rlb_block :: "node_id_t \<Rightarrow> bool" where
  "is_rlb_block n \<longleftrightarrow> n AND RLB_FLAG \<noteq> 0"

definition is_dsb_block :: "node_id_t \<Rightarrow> bool" where
  "is_dsb_block n \<longleftrightarrow> n AND DSB_FLAG \<noteq> 0"

definition is_block_type :: "node_id_t \<Rightarrow> block_type_id_t \<Rightarrow> bool" where
  "is_block_type n t = (case t of
     BLOCK_TYPE_ID_DSB \<Rightarrow> is_dsb_block n | BLOCK_TYPE_ID_CCB \<Rightarrow> is_ccb_block n
   | BLOCK_TYPE_ID_RLB \<Rightarrow> is_rlb_block n | BLOCK_TYPE_SIZE \<Rightarrow> False)"

definition node_id_of_shard :: "shard_id_t \<Rightarrow> node_id_t option \<Rightarrow> (shard_id_t \<Rightarrow> node_id_t option) \<Rightarrow> node_id_t option" where
  "node_id_of_shard shard opt_node shard2node = (case opt_node of Some n \<Rightarrow> Some n | None \<Rightarrow> shard2node shard)"

section \<open>Composite integers and keys\<close>

definition make_uint64 :: "u32 \<Rightarrow> u32 \<Rightarrow> u64" where
  "make_uint64 a b = push_bit 32 (ucast a) OR ucast b"

definition higher_uint32 :: "u64 \<Rightarrow> u32" where
  "higher_uint32 i = ucast (drop_bit 32 i)"

definition lower_uint32 :: "u64 \<Rightarrow> u32" where
  "lower_uint32 i = ucast (i AND 0xffff0000)"

definition make_customer_key :: "u64 \<Rightarrow> u64 \<Rightarrow> u64 \<Rightarrow> u64 \<Rightarrow> u64 \<Rightarrow> u64" where
  "make_customer_key wid did cid num_warehouse num_district =
     wid + did * (num_warehouse + 1) + cid * (num_warehouse + 1) * (num_district + 1)"

definition make_stock_key :: "u64 \<Rightarrow> u64 \<Rightarrow> u64 \<Rightarrow> u64" where
  "make_stock_key wid iid num_warehouse = wid + iid * (num_warehouse + 1)"

definition make_order_key :: "u64 \<Rightarrow> u64 \<Rightarrow> u64 \<Rightarrow> u64 \<Rightarrow> u64 \<Rightarrow> u64" where
  "make_order_key wid did oid num_warehouse num_district =
     wid + did * (num_warehouse + 1) + oid * (num_warehouse + 1) * (num_district + 1)"

definition make_district_key :: "u64 \<Rightarrow> u64 \<Rightarrow> u64 \<Rightarrow> u64" where
  "make_district_key wid did num_warehouse = wid + did * (num_warehouse + 1)"

definition make_order_line_key :: "u64 \<Rightarrow> u64 \<Rightarrow> u64 \<Rightarrow> u64 \<Rightarrow> u64 \<Rightarrow> u64 \<Rightarrow> u64 \<Rightarrow> u64" where
  "make_order_line_key wid did oid olid num_warehouse num_district num_order =
     wid + did * (num_warehouse + 1) + oid * (num_warehouse + 1) * (num_district + 1)
       + (num_order + 1) * (num_warehouse + 1) * (num_district + 1) * olid"

definition make_key128 :: "u64 \<Rightarrow> u64 \<Rightarrow> u8 list" where
  "make_key128 xid index = u64_bytes xid @ u64_bytes index"

definition key128_long1 :: "u8 list \<Rightarrow> u64" where
  "key128_long1 k = bytes_u64 (take 8 k)"

definition key128_long2 :: "u8 list \<Rightarrow> u64" where
  "key128_long2 k = bytes_u64 (take 8 (drop 8 k))"

text \<open>\<^verbatim>\<open>key128_comparator\<close>; both operations abort when their assertion fails.\<close>

definition key128_compare :: "u8 list \<Rightarrow> u8 list \<Rightarrow> int option" where
  "key128_compare a b = do {
     boost_assert (length a = 16 \<or> length b = 16);
     Some (if key128_long1 a = key128_long1 b then
             (if key128_long2 a = key128_long2 b then 0 else if key128_long2 a < key128_long2 b then - 1 else 1)
           else if key128_long1 a < key128_long1 b then - 1 else 1) }"

definition key128_equal :: "u8 list \<Rightarrow> u8 list \<Rightarrow> bool option" where
  "key128_equal a b = do {
     boost_assert (length a \<noteq> 16 \<or> length b \<noteq> 16);
     Some (key128_long1 a = key128_long1 b \<and> key128_long2 a = key128_long2 b) }"

section \<open>Properties\<close>

lemma flag_bits:
  "bit (if b then 1 else 0 :: u32) n \<longleftrightarrow> b \<and> n = 0"
  "bit (if b then 2 else 0 :: u32) n \<longleftrightarrow> b \<and> n = 1"
  "bit (if b then 4 else 0 :: u32) n \<longleftrightarrow> b \<and> n = 2"
proof -
  have two: "(2 :: u32) = push_bit 1 1" and four: "(4 :: u32) = push_bit 2 1" by simp_all
  show "bit (if b then 1 else 0 :: u32) n \<longleftrightarrow> b \<and> n = 0" by (simp add: bit_simps)
  show "bit (if b then 2 else 0 :: u32) n \<longleftrightarrow> b \<and> n = 1"
    unfolding two by (auto simp: bit_simps simp del: push_bit_of_1)
  show "bit (if b then 4 else 0 :: u32) n \<longleftrightarrow> b \<and> n = 2"
    unfolding four by (auto simp: bit_simps simp del: push_bit_of_1)
qed

lemma small_word_bit: "unat (w :: u32) < 2 ^ k \<Longrightarrow> k \<le> n \<Longrightarrow> \<not> bit w n"
proof -
  assume "unat w < 2 ^ k" "k \<le> n"
  then have "take_bit k w = w" by (simp add: word_unat_eq_iff unsigned_take_bit_eq take_bit_nat_eq_self)
  then show "\<not> bit w n" using \<open>k \<le> n\<close> by (metis bit_take_bit_iff not_le)
qed

lemma bit_mask_ff00: "bit (0xff00 :: u32) n \<longleftrightarrow> 8 \<le> n \<and> n < 16"
proof -
  have "(0xff00 :: u32) = push_bit 8 (mask 8)" by (simp add: mask_eq_exp_minus_1)
  then have "bit (0xff00 :: u32) n \<longleftrightarrow> bit (push_bit 8 (mask 8) :: u32) n" by simp
  then show ?thesis by (auto simp: bit_simps simp del: bit_numeral_iff)
qed

text \<open>
  (C32) A node identifier carries its parts: the shard, the availability zone
  and the block types a node was built from are read back from it, as long as
  the zone fits eight bits and the shard sixteen.
\<close>

theorem node_id_round_trip:
  assumes "unat az < 2 ^ 8" "unat sd < 2 ^ 16" "n = MAKE_NODE_ID az sd types"
  shows "TO_RG_ID n = sd \<and> TO_AZ_ID n = az \<and> (is_ccb_block n \<longleftrightarrow> ''CCB'' \<in> set types) \<and>
    (is_rlb_block n \<longleftrightarrow> ''RLB'' \<in> set types) \<and> (is_dsb_block n \<longleftrightarrow> ''DSB'' \<in> set types)"
proof -
  have az: "\<not> bit az i" if "8 \<le> i" for i using small_word_bit[OF assms(1) that] .
  have sd: "\<not> bit sd i" if "16 \<le> i" for i using small_word_bit[OF assms(2) that] .
  have n: "bit n i \<longleftrightarrow> (16 \<le> i \<and> i < 32 \<and> bit sd (i - 16)) \<or> (8 \<le> i \<and> i < 32 \<and> bit az (i - 8)) \<or>
      (''CCB'' \<in> set types \<and> i = 0) \<or> (''RLB'' \<in> set types \<and> i = 1) \<or> (''DSB'' \<in> set types \<and> i = 2)" for i
    unfolding assms(3) MAKE_NODE_ID_def by (auto simp: bit_or_iff flag_bits bit_push_bit_iff)
  have rg: "TO_RG_ID n = sd"
    by (rule bit_word_eqI) (auto simp: TO_RG_ID_def bit_drop_bit_eq n az sd intro: ccontr)
  have tz: "TO_AZ_ID n = az"
  proof (rule bit_word_eqI)
    fix i
    show "bit (TO_AZ_ID n) i \<longleftrightarrow> bit az i"
      unfolding TO_AZ_ID_def bit_drop_bit_eq comp_apply bit_and_iff bit_mask_ff00
      by (cases "i < 8") (simp_all add: n az)
  qed
  have flag: "n AND push_bit k 1 \<noteq> 0 \<longleftrightarrow> bit n k" for k
    by (simp add: bit_iff_and_push_bit_not_eq_0)
  show ?thesis
    using rg tz flag[of 0] flag[of 1] flag[of 2]
    by (simp add: is_ccb_block_def is_rlb_block_def is_dsb_block_def n)
qed

theorem node_id_round_trip_witness:
  "TO_RG_ID (MAKE_NODE_ID 2 3 [''CCB'', ''RLB'']) = 3 \<and> TO_AZ_ID (MAKE_NODE_ID 2 3 [''CCB'', ''RLB'']) = 2 \<and>
   is_rlb_block (MAKE_NODE_ID 2 3 [''CCB'', ''RLB'']) \<and> \<not> is_dsb_block (MAKE_NODE_ID 2 3 [''CCB'', ''RLB''])"
  using node_id_round_trip[of 2 3 _ "[''CCB'', ''RLB'']", OF _ _ refl] by simp

lemma mixed_radix_inj:
  fixes w w' d d' W :: nat
  assumes "w + d * (W + 1) = w' + d' * (W + 1)" "w \<le> W" "w' \<le> W"
  shows "w = w' \<and> d = d'"
proof -
  have div: "(v + e * n) div n = e" if "v < n" for v e n :: nat using that by simp
  have "(w + d * (W + 1)) div (W + 1) = d" "(w' + d' * (W + 1)) div (W + 1) = d'"
    using assms(2,3) by (intro div; simp)+
  then have "d = d'" using assms(1) by simp
  then show ?thesis using assms(1) by simp
qed

lemma mixed_radix_bound:
  fixes w d W D :: nat
  assumes "w \<le> W" "d \<le> D"
  shows "w + d * (W + 1) < (W + 1) * (D + 1)"
proof -
  have "d * (W + 1) \<le> D * (W + 1)" using assms(2) by (rule mult_right_mono) simp
  then show ?thesis using assms(1) by (simp add: algebra_simps)
qed

definition order_line_nat :: "nat \<Rightarrow> nat \<Rightarrow> nat \<Rightarrow> nat \<Rightarrow> nat \<Rightarrow> nat \<Rightarrow> nat \<Rightarrow> nat" where
  "order_line_nat w d oi ol W D Or = w + (d + (oi + ol * (Or + 1)) * (D + 1)) * (W + 1)"

lemma make_order_line_key_nat:
  "make_order_line_key wid did oid olid W D Or =
     of_nat (order_line_nat (unat wid) (unat did) (unat oid) (unat olid) (unat W) (unat D) (unat Or))"
  by (simp add: make_order_line_key_def order_line_nat_def algebra_simps)

lemma order_line_nat_bound:
  assumes "w \<le> W" "d \<le> D" "oi \<le> Or" "ol \<le> L"
  shows "order_line_nat w d oi ol W D Or < (W + 1) * ((D + 1) * ((Or + 1) * (L + 1)))"
proof -
  have "oi + ol * (Or + 1) \<le> (Or + 1) * (L + 1) - 1" using mixed_radix_bound[OF assms(3,4)] by simp
  from mixed_radix_bound[OF assms(2) this]
  have "d + (oi + ol * (Or + 1)) * (D + 1) \<le> (D + 1) * ((Or + 1) * (L + 1)) - 1" by simp
  from mixed_radix_bound[OF assms(1) this] show ?thesis by (simp add: order_line_nat_def)
qed

text \<open>
  (C33) Order lines have distinct primary keys: within the configured ranges of
  warehouses, districts, orders and lines the 64-bit key is injective,
  provided the product of the ranges does not exceed \<^term>\<open>2 ^ 64 :: nat\<close>.
\<close>

theorem order_line_key_injective:
  fixes wid did oid olid wid' did' oid' olid' W D Or L :: u64
  assumes "wid \<le> W" "did \<le> D" "oid \<le> Or" "olid \<le> L" "wid' \<le> W" "did' \<le> D" "oid' \<le> Or" "olid' \<le> L"
    and "(unat W + 1) * ((unat D + 1) * ((unat Or + 1) * (unat L + 1))) \<le> 2 ^ 64"
    and "make_order_line_key wid did oid olid W D Or = make_order_line_key wid' did' oid' olid' W D Or"
  shows "wid = wid' \<and> did = did' \<and> oid = oid' \<and> olid = olid'"
proof -
  let ?k = "\<lambda>w d oi ol. order_line_nat (unat w) (unat d) (unat oi) (unat ol) (unat W) (unat D) (unat Or)"
  have "?k wid did oid olid < 2 ^ 64" "?k wid' did' oid' olid' < 2 ^ 64"
    using order_line_nat_bound assms(1-9) by (meson less_le_trans word_le_nat_alt)+
  then have "?k wid did oid olid = ?k wid' did' oid' olid'"
    using assms(10) unfolding make_order_line_key_nat by (metis unat_of_nat_u64)
  then have a: "unat wid = unat wid'" and
    b: "unat did + (unat oid + unat olid * (unat Or + 1)) * (unat D + 1) = unat did' + (unat oid' + unat olid' * (unat Or + 1)) * (unat D + 1)"
    unfolding order_line_nat_def using mixed_radix_inj assms(1,5) by (metis word_le_nat_alt)+
  from b have c: "unat did = unat did'" and d: "unat oid + unat olid * (unat Or + 1) = unat oid' + unat olid' * (unat Or + 1)"
    using mixed_radix_inj assms(2,6) by (metis word_le_nat_alt)+
  from d have "unat oid = unat oid'" "unat olid = unat olid'"
    using mixed_radix_inj assms(3,7) by (metis word_le_nat_alt)+
  with a c show ?thesis by (simp add: word_unat_eq_iff)
qed

theorem order_line_key_injective_witness:
  "make_order_line_key 1 2 3 4 10 10 3000 \<noteq> make_order_line_key 1 2 4 3 10 10 3000"
  using order_line_key_injective[of 1 10 2 10 3 3000 4 15 1 2 4 3] by auto

text \<open>
  The keys of the row store are ordered by table and then by tuple: on
  the keys the store builds, \<^verbatim>\<open>Compare\<close> is the lexicographic order of the
  two words, while \<^verbatim>\<open>Equal\<close> aborts on every such pair, because its
  assertion demands that one of the keys does not have 16 bytes.
\<close>

theorem key128_order:
  "key128_compare (make_key128 a b) (make_key128 c d) =
     Some (if a = c \<and> b = d then 0 else if a < c \<or> a = c \<and> b < d then - 1 else 1) \<and>
   key128_equal (make_key128 a b) (make_key128 c d) = None"
  by (simp add: key128_compare_def key128_equal_def make_key128_def key128_long1_def key128_long2_def)

lemma make_uint64_bit:
  "bit (make_uint64 a b) n \<longleftrightarrow> n < 64 \<and> (if n < 32 then bit b n else bit a (n - 32))"
  by (auto simp: make_uint64_def bit_simps dest: bit_imp_le_length)

text \<open>
  Two 32-bit halves make distinct 64-bit identifiers and the upper half is
  read back, but \<^verbatim>\<open>lower_uint32\<close> keeps only the upper sixteen bits of
  the lower half.
\<close>

theorem make_uint64_halves:
  "higher_uint32 (make_uint64 a b) = a \<and> lower_uint32 (make_uint64 a b) = b AND 0xffff0000 \<and>
   (make_uint64 a b = make_uint64 a' b' \<longleftrightarrow> a = a' \<and> b = b')"
proof -
  have hi: "higher_uint32 (make_uint64 x y) = x" for x y
    by (rule bit_word_eqI) (auto simp: higher_uint32_def make_uint64_bit bit_simps)
  have lo: "ucast (make_uint64 x y) = y" for x y :: u32
    by (rule bit_word_eqI) (auto simp: make_uint64_bit bit_simps)
  have "lower_uint32 (make_uint64 a b) = ucast (make_uint64 a b) AND 0xffff0000"
    unfolding lower_uint32_def by (simp add: unsigned_and_eq)
  then show ?thesis using hi lo by metis
qed

end
