(* ===== verification/Raft.thy ===== *)
theory Raft
  imports Ids
begin

text \<open>
  The replicated log, \<^verbatim>\<open>src/raft/state_machine.cpp\<close>: one node of a Raft
  group.  The record \<^verbatim>\<open>state_machine\<close> holds the members of the class;
  every handler is a function from the state to the state, \<^term>\<open>None\<close> being a
  failed assertion, a \<^verbatim>\<open>PANIC\<close> or an access outside a container.

  Effects are recorded in ghost fields: \<^verbatim>\<open>out'\<close> lists the messages sent
  with their destination, \<^verbatim>\<open>effects'\<close> the calls of the three callbacks,
  \<^verbatim>\<open>timer'\<close> the armed timer.  A write to the log service is queued on
  \<^verbatim>\<open>log_strand'\<close>; when it has been executed (\<^verbatim>\<open>written'\<close>) its
  continuation is queued on \<^verbatim>\<open>strand'\<close>, from where it runs between two
  handlers, as \<^verbatim>\<open>write_log\<close> and \<^verbatim>\<open>write_state\<close> post it.

  Terms and log indices are 64-bit counters that start at 0 and advance by
  one; they are modelled as natural numbers.  The places where the code
  narrows one to 32 bits are written out.
\<close>

section \<open>Messages and state\<close>

datatype raft_state = RAFT_STATE_LEADER | RAFT_STATE_FOLLOWER | RAFT_STATE_CANDIDATE

record raft_log_entry =
  e_term :: nat
  e_index :: nat
  e_logs :: "u8 list"

record raft_log_state =
  ls_term :: nat
  ls_vote :: node_id_t
  ls_commit_index :: nat
  ls_consistency_index :: nat

record request_vote_request =
  rq_source :: node_id_t
  rq_dest :: node_id_t
  rq_term :: nat
  rq_last_log_index :: nat
  rq_last_log_term :: nat

record request_vote_response =
  rp_source :: node_id_t
  rp_dest :: node_id_t
  rp_term :: nat
  rp_vote_granted :: bool

record append_entries_request =
  ae_source :: node_id_t
  ae_dest :: node_id_t
  ae_term :: nat
  ae_prev_log_index :: nat
  ae_prev_log_term :: nat
  ae_commit_index :: nat
  ae_consistency_index :: nat
  ae_ts_append_send :: nat
  ae_heart_beat :: bool
  ae_tick_ms :: nat
  ae_entries :: "raft_log_entry list"

record append_entries_response =
  ar_source :: node_id_t
  ar_dest :: node_id_t
  ar_term :: nat
  ar_success :: bool
  ar_match_index :: nat
  ar_lead :: node_id_t
  ar_last_log_index :: nat
  ar_heart_beat :: bool
  ar_ts_append_send :: nat
  ar_write_log :: bool

record pre_vote_response =
  pv_source :: node_id_t
  pv_dest :: node_id_t
  pv_term :: nat
  pv_state :: raft_state
  pv_granted :: bool

record transfer_leader =
  tl_source :: node_id_t
  tl_dest :: node_id_t
  tl_leader_transferee :: node_id_t

datatype raft_message =
    RAFT_PRE_VOTE_REQ node_id_t node_id_t
  | RAFT_PRE_VOTE_RESP pre_vote_response
  | RAFT_REQ_VOTE_REQ request_vote_request
  | RAFT_REQ_VOTE_RESP request_vote_response
  | RAFT_APPEND_ENTRIES_REQ append_entries_request
  | RAFT_APPEND_ENTRIES_RESP append_entries_response
  | RAFT_TRANSFER_LEADER transfer_leader
  | RAFT_TRANSFER_NOTIFY node_id_t

record progress =
  p_node_id :: node_id_t
  p_match_index :: nat
  p_next_index :: nat
  p_append_log_num :: nat
  p_send_next_index :: nat
  p_last_reject :: bool

definition new_progress :: "nat \<Rightarrow> progress" where
  "new_progress n = \<lparr>p_node_id = 0, p_match_index = 0, p_next_index = 1, p_append_log_num = n,
     p_send_next_index = 1, p_last_reject = False\<rparr>"

text \<open>The callbacks that \<^verbatim>\<open>write_log\<close> and \<^verbatim>\<open>write_state\<close> are given.\<close>

datatype raft_cont =
    Cont_request_vote
  | Cont_leader_append nat
  | Cont_follower_append append_entries_request nat bool

datatype log_write = Write_log "raft_log_entry list" | Write_state raft_log_state

datatype raft_effect =
    On_become_leader nat
  | On_become_follower nat
  | On_commit_entries EC bool "raft_log_entry list"

record state_machine =
  node_id' :: node_id_t
  tick_count' :: nat
  progress' :: "(node_id_t \<times> progress) list"
  commit_index' :: nat
  current_term' :: nat
  state' :: raft_state
  pre_vote_responded' :: "(node_id_t \<times> pre_vote_response) list"
  votes_responded' :: "node_id_t list"
  votes_granted' :: "node_id_t list"
  has_voted_for' :: bool
  voted_for' :: node_id_t
  leader_id' :: node_id_t
  nodes_ids' :: "node_id_t list"
  priority_replica_node' :: node_id_t
  log' :: "raft_log_entry list"
  log_state' :: raft_log_state
  consistent_log_index' :: nat
  raft_tick_ms' :: nat
  follower_tick_max' :: nat
  append_log_entries_batch_max' :: nat
  append_log_entries_batch_min' :: nat
  clients' :: "node_id_t list"
  stopped' :: bool
  tx_logs' :: "u8 list list"
  log_strand' :: "(log_write \<times> raft_cont option) list"
  strand' :: "raft_cont list"
  written' :: "log_write list"
  timer' :: "nat option"
  out' :: "(node_id_t \<times> raft_message) list"
  effects' :: "raft_effect list"

section \<open>Indices and the last entry\<close>

text \<open>A 64-bit count stored in a \<^verbatim>\<open>uint32_t\<close>.\<close>

definition to_u32 :: "nat \<Rightarrow> nat" where
  "to_u32 n = unat (of_nat n :: u32)"

definition offset_to_log_index :: "nat \<Rightarrow> state_machine \<Rightarrow> nat option" where
  "offset_to_log_index off s = do {
     boost_assert (off \<le> length (log' s));
     Some (consistent_log_index' s + off + 1) }"

definition log_index_to_offset :: "nat \<Rightarrow> state_machine \<Rightarrow> nat option" where
  "log_index_to_offset index s = do {
     boost_assert (index \<ge> consistent_log_index' s + 1);
     Some (index - consistent_log_index' s - 1) }"

definition last_log_index :: "state_machine \<Rightarrow> nat" where
  "last_log_index s = (if log' s = [] then consistent_log_index' s
     else consistent_log_index' s + (length (log' s) - 1) + 1)"

definition last_log_term :: "state_machine \<Rightarrow> nat" where
  "last_log_term s = (if log' s = [] then 0 else e_term (last (log' s)))"

definition check_log_index :: "state_machine \<Rightarrow> unit option" where
  "check_log_index s = boost_assert (length (log' s) < 2 \<or>
     e_index (log' s ! (length (log' s) - 2)) + 1 = e_index (log' s ! (length (log' s) - 1)))"

section \<open>Sending, callbacks and writes\<close>

text \<open>
  \<^verbatim>\<open>async_send\<close> fails when no client of the destination is known; the
  callers only log the failure.
\<close>

definition raft_async_send :: "node_id_t \<Rightarrow> raft_message \<Rightarrow> state_machine \<Rightarrow> state_machine" where
  "raft_async_send to m s = (if to \<in> set (clients' s) then s\<lparr>out' := out' s @ [(to, m)]\<rparr> else s)"

definition emit_effect :: "raft_effect \<Rightarrow> state_machine \<Rightarrow> state_machine" where
  "emit_effect e s = s\<lparr>effects' := effects' s @ [e]\<rparr>"

definition write_log :: "raft_log_entry list \<Rightarrow> raft_cont option \<Rightarrow> state_machine \<Rightarrow> state_machine" where
  "write_log logs fn s = s\<lparr>log_strand' := log_strand' s @ [(Write_log logs, fn)]\<rparr>"

definition write_state :: "raft_log_state \<Rightarrow> raft_cont option \<Rightarrow> state_machine \<Rightarrow> state_machine" where
  "write_state st fn s = s\<lparr>log_strand' := log_strand' s @ [(Write_state st, fn)]\<rparr>"

definition become_follower :: "state_machine \<Rightarrow> state_machine" where
  "become_follower s = (emit_effect (On_become_follower (current_term' s)) s)\<lparr>state' := RAFT_STATE_FOLLOWER\<rparr>"

definition update_term :: "nat \<Rightarrow> state_machine \<Rightarrow> state_machine" where
  "update_term term s =
     (if term \<le> current_term' s then s
      else become_follower (s\<lparr>current_term' := term, has_voted_for' := False, voted_for' := 0\<rparr>))"

section \<open>Commit and consistency index\<close>

definition update_consistency_index :: "nat \<Rightarrow> state_machine \<Rightarrow> state_machine option" where
  "update_consistency_index index s = do {
     boost_assert (log' s = [] \<or> last_log_index s \<ge> index);
     if index < consistent_log_index' s + 10 then Some s
     else do {
       let index = index - 10;
       let removed = index - consistent_log_index' s;
       boost_assert (removed \<le> length (log' s));
       let st = (log_state' s)\<lparr>ls_consistency_index := index\<rparr>;
       Some (write_state st None
         (s\<lparr>log' := drop removed (log' s), consistent_log_index' := index, log_state' := st\<rparr>)) } }"

definition update_commit_index :: "nat \<Rightarrow> state_machine \<Rightarrow> state_machine option" where
  "update_commit_index index s =
     (if index \<le> commit_index' s \<or> log' s = [] then Some s
      else do {
        let commit_index = min (last_log_index s) index;
        let prev_commit_index = commit_index' s;
        if prev_commit_index = commit_index then Some s
        else do {
          off_begin \<leftarrow> (if prev_commit_index \<noteq> 0 then map_option Suc (log_index_to_offset prev_commit_index s) else Some 0);
          off_end \<leftarrow> (if commit_index \<noteq> 0 then map_option Suc (log_index_to_offset commit_index s) else Some 0);
          if off_begin \<ge> off_end then Some s
          else do {
            let vec = drop off_begin (take off_end (log' s));
            let st = (log_state' s)\<lparr>ls_commit_index := commit_index\<rparr>;
            let s = write_state st None (s\<lparr>log_state' := st\<rparr>);
            let s = emit_effect (On_commit_entries EC_OK (state' s = RAFT_STATE_LEADER) vec) s;
            Some (s\<lparr>commit_index' := commit_index\<rparr>) } } })"

text \<open>\<^verbatim>\<open>progress_[id]\<close> of an absent node constructs a \<^verbatim>\<open>progress\<close>, which panics.\<close>

definition progress_of :: "node_id_t \<Rightarrow> state_machine \<Rightarrow> progress option" where
  "progress_of nid s = map_of (progress' s) nid"

definition set_progress :: "node_id_t \<Rightarrow> progress \<Rightarrow> state_machine \<Rightarrow> state_machine" where
  "set_progress nid p s = s\<lparr>progress' := AList.update nid p (progress' s)\<rparr>"

fun count_progress :: "(progress \<Rightarrow> bool) \<Rightarrow> node_id_t list \<Rightarrow> state_machine \<Rightarrow> nat option" where
  "count_progress P [] s = Some 0"
| "count_progress P (nid # ids) s = do {
     p \<leftarrow> progress_of nid s;
     n \<leftarrow> count_progress P ids s;
     Some (if P p then Suc n else n) }"

text \<open>The loops run from the last offset down; the first argument is the offset plus one.\<close>

fun commit_scan :: "nat \<Rightarrow> state_machine \<Rightarrow> nat option" where
  "commit_scan 0 s = Some 0"
| "commit_scan (Suc i) s = do {
     log_index \<leftarrow> offset_to_log_index i s;
     n \<leftarrow> count_progress (\<lambda>p. p_match_index p \<ge> log_index) (nodes_ids' s) s;
     if n * 2 > length (nodes_ids' s) then Some log_index else commit_scan i s }"

definition leader_advance_commit_index :: "state_machine \<Rightarrow> state_machine option" where
  "leader_advance_commit_index s =
     (if state' s \<noteq> RAFT_STATE_LEADER then Some s
      else do {
        new_commit_index \<leftarrow> commit_scan (length (log' s)) s;
        boost_assert (new_commit_index \<le> last_log_index s);
        if new_commit_index > 0 then do {
          off \<leftarrow> log_index_to_offset new_commit_index s;
          boost_assert (off < length (log' s));
          if e_term (log' s ! off) \<le> current_term' s then update_commit_index new_commit_index s else Some s }
        else Some s })"

fun consistency_scan :: "nat \<Rightarrow> state_machine \<Rightarrow> nat option" where
  "consistency_scan 0 s = Some 0"
| "consistency_scan (Suc i) s = do {
     log_index \<leftarrow> offset_to_log_index i s;
     n \<leftarrow> count_progress (\<lambda>p. p_match_index p \<ge> log_index \<and> p_next_index p \<ge> log_index) (nodes_ids' s) s;
     if n = length (nodes_ids' s) then
       Some (if length (log' s) > 1 \<and> commit_index' s \<ge> log_index \<and> last_log_index s \<ge> log_index then log_index else 0)
     else consistency_scan i s }"

definition leader_advance_consistency_index :: "state_machine \<Rightarrow> state_machine option" where
  "leader_advance_consistency_index s =
     (if state' s \<noteq> RAFT_STATE_LEADER then Some s
      else do {
        index \<leftarrow> consistency_scan (length (log' s)) s;
        if index > 0 then do {
          off \<leftarrow> log_index_to_offset index s;
          boost_assert (off < length (log' s));
          if e_term (log' s ! off) = current_term' s then update_consistency_index index s else Some s }
        else Some s })"

section \<open>Replication by the leader\<close>

text \<open>
  The first half of \<^verbatim>\<open>append_entries\<close> decides where to start and moves
  \<^verbatim>\<open>send_next_index_\<close>; the result is the index, zero when the tracer
  has none.
\<close>

definition send_position :: "progress \<Rightarrow> nat \<times> progress" where
  "send_position p =
     (let next_index = p_next_index p in
      if next_index = 0 then (0, p)
      else if \<not> p_last_reject p then
        (if next_index < p_send_next_index p then (p_send_next_index p, p)
         else (next_index, p\<lparr>p_send_next_index := next_index\<rparr>))
      else (next_index, p\<lparr>p_send_next_index := next_index\<rparr>))"

definition prev_term :: "nat \<Rightarrow> state_machine \<Rightarrow> nat option" where
  "prev_term prev_log_index s =
     (if prev_log_index > consistent_log_index' s then do {
        off \<leftarrow> log_index_to_offset prev_log_index s;
        boost_assert (off < length (log' s));
        Some (e_term (log' s ! off)) }
      else Some 0)"

definition send_offset :: "nat \<Rightarrow> state_machine \<Rightarrow> nat option" where
  "send_offset next_index s = (if next_index \<noteq> 0 then log_index_to_offset next_index s else Some 0)"

definition append_request :: "progress \<Rightarrow> nat \<Rightarrow> nat \<Rightarrow> nat \<Rightarrow> state_machine \<Rightarrow> append_entries_request" where
  "append_request tracer next_index start_offset prev_log_term s =
     (let entries = take (to_u32 (p_append_log_num tracer)) (drop start_offset (log' s)) in
      \<lparr>ae_source = node_id' s, ae_dest = p_node_id tracer, ae_term = current_term' s,
       ae_prev_log_index = next_index - 1, ae_prev_log_term = prev_log_term,
       ae_commit_index = commit_index' s, ae_consistency_index = consistent_log_index' s,
       ae_ts_append_send = 0, ae_heart_beat = (entries = []), ae_tick_ms = raft_tick_ms' s, ae_entries = entries\<rparr>)"

definition after_send :: "raft_log_entry list \<Rightarrow> progress \<Rightarrow> progress" where
  "after_send entries tracer =
     (if entries \<noteq> [] \<and> e_index (last entries) > 0 then tracer\<lparr>p_send_next_index := e_index (last entries) + 1\<rparr> else tracer)"

definition append_entries :: "node_id_t \<Rightarrow> state_machine \<Rightarrow> state_machine option" where
  "append_entries nid s = do {
     tracer \<leftarrow> progress_of nid s;
     let (next_index, tracer) = send_position tracer;
     start_offset \<leftarrow> send_offset next_index s;
     prev_log_term \<leftarrow> prev_term (next_index - 1) s;
     let ae = append_request tracer next_index start_offset prev_log_term s;
     boost_assert (\<forall>i < length (ae_entries ae). e_index (ae_entries ae ! i) = ae_prev_log_index ae + 1 + i);
     Some (raft_async_send (p_node_id tracer) (RAFT_APPEND_ENTRIES_REQ ae) (set_progress nid (after_send (ae_entries ae) tracer) s)) }"

text \<open>The assertions of a call that returns, and what it sends.\<close>

lemma append_entriesE:
  assumes "append_entries nid s = Some s'"
  obtains p nxt tr start pt ae where "progress_of nid s = Some p" "send_position p = (nxt, tr)"
    "send_offset nxt s = Some start" "prev_term (nxt - 1) s = Some pt"
    "ae = append_request tr nxt start pt s"
    "\<forall>i < length (ae_entries ae). e_index (ae_entries ae ! i) = ae_prev_log_index ae + 1 + i"
    "s' = raft_async_send (p_node_id tr) (RAFT_APPEND_ENTRIES_REQ ae) (set_progress nid (after_send (ae_entries ae) tr) s)"
proof -
  obtain p where p: "progress_of nid s = Some p"
    using assms by (auto simp: append_entries_def Option.bind_eq_Some_conv)
  obtain nxt tr where sp: "send_position p = (nxt, tr)" by (cases "send_position p")
  obtain start where st: "send_offset nxt s = Some start"
    using assms by (auto simp: append_entries_def p sp Option.bind_eq_Some_conv)
  obtain pt where pt: "prev_term (nxt - 1) s = Some pt"
    using assms unfolding append_entries_def by (auto simp: p sp st Option.bind_eq_Some_conv)
  have ok: "\<forall>i < length (ae_entries (append_request tr nxt start pt s)).
      e_index (ae_entries (append_request tr nxt start pt s) ! i) = ae_prev_log_index (append_request tr nxt start pt s) + 1 + i"
    and s': "s' = raft_async_send (p_node_id tr) (RAFT_APPEND_ENTRIES_REQ (append_request tr nxt start pt s))
      (set_progress nid (after_send (ae_entries (append_request tr nxt start pt s)) tr) s)"
    using assms unfolding append_entries_def by (simp_all add: p sp st pt[simplified] Let_def split: if_split_asm)
  show thesis using that[OF p sp st pt refl ok s'] .
qed

fun append_entries_to :: "node_id_t list \<Rightarrow> state_machine \<Rightarrow> state_machine option" where
  "append_entries_to [] s = Some s"
| "append_entries_to (nid # nids) s =
     (if nid \<noteq> node_id' s then do { s \<leftarrow> append_entries nid s; append_entries_to nids s }
      else append_entries_to nids s)"

definition leader_send_append_entries :: "state_machine \<Rightarrow> state_machine option" where
  "leader_send_append_entries s = append_entries_to (map fst (progress' s)) s"

text \<open>
  \<^verbatim>\<open>leader_append_entry\<close>; the argument is \<^term>\<open>None\<close> for the null entry of
  a heart beat, else the payload of the new entry.
\<close>

definition leader_append_entry :: "u8 list option \<Rightarrow> state_machine \<Rightarrow> (EC \<times> state_machine) option" where
  "leader_append_entry entries s =
     (if state' s \<noteq> RAFT_STATE_LEADER then Some (EC_NOT_LEADER, s)
      else case entries of
        Some bytes \<Rightarrow> do {
          index \<leftarrow> offset_to_log_index (length (log' s)) s;
          let e = \<lparr>e_term = current_term' s, e_index = index, e_logs = bytes\<rparr>;
          let s = s\<lparr>log' := log' s @ [e]\<rparr>;
          check_log_index s;
          Some (EC_OK, write_log [e] (Some (Cont_leader_append index)) s) }
      | None \<Rightarrow> do { s \<leftarrow> leader_send_append_entries s; Some (EC_OK, s) })"

definition set_log_state :: "state_machine \<Rightarrow> state_machine" where
  "set_log_state s = s\<lparr>log_state' := \<lparr>ls_term = current_term' s, ls_vote = voted_for' s,
     ls_commit_index = commit_index' s, ls_consistency_index = consistent_log_index' s\<rparr>\<rparr>"

definition leader_append_done :: "nat \<Rightarrow> state_machine \<Rightarrow> state_machine option" where
  "leader_append_done index s = do {
     let s = set_log_state s;
     let s = (case progress_of (node_id' s) s of
        Some p \<Rightarrow> set_progress (node_id' s) (p\<lparr>p_match_index := index, p_next_index := index + 1\<rparr>) s
      | None \<Rightarrow> s);
     leader_send_append_entries s }"

definition heart_beat :: "state_machine \<Rightarrow> state_machine option" where
  "heart_beat s = map_option snd (leader_append_entry None s)"

text \<open>
  The batch of \<^verbatim>\<open>send_append_log\<close>: the counting loop stops after
  \<^verbatim>\<open>append_log_entries_batch_max_ + 1\<close> elements or at the end of the queue.
\<close>

definition batch_count :: "state_machine \<Rightarrow> nat" where
  "batch_count s = min (append_log_entries_batch_max' s + 1) (length (tx_logs' s))"

definition send_append_log :: "bool \<Rightarrow> state_machine \<Rightarrow> (EC \<times> state_machine) option" where
  "send_append_log is_heart_beat s =
     (if tx_logs' s = [] then
        (if is_heart_beat then do { s \<leftarrow> heart_beat s; Some (EC_OK, s) } else Some (EC_OK, s))
      else do {
        let bytes = concat (take (batch_count s) (tx_logs' s));
        let s = s\<lparr>tx_logs' := drop (batch_count s) (tx_logs' s)\<rparr>;
        (r, s) \<leftarrow> leader_append_entry (Some bytes) s;
        Some (r, if r = EC_OK then s
          else emit_effect (On_commit_entries r (state' s = RAFT_STATE_LEADER) [\<lparr>e_term = 0, e_index = 0, e_logs = bytes\<rparr>]) s) })"

definition ccb_append_log :: "u64 \<Rightarrow> u8 list \<Rightarrow> state_machine \<Rightarrow> (EC \<times> state_machine) option" where
  "ccb_append_log ms logs s = do {
     logs \<leftarrow> stamp_batch ms logs;
     let s = s\<lparr>tx_logs' := tx_logs' s @ [logs]\<rparr>;
     if length (tx_logs' s) \<ge> append_log_entries_batch_min' s then send_append_log False s else Some (EC_OK, s) }"

section \<open>Elections\<close>

definition timeout_request_vote :: "state_machine \<Rightarrow> state_machine" where
  "timeout_request_vote s =
     (if priority_replica_node' s \<noteq> node_id' s \<and> priority_replica_node' s \<noteq> 0 then s
      else if state' s = RAFT_STATE_LEADER then s
      else
        let s = s\<lparr>tick_count' := 0, state' := RAFT_STATE_CANDIDATE, current_term' := current_term' s + 1,
                 has_voted_for' := False, voted_for' := 0, leader_id' := 0,
                 votes_responded' := [], votes_granted' := []\<rparr>;
            s = set_log_state s
        in write_state (log_state' s) (Some Cont_request_vote) s)"

definition pre_vote :: "state_machine \<Rightarrow> state_machine" where
  "pre_vote s = fold (\<lambda>nid s. raft_async_send nid (RAFT_PRE_VOTE_REQ (node_id' s) nid) s) (nodes_ids' s) s"

definition vote_request :: "node_id_t \<Rightarrow> state_machine \<Rightarrow> request_vote_request" where
  "vote_request nid s = \<lparr>rq_source = node_id' s, rq_dest = nid, rq_term = current_term' s,
     rq_last_log_index = last_log_index s, rq_last_log_term = last_log_term s\<rparr>"

definition request_vote :: "state_machine \<Rightarrow> state_machine" where
  "request_vote s =
     (if state' s \<noteq> RAFT_STATE_CANDIDATE then s
      else fold (\<lambda>nid s. if nid \<notin> set (votes_responded' s) then raft_async_send nid (RAFT_REQ_VOTE_REQ (vote_request nid s)) s else s)
        (nodes_ids' s) s)"

definition handle_pre_vote_request :: "node_id_t \<Rightarrow> state_machine \<Rightarrow> state_machine" where
  "handle_pre_vote_request source s = raft_async_send source
     (RAFT_PRE_VOTE_RESP \<lparr>pv_source = node_id' s, pv_dest = source, pv_term = current_term' s, pv_state = state' s,
        pv_granted = (priority_replica_node' s \<noteq> node_id' s)\<rparr>) s"

definition handle_pre_vote_response :: "pre_vote_response \<Rightarrow> state_machine \<Rightarrow> state_machine" where
  "handle_pre_vote_response r s =
     (if pv_source r \<notin> fst ` set (pre_vote_responded' s)
      then s\<lparr>pre_vote_responded' := (pv_source r, r) # pre_vote_responded' s\<rparr> else s)"

text \<open>The progress that \<^verbatim>\<open>become_leader\<close> sets for every node.\<close>

definition leader_progress :: "nat \<Rightarrow> node_id_t \<Rightarrow> state_machine \<Rightarrow> state_machine" where
  "leader_progress last_index nid s =
     (let p = (case progress_of nid s of Some p \<Rightarrow> p | None \<Rightarrow> new_progress (append_log_entries_batch_max' s)) in
      set_progress nid (p\<lparr>p_node_id := nid, p_next_index := last_index + 1, p_match_index := last_index,
        p_send_next_index := 0, p_append_log_num := append_log_entries_batch_max' s\<rparr>) s)"

definition become_leader :: "state_machine \<Rightarrow> state_machine option" where
  "become_leader s =
     (if state' s \<noteq> RAFT_STATE_CANDIDATE then Some s
      else if length (votes_granted' s) * 2 < length (nodes_ids' s) then Some s
      else do {
        let s = s\<lparr>state' := RAFT_STATE_LEADER, leader_id' := node_id' s\<rparr>;
        let s = fold (leader_progress (last_log_index s)) (nodes_ids' s) s;
        let s = emit_effect (On_become_leader (current_term' s)) s;
        heart_beat s })"

definition handle_request_vote_request :: "request_vote_request \<Rightarrow> state_machine \<Rightarrow> state_machine" where
  "handle_request_vote_request request s =
     (let s = update_term (rq_term request) s;
          src = rq_source request;
          last_term = last_log_term s;
          last_index = last_log_index s;
          log_ok = (rq_last_log_term request > last_term \<or>
            rq_last_log_term request = last_term \<and> rq_last_log_index request \<ge> last_index);
          granted = (rq_term request = current_term' s \<and> log_ok \<and>
            (has_voted_for' s \<and> voted_for' s = src \<or> \<not> has_voted_for' s));
          s = (if granted then s\<lparr>has_voted_for' := True, voted_for' := src\<rparr> else s)
      in raft_async_send src (RAFT_REQ_VOTE_RESP
           \<lparr>rp_source = node_id' s, rp_dest = src, rp_term = current_term' s, rp_vote_granted = granted\<rparr>) s)"

definition handle_request_vote_response :: "request_vote_response \<Rightarrow> state_machine \<Rightarrow> state_machine option" where
  "handle_request_vote_response response s =
     (let s = update_term (rp_term response) s in
      if rp_term response \<noteq> current_term' s then Some s
      else
        let s = s\<lparr>votes_responded' := List.insert (rp_source response) (votes_responded' s)\<rparr>;
            s = (if rp_vote_granted response then s\<lparr>votes_granted' := List.insert (rp_source response) (votes_granted' s)\<rparr> else s)
        in if state' s = RAFT_STATE_CANDIDATE \<and> length (votes_granted' s) * 2 > length (nodes_ids' s)
           then become_leader s else Some s)"

section \<open>Replication at the followers\<close>

definition response_append_entries_response ::
  "node_id_t \<Rightarrow> nat \<Rightarrow> bool \<Rightarrow> nat \<Rightarrow> bool \<Rightarrow> bool \<Rightarrow> state_machine \<Rightarrow> state_machine" where
  "response_append_entries_response to ts success match hb wl s = raft_async_send to
     (RAFT_APPEND_ENTRIES_RESP \<lparr>ar_source = node_id' s, ar_dest = to, ar_term = current_term' s, ar_success = success,
        ar_match_index = match, ar_lead = leader_id' s, ar_last_log_index = last_log_index s, ar_heart_beat = hb,
        ar_ts_append_send = ts, ar_write_log = wl\<rparr>) s"

definition follower_updates :: "append_entries_request \<Rightarrow> state_machine \<Rightarrow> state_machine option" where
  "follower_updates request s = do {
     s \<leftarrow> update_commit_index (ae_commit_index request) s;
     update_consistency_index (ae_consistency_index request) s }"

definition follower_append_done :: "append_entries_request \<Rightarrow> nat \<Rightarrow> bool \<Rightarrow> state_machine \<Rightarrow> state_machine option" where
  "follower_append_done request match has_write_log s =
     follower_updates request
       (response_append_entries_response (ae_source request) (ae_ts_append_send request) True match
          (ae_heart_beat request) has_write_log s)"

text \<open>
  Where the entries of a request start in the log: whether the preceding
  entry fits, the next index and offset, and the number of entries of the
  request that lie below the consistency index.
\<close>

definition request_position :: "append_entries_request \<Rightarrow> state_machine \<Rightarrow> (bool \<times> nat \<times> nat \<times> nat) option" where
  "request_position request s =
     (let prev = ae_prev_log_index request in
      if prev \<le> consistent_log_index' s then do {
        let next_index = consistent_log_index' s + 1;
        next_offset \<leftarrow> log_index_to_offset next_index s;
        Some (True, next_index, next_offset, consistent_log_index' s - prev) }
      else do {
        prev_log_offset \<leftarrow> log_index_to_offset prev s;
        let log_ok = (prev = 0 \<or>
          prev > 0 \<and> prev \<le> last_log_index s \<and>
            (length (log' s) = 0 \<or>
              length (log' s) > prev_log_offset \<and> ae_prev_log_term request = e_term (log' s ! prev_log_offset)));
        Some (log_ok, prev + 1, prev_log_offset + 1, 0) })"

text \<open>
  The comparison loop: \<^term>\<open>None\<close> inside is a conflict, else the number of
  entries that agree; a failed assertion is the outer \<^term>\<open>None\<close>.
\<close>

fun conflict_scan :: "raft_log_entry list \<Rightarrow> raft_log_entry list \<Rightarrow> nat option option" where
  "conflict_scan (l # ls) (r # rs) =
     (if e_term r \<noteq> e_term l then Some None
      else do {
        boost_assert (e_index r = e_index l);
        n \<leftarrow> conflict_scan ls rs;
        Some (map_option Suc n) })"
| "conflict_scan _ _ = Some (Some 0)"

fun push_entries :: "raft_log_entry list \<Rightarrow> state_machine \<Rightarrow> state_machine option" where
  "push_entries [] s = Some s"
| "push_entries (e # es) s = do {
     let s = s\<lparr>log' := log' s @ [e]\<rparr>;
     check_log_index s;
     push_entries es s }"

definition append_conflicting :: "append_entries_request \<Rightarrow> nat \<Rightarrow> nat \<Rightarrow> state_machine \<Rightarrow> state_machine option" where
  "append_conflicting request next_offset entries_append s = do {
     scan \<leftarrow> conflict_scan (drop next_offset (log' s)) (drop entries_append (ae_entries request));
     case scan of
       None \<Rightarrow> Some (s\<lparr>log' := take next_offset (log' s)\<rparr>)
     | Some n \<Rightarrow>
         let log_i = next_offset + n; req_i = entries_append + n; entry_size = length (ae_entries request) in
         if req_i < entry_size then do {
           let write_begin_off = to_u32 log_i;
           s \<leftarrow> push_entries (drop req_i (ae_entries request)) s;
           Some (write_log (drop write_begin_off (log' s))
             (Some (Cont_follower_append request (ae_prev_log_index request + entry_size) True)) s) }
         else follower_updates request
           (response_append_entries_response (ae_source request) (ae_ts_append_send request) True
              (ae_prev_log_index request + req_i) True False s) }"

definition append_at_end :: "append_entries_request \<Rightarrow> nat \<Rightarrow> state_machine \<Rightarrow> state_machine option" where
  "append_at_end request entries_append s = do {
     let vec = drop entries_append (ae_entries request);
     s \<leftarrow> push_entries vec s;
     Some (write_log vec
       (Some (Cont_follower_append request (ae_prev_log_index request + entries_append + length vec) (vec \<noteq> []))) s) }"

definition follower_append :: "append_entries_request \<Rightarrow> state_machine \<Rightarrow> state_machine option" where
  "follower_append request s = do {
     (log_ok, next_index, next_offset, entries_append) \<leftarrow> request_position request s;
     let src = ae_source request;
     let ts = ae_ts_append_send request;
     if \<not> log_ok then
       Some (response_append_entries_response src ts False 0 (ae_heart_beat request) False s)
     else if ae_entries request = [] then
       follower_updates request (response_append_entries_response src ts True (next_index - 1) True False s)
     else if length (log' s) > next_offset then append_conflicting request next_offset entries_append s
     else if length (log' s) = next_offset then append_at_end request entries_append s
     else Some s }"

definition handle_append_entries_request :: "append_entries_request \<Rightarrow> state_machine \<Rightarrow> state_machine option" where
  "handle_append_entries_request request s =
     (if ae_term request < current_term' s then
        Some (response_append_entries_response (ae_source request) (ae_ts_append_send request) False 0
          (ae_heart_beat request) False s)
      else if ae_term request > current_term' s then
        Some (become_follower (s\<lparr>tick_count' := 0, current_term' := ae_term request\<rparr>))
      else
        let s = s\<lparr>leader_id' := ae_source request, tick_count' := 0\<rparr> in
        (case state' s of
           RAFT_STATE_LEADER \<Rightarrow> Some s
         | RAFT_STATE_CANDIDATE \<Rightarrow> Some (become_follower s)
         | RAFT_STATE_FOLLOWER \<Rightarrow> follower_append request s))"

definition progress_success :: "nat \<Rightarrow> progress \<Rightarrow> progress" where
  "progress_success match p =
     p\<lparr>p_match_index := max (p_match_index p) match, p_next_index := max (p_next_index p) (match + 1)\<rparr>"

definition handle_append_entries_response :: "append_entries_response \<Rightarrow> state_machine \<Rightarrow> state_machine option" where
  "handle_append_entries_response response s = do {
     let s = update_term (ar_term response) s;
     let src = ar_source response;
     p \<leftarrow> progress_of src s;
     if ar_term response \<noteq> current_term' s then Some s
     else do {
       let p = p\<lparr>p_last_reject := \<not> ar_success response\<rparr>;
       if ar_success response then do {
         let s = set_progress src (progress_success (ar_match_index response) p) s;
         if \<not> ar_heart_beat response then leader_advance_commit_index s else Some s }
       else Some (set_progress src
         (if p_next_index p > 1 \<and> p_next_index p - 1 > consistent_log_index' s
          then p\<lparr>p_next_index := p_next_index p - 1\<rparr> else p) s) } }"

section \<open>Leadership transfer, ticks and start\<close>

definition handle_transfer_leader :: "transfer_leader \<Rightarrow> state_machine \<Rightarrow> state_machine option" where
  "handle_transfer_leader msg s =
     (let nid = tl_leader_transferee msg in
      if state' s = RAFT_STATE_FOLLOWER then
        Some (if leader_id' s \<noteq> 0 then raft_async_send (leader_id' s) (RAFT_TRANSFER_LEADER msg) s else s)
      else if nid = node_id' s then Some s
      else case progress_of nid s of
        None \<Rightarrow> Some s
      | Some t \<Rightarrow>
          if p_match_index t = last_log_index s then Some (raft_async_send nid (RAFT_TRANSFER_NOTIFY nid) s)
          else append_entries nid s)"

definition handle_transfer_notify :: "state_machine \<Rightarrow> state_machine" where
  "handle_transfer_notify s = timeout_request_vote s"

definition node_transfer_leader :: "node_id_t \<Rightarrow> state_machine \<Rightarrow> state_machine option" where
  "node_transfer_leader nid s = handle_transfer_leader \<lparr>tl_source = 0, tl_dest = 0, tl_leader_transferee = nid\<rparr> s"

text \<open>\<^term>\<open>rnd\<close> is the draw of \<^verbatim>\<open>rnd_dist_\<close>.\<close>

definition tick :: "nat \<Rightarrow> state_machine \<Rightarrow> state_machine option" where
  "tick rnd s =
     (if stopped' s then Some s
      else if state' s = RAFT_STATE_LEADER then Some (s\<lparr>timer' := Some (raft_tick_ms' s)\<rparr>)
      else do {
        s \<leftarrow> (if priority_replica_node' s \<noteq> 0 \<and> priority_replica_node' s = node_id' s
              then node_transfer_leader (priority_replica_node' s) s else Some s);
        Some (s\<lparr>timer' := Some (raft_tick_ms' s + rnd)\<rparr>) })"

definition on_tick_timeout :: "nat \<Rightarrow> state_machine \<Rightarrow> state_machine option" where
  "on_tick_timeout rnd s = do {
     let s = s\<lparr>tick_count' := tick_count' s + 1\<rparr>;
     s \<leftarrow> (if state' s = RAFT_STATE_LEADER then do {
             (_, s) \<leftarrow> send_append_log True s;
             if tick_count' s > 10 then do {
               s \<leftarrow> leader_advance_consistency_index s;
               Some (s\<lparr>tick_count' := 0\<rparr>) }
             else Some s }
           else if tick_count' s \<ge> follower_tick_max' s then Some (timeout_request_vote (s\<lparr>tick_count' := 0\<rparr>))
           else Some s);
     tick rnd s }"

definition on_stop :: "state_machine \<Rightarrow> state_machine" where
  "on_stop s = s\<lparr>stopped' := True\<rparr>"

text \<open>
  The constructor; the arguments are the members read from the configuration.
  \<^verbatim>\<open>log_state_\<close> is null until \<^verbatim>\<open>pre_start\<close> sets it.
\<close>

definition new_state_machine :: "node_id_t \<Rightarrow> nat \<Rightarrow> nat \<Rightarrow> nat \<Rightarrow> nat \<Rightarrow> state_machine option" where
  "new_state_machine node tick_ms tick_max batch_max batch_min = do {
     boost_assert (node \<noteq> 0);
     Some \<lparr>node_id' = node, tick_count' = 0, progress' = [], commit_index' = 0, current_term' = 0,
       state' = RAFT_STATE_FOLLOWER, pre_vote_responded' = [], votes_responded' = [], votes_granted' = [],
       has_voted_for' = False, voted_for' = 0, leader_id' = 0, nodes_ids' = [], priority_replica_node' = 0,
       log' = [], log_state' = \<lparr>ls_term = 0, ls_vote = 0, ls_commit_index = 0, ls_consistency_index = 0\<rparr>,
       consistent_log_index' = 0, raft_tick_ms' = tick_ms, follower_tick_max' = tick_max,
       append_log_entries_batch_max' = batch_max, append_log_entries_batch_min' = batch_min,
       clients' = [], stopped' = False, tx_logs' = [], log_strand' = [], strand' = [], written' = [],
       timer' = None, out' = [], effects' = []\<rparr> }"

text \<open>
  What \<^verbatim>\<open>retrieve_log\<close> hands to \<^verbatim>\<open>fn_log\<close>: a raft entry with the
  result of parsing it, or the bytes of another record.
\<close>

datatype log_record = Raft_record nat "raft_log_entry option" | Tx_record nat "u8 list"

definition recover_record :: "log_record \<Rightarrow> (nat \<times> raft_log_entry) list \<Rightarrow> (nat \<times> raft_log_entry) list option" where
  "recover_record r entries = (case r of
     Raft_record index parsed \<Rightarrow> do {
       e \<leftarrow> parsed;
       Some (if index \<in> fst ` set entries then AList.update index e entries else insort_key fst (index, e) entries) }
   | Tx_record index bytes \<Rightarrow> do {
       boost_assert (index \<notin> fst ` set entries);
       Some (insort_key fst (index, \<lparr>e_term = 0, e_index = index, e_logs = bytes\<rparr>) entries) })"

fun recover_log :: "log_record list \<Rightarrow> (nat \<times> raft_log_entry) list \<Rightarrow> (nat \<times> raft_log_entry) list option" where
  "recover_log [] entries = Some entries"
| "recover_log (r # rs) entries = do { entries \<leftarrow> recover_record r entries; recover_log rs entries }"

text \<open>
  \<^verbatim>\<open>priority_\<close> keeps the first node of each priority; the node with the
  greatest priority is preferred when there are at least two.
\<close>

definition priority_map :: "(node_id_t \<times> nat) list \<Rightarrow> (nat \<times> node_id_t) list" where
  "priority_map nodes = fold (\<lambda>(nid, prio) m. if prio \<in> fst ` set m then m else insort_key fst (prio, nid) m) nodes []"

definition priority_node :: "(node_id_t \<times> nat) list \<Rightarrow> node_id_t" where
  "priority_node nodes = (if length (priority_map nodes) > 1 then snd (last (priority_map nodes)) else 0)"

definition add_progress :: "node_id_t \<Rightarrow> state_machine \<Rightarrow> state_machine" where
  "add_progress nid s = (case progress_of nid s of
     None \<Rightarrow> set_progress nid (new_progress (append_log_entries_batch_max' s)) s
   | Some _ \<Rightarrow> s)"

definition own_progress :: "state_machine \<Rightarrow> state_machine option" where
  "own_progress s = do {
     index \<leftarrow> offset_to_log_index (length (log' s)) s;
     let next_index = (of_nat index :: u32);
     Some (case progress_of (node_id' s) s of
       Some p \<Rightarrow> set_progress (node_id' s)
         (p\<lparr>p_match_index := unat (next_index - 1), p_next_index := unat next_index, p_send_next_index := 0\<rparr>) s
     | None \<Rightarrow> s) }"

definition pre_start :: "(node_id_t \<times> nat) list \<Rightarrow> raft_log_state option \<Rightarrow> log_record list \<Rightarrow> state_machine \<Rightarrow> state_machine option" where
  "pre_start rep_nodes st records s = do {
     boost_assert (\<forall>(nid, _) \<in> set rep_nodes. TO_RG_ID nid = TO_RG_ID (node_id' s) \<and> is_rlb_block nid);
     let s = s\<lparr>nodes_ids' := nodes_ids' s @ map fst rep_nodes, clients' := clients' s @ map fst rep_nodes,
              priority_replica_node' := priority_node rep_nodes, tick_count' := 0\<rparr>;
     let s = fold add_progress (nodes_ids' s) s;
     entries \<leftarrow> recover_log records [];
     let s = (case st of
        None \<Rightarrow> let s = set_log_state s in s\<lparr>written' := written' s @ [Write_state (log_state' s)]\<rparr>
      | Some st \<Rightarrow> s\<lparr>log_state' := st, consistent_log_index' := ls_consistency_index st, current_term' := ls_term st,
          commit_index' := ls_commit_index st, voted_for' := ls_vote st, has_voted_for' := (ls_vote st \<noteq> 0)\<rparr>);
     s \<leftarrow> push_entries (map snd (filter (\<lambda>(index, _). index > consistent_log_index' s) entries)) s;
     own_progress s }"

definition on_start :: "(node_id_t \<times> nat) list \<Rightarrow> raft_log_state option \<Rightarrow> log_record list \<Rightarrow> nat \<Rightarrow> state_machine \<Rightarrow> state_machine option" where
  "on_start rep_nodes st records rnd s = do { s \<leftarrow> pre_start rep_nodes st records s; tick rnd s }"

record sm_status =
  st_state :: raft_state
  st_term :: nat
  st_lead_node :: node_id_t

definition status :: "state_machine \<Rightarrow> sm_status option" where
  "status s =
     (if state' s = RAFT_STATE_LEADER \<or> state' s = RAFT_STATE_FOLLOWER then do {
        boost_assert (voted_for' s = 0 \<or> TO_RG_ID (voted_for' s) = TO_RG_ID (node_id' s));
        Some \<lparr>st_state = state' s, st_term = current_term' s, st_lead_node = voted_for' s\<rparr> }
      else Some \<lparr>st_state = state' s, st_term = current_term' s, st_lead_node = 0\<rparr>)"

section \<open>The strands\<close>

definition on_recv_message :: "raft_message \<Rightarrow> state_machine \<Rightarrow> state_machine option" where
  "on_recv_message m s = (case m of
     RAFT_APPEND_ENTRIES_REQ request \<Rightarrow> handle_append_entries_request request s
   | RAFT_APPEND_ENTRIES_RESP response \<Rightarrow> handle_append_entries_response response s
   | RAFT_REQ_VOTE_REQ request \<Rightarrow> Some (handle_request_vote_request request s)
   | RAFT_REQ_VOTE_RESP response \<Rightarrow> handle_request_vote_response response s
   | RAFT_TRANSFER_LEADER msg \<Rightarrow> handle_transfer_leader msg s
   | RAFT_TRANSFER_NOTIFY _ \<Rightarrow> Some (handle_transfer_notify s)
   | _ \<Rightarrow> None)"

definition run_cont :: "raft_cont \<Rightarrow> state_machine \<Rightarrow> state_machine option" where
  "run_cont k s = (case k of
     Cont_request_vote \<Rightarrow> Some (request_vote s)
   | Cont_leader_append index \<Rightarrow> leader_append_done index s
   | Cont_follower_append request match wl \<Rightarrow> follower_append_done request match wl s)"

text \<open>
  What happens to a node: a message arrives, the timer fires, a transaction
  log arrives, the log strand executes its next write, the strand runs its
  next continuation, or the node is asked to transfer leadership.
\<close>

datatype raft_event =
    Recv raft_message
  | Tick nat
  | Ccb_append u64 "u8 list"
  | Log_strand
  | Strand
  | Transfer node_id_t
  | Stop

definition log_strand_step :: "state_machine \<Rightarrow> state_machine option" where
  "log_strand_step s = (case log_strand' s of
     [] \<Rightarrow> None
   | (w, k) # ws \<Rightarrow> Some (s\<lparr>log_strand' := ws, written' := written' s @ [w],
       strand' := strand' s @ (case k of None \<Rightarrow> [] | Some k \<Rightarrow> [k])\<rparr>))"

definition strand_step :: "state_machine \<Rightarrow> state_machine option" where
  "strand_step s = (case strand' s of [] \<Rightarrow> None | k # ks \<Rightarrow> run_cont k (s\<lparr>strand' := ks\<rparr>))"

definition raft_step :: "raft_event \<Rightarrow> state_machine \<Rightarrow> state_machine option" where
  "raft_step ev s = (case ev of
     Recv m \<Rightarrow> on_recv_message m s
   | Tick rnd \<Rightarrow> on_tick_timeout rnd s
   | Ccb_append ms logs \<Rightarrow> map_option snd (ccb_append_log ms logs s)
   | Log_strand \<Rightarrow> log_strand_step s
   | Strand \<Rightarrow> strand_step s
   | Transfer nid \<Rightarrow> node_transfer_leader nid s
   | Stop \<Rightarrow> Some (on_stop s))"

end
