(* ===== verification/Raft_Election.thy ===== *)
theory Raft_Election
  imports Raft
begin

text \<open>
  Election safety of the replicated log: in a group whose nodes are not
  restarted, at most one node is leader in a term.

  The argument is split between the node and the group.  For a node, every
  event keeps \<^verbatim>\<open>vote_inv\<close> (at most one vote per term is ever sent, and the
  vote of the current term is the one on record) and moves the votes it has
  counted only as \<^verbatim>\<open>counted\<close> says.  For the group, the counted votes are
  votes that were sent, so two leaders of a term share a voter.
\<close>

named_theorems raft_defs
named_theorems elect_frame

section \<open>The part of the state an election depends on\<close>

definition grants :: "state_machine \<Rightarrow> (node_id_t \<times> nat) set" where
  "grants s = {(d, rp_term r) | d r. (d, RAFT_REQ_VOTE_RESP r) \<in> set (out' s) \<and> rp_vote_granted r}"

definition honest :: "state_machine \<Rightarrow> bool" where
  "honest s \<longleftrightarrow> (\<forall>d r. (d, RAFT_REQ_VOTE_RESP r) \<in> set (out' s) \<longrightarrow> rp_source r = node_id' s)"

definition same_votes :: "state_machine \<Rightarrow> state_machine \<Rightarrow> bool" where
  "same_votes s s' \<longleftrightarrow> node_id' s' = node_id' s \<and> nodes_ids' s' = nodes_ids' s \<and>
     has_voted_for' s' = has_voted_for' s \<and> voted_for' s' = voted_for' s \<and>
     {(d, r). (d, RAFT_REQ_VOTE_RESP r) \<in> set (out' s')} = {(d, r). (d, RAFT_REQ_VOTE_RESP r) \<in> set (out' s)}"

definition same_election :: "state_machine \<Rightarrow> state_machine \<Rightarrow> bool" where
  "same_election s s' \<longleftrightarrow> same_votes s s' \<and> current_term' s' = current_term' s \<and>
     state' s' = state' s \<and> votes_granted' s' = votes_granted' s"

lemma same_election_refl [simp, intro]: "same_election s s"
  by (simp add: same_election_def same_votes_def)

lemma same_election_trans: "same_election s t \<Longrightarrow> same_election t u \<Longrightarrow> same_election s u"
  by (simp add: same_election_def same_votes_def)

lemma same_election_send [elect_frame]:
  "(\<And>r. m \<noteq> RAFT_REQ_VOTE_RESP r) \<Longrightarrow> same_election s (raft_async_send d m s)"
  by (auto simp: same_election_def same_votes_def raft_async_send_def)

lemma same_election_fields [simp]:
  "same_election s (emit_effect e s)" "same_election s (write_log w k s)" "same_election s (write_state st k s)"
  "same_election s (set_progress n p s)" "same_election s (set_log_state s)"
  "same_election s (s\<lparr>tick_count' := tc\<rparr>)" "same_election s (s\<lparr>timer' := tm\<rparr>)" "same_election s (s\<lparr>log' := l\<rparr>)"
  "same_election s (s\<lparr>tx_logs' := tls\<rparr>)" "same_election s (s\<lparr>strand' := ks\<rparr>)"
  "same_election s (s\<lparr>commit_index' := ci\<rparr>)" "same_election s (s\<lparr>leader_id' := ld\<rparr>)"
  "same_election s (s\<lparr>votes_responded' := vr\<rparr>)" "same_election s (s\<lparr>stopped' := sp\<rparr>)"
  "same_election s (s\<lparr>log_strand' := ls, written' := wr, strand' := ks\<rparr>)"
  "same_election s (s\<lparr>leader_id' := ld, tick_count' := tc\<rparr>)"
  by (simp_all add: same_election_def same_votes_def emit_effect_def write_log_def write_state_def set_progress_def set_log_state_def)

lemma update_commit_index_same [elect_frame]:
  "update_commit_index i s = Some s' \<Longrightarrow> same_election s s'"
  by (auto simp: update_commit_index_def Let_def Option.bind_eq_Some_conv same_election_def same_votes_def
      emit_effect_def write_state_def split: if_splits)

lemma update_consistency_index_same [elect_frame]:
  "update_consistency_index i s = Some s' \<Longrightarrow> same_election s s'"
  by (auto simp: update_consistency_index_def Let_def same_election_def same_votes_def write_state_def split: if_splits)

lemma follower_updates_same [elect_frame]:
  "follower_updates r s = Some s' \<Longrightarrow> same_election s s'"
  by (auto simp: follower_updates_def Option.bind_eq_Some_conv
      intro: same_election_trans update_commit_index_same update_consistency_index_same)

lemma leader_advance_commit_index_same [elect_frame]:
  "leader_advance_commit_index s = Some s' \<Longrightarrow> same_election s s'"
  by (auto simp: leader_advance_commit_index_def Option.bind_eq_Some_conv
      intro: update_commit_index_same split: if_splits)

lemma leader_advance_consistency_index_same [elect_frame]:
  "leader_advance_consistency_index s = Some s' \<Longrightarrow> same_election s s'"
  by (auto simp: leader_advance_consistency_index_def Option.bind_eq_Some_conv
      intro: update_consistency_index_same split: if_splits)

lemma same_election_append [simp]:
  "same_election s (raft_async_send d (RAFT_APPEND_ENTRIES_REQ ae) (set_progress n p s))"
  by (rule same_election_trans[OF same_election_fields(4) same_election_send]) simp

lemma append_entries_same [elect_frame]:
  "append_entries n s = Some s' \<Longrightarrow> same_election s s'"
  by (elim append_entriesE) simp

lemma append_entries_to_same [elect_frame]:
  "append_entries_to ns s = Some s' \<Longrightarrow> same_election s s'"
  by (induction ns arbitrary: s)
    (auto simp: Option.bind_eq_Some_conv intro: same_election_trans append_entries_same split: if_splits)

lemma leader_append_entry_same [elect_frame]:
  "leader_append_entry e s = Some (r, s') \<Longrightarrow> same_election s s'"
  by (auto simp: leader_append_entry_def leader_send_append_entries_def Option.bind_eq_Some_conv Let_def
      intro: append_entries_to_same same_election_trans[OF same_election_fields(8) same_election_fields(2)]
      split: if_splits option.splits)

lemma heart_beat_same [elect_frame]: "heart_beat s = Some s' \<Longrightarrow> same_election s s'"
  by (auto simp: heart_beat_def intro: leader_append_entry_same)

lemma send_append_log_same [elect_frame]:
  "send_append_log h s = Some (r, s') \<Longrightarrow> same_election s s'"
  by (auto simp: send_append_log_def Option.bind_eq_Some_conv Let_def
      intro: heart_beat_same same_election_trans[OF same_election_fields(9)] leader_append_entry_same
        same_election_trans[OF leader_append_entry_same same_election_fields(1)]
      split: if_splits)

section \<open>What one event does to the votes of a node\<close>

definition vote_inv :: "state_machine \<Rightarrow> bool" where
  "vote_inv s \<longleftrightarrow> honest s \<and> distinct (votes_granted' s) \<and>
     (state' s = RAFT_STATE_LEADER \<longrightarrow> length (votes_granted' s) * 2 > length (nodes_ids' s)) \<and>
     (\<forall>(c, t) \<in> grants s. t \<le> current_term' s \<and> (t = current_term' s \<longrightarrow> has_voted_for' s \<and> voted_for' s = c)) \<and>
     (\<forall>(c, t) \<in> grants s. \<forall>(c', t') \<in> grants s. t = t' \<longrightarrow> c = c')"

lemma vote_invI:
  assumes "honest s" "distinct (votes_granted' s)"
    "state' s = RAFT_STATE_LEADER \<Longrightarrow> length (votes_granted' s) * 2 > length (nodes_ids' s)"
    "\<And>c t. (c, t) \<in> grants s \<Longrightarrow> t \<le> current_term' s"
    "\<And>c. (c, current_term' s) \<in> grants s \<Longrightarrow> has_voted_for' s \<and> voted_for' s = c"
    "\<And>c c' t. (c, t) \<in> grants s \<Longrightarrow> (c', t) \<in> grants s \<Longrightarrow> c = c'"
  shows "vote_inv s"
  using assms unfolding vote_inv_def by blast

lemma vote_invD:
  assumes "vote_inv s"
  shows "honest s" "distinct (votes_granted' s)"
    "state' s = RAFT_STATE_LEADER \<Longrightarrow> length (votes_granted' s) * 2 > length (nodes_ids' s)"
    "(c, t) \<in> grants s \<Longrightarrow> t \<le> current_term' s"
    "(c, current_term' s) \<in> grants s \<Longrightarrow> has_voted_for' s \<and> voted_for' s = c"
    "(c, t) \<in> grants s \<Longrightarrow> (c', t) \<in> grants s \<Longrightarrow> c = c'"
  using assms unfolding vote_inv_def by blast+

definition elect_rel :: "node_id_t set \<Rightarrow> state_machine \<Rightarrow> state_machine \<Rightarrow> bool" where
  "elect_rel V s s' \<longleftrightarrow> node_id' s' = node_id' s \<and> nodes_ids' s' = nodes_ids' s \<and>
     (vote_inv s \<longrightarrow> vote_inv s') \<and> grants s \<subseteq> grants s' \<and>
     (state' s' \<noteq> RAFT_STATE_FOLLOWER \<longrightarrow> votes_granted' s' = [] \<or>
        current_term' s' = current_term' s \<and> state' s \<noteq> RAFT_STATE_FOLLOWER \<and>
        set (votes_granted' s') \<subseteq> set (votes_granted' s) \<union> V)"

lemma same_election_grants: "same_election s s' \<Longrightarrow> grants s' = grants s"
  unfolding same_election_def same_votes_def grants_def by (auto simp: set_eq_iff)

lemma same_election_honest: "same_election s s' \<Longrightarrow> honest s' = honest s"
  unfolding same_election_def same_votes_def honest_def by (auto simp: set_eq_iff)

lemma same_election_vote_inv: "same_election s s' \<Longrightarrow> vote_inv s' = vote_inv s"
  using same_election_grants[of s s'] same_election_honest[of s s']
  by (simp add: vote_inv_def same_election_def same_votes_def)

lemma elect_rel_same: "same_election s s' \<Longrightarrow> elect_rel V s s'"
  using same_election_grants[of s s'] same_election_vote_inv[of s s']
  by (auto simp: elect_rel_def same_election_def same_votes_def)

lemma elect_rel_trans_same: "elect_rel V s t \<Longrightarrow> same_election t u \<Longrightarrow> elect_rel V s u"
  using same_election_grants[of t u] same_election_vote_inv[of t u]
  by (auto simp: elect_rel_def same_election_def same_votes_def)

lemma same_elect_rel_trans: "same_election s t \<Longrightarrow> elect_rel V t u \<Longrightarrow> elect_rel V s u"
  using same_election_grants[of s t] same_election_vote_inv[of s t]
  by (auto simp: elect_rel_def same_election_def same_votes_def)

lemma grants_simps [simp]:
  "grants (s\<lparr>current_term' := t\<rparr>) = grants s" "grants (s\<lparr>state' := st\<rparr>) = grants s"
  "grants (s\<lparr>has_voted_for' := h\<rparr>) = grants s" "grants (s\<lparr>voted_for' := v\<rparr>) = grants s"
  "grants (s\<lparr>votes_granted' := vs\<rparr>) = grants s" "grants (s\<lparr>tick_count' := tc\<rparr>) = grants s"
  "grants (s\<lparr>effects' := ef\<rparr>) = grants s" "grants (s\<lparr>votes_responded' := vr\<rparr>) = grants s"
  "grants (s\<lparr>leader_id' := l\<rparr>) = grants s"
  by (simp_all add: grants_def)

lemma honest_simps [simp]:
  "honest (s\<lparr>current_term' := t\<rparr>) = honest s" "honest (s\<lparr>state' := st\<rparr>) = honest s"
  "honest (s\<lparr>has_voted_for' := h\<rparr>) = honest s" "honest (s\<lparr>voted_for' := v\<rparr>) = honest s"
  "honest (s\<lparr>votes_granted' := vs\<rparr>) = honest s" "honest (s\<lparr>tick_count' := tc\<rparr>) = honest s"
  "honest (s\<lparr>effects' := ef\<rparr>) = honest s" "honest (s\<lparr>votes_responded' := vr\<rparr>) = honest s"
  "honest (s\<lparr>leader_id' := l\<rparr>) = honest s"
  by (simp_all add: honest_def)

lemma elect_rel_become_follower: "elect_rel V s (become_follower s)"
  by (auto simp: elect_rel_def become_follower_def emit_effect_def vote_inv_def)

lemma elect_rel_new_term:
  assumes "node_id' s' = node_id' s" "nodes_ids' s' = nodes_ids' s" "grants s' = grants s" "honest s' = honest s"
    and "current_term' s' > current_term' s"
    and "state' s' = RAFT_STATE_FOLLOWER \<and> votes_granted' s' = votes_granted' s \<or>
      state' s' = RAFT_STATE_CANDIDATE \<and> votes_granted' s' = []"
  shows "elect_rel V s s'"
proof -
  have "vote_inv s'" if inv: "vote_inv s"
  proof -
    have "t < current_term' s'" if "(c, t) \<in> grants s" for c t
      using inv that assms(5) by (fastforce simp: vote_inv_def)
    then have "\<forall>(c, t) \<in> grants s'. t \<le> current_term' s' \<and> (t = current_term' s' \<longrightarrow> has_voted_for' s' \<and> voted_for' s' = c)"
      using assms(3) by fastforce
    then show ?thesis using inv assms(3,4,6) by (auto simp: vote_inv_def)
  qed
  then show ?thesis using assms by (auto simp: elect_rel_def)
qed

lemma elect_rel_advance:
  "t > current_term' s \<Longrightarrow> elect_rel V s (become_follower (s\<lparr>current_term' := t, has_voted_for' := h, voted_for' := v\<rparr>))"
  by (rule elect_rel_new_term) (simp_all add: become_follower_def emit_effect_def)

lemma elect_rel_advance_append:
  "t > current_term' s \<Longrightarrow> elect_rel V s (become_follower (s\<lparr>tick_count' := 0, current_term' := t\<rparr>))"
  by (rule elect_rel_new_term) (simp_all add: become_follower_def emit_effect_def)

lemma elect_rel_update_term: "elect_rel V s (update_term t s)"
  by (simp add: update_term_def elect_rel_same elect_rel_advance)

lemma elect_rel_timeout: "elect_rel V s (timeout_request_vote s)"
proof -
  let ?c = "s\<lparr>tick_count' := 0, state' := RAFT_STATE_CANDIDATE, current_term' := current_term' s + 1,
     has_voted_for' := False, voted_for' := 0, leader_id' := 0, votes_responded' := [], votes_granted' := []\<rparr>"
  have "elect_rel V s ?c"
    by (rule elect_rel_new_term) simp_all
  then have "elect_rel V s (write_state (log_state' (set_log_state ?c)) (Some Cont_request_vote) (set_log_state ?c))"
    by (rule elect_rel_trans_same[OF elect_rel_trans_same[OF _ same_election_fields(5)] same_election_fields(3)])
  then show ?thesis by (simp add: timeout_request_vote_def Let_def elect_rel_same)
qed

lemma leader_progress_same: "same_election s (leader_progress i n s)"
  by (simp add: leader_progress_def Let_def)

lemma fold_same_election:
  "(\<And>x s. same_election s (f x s)) \<Longrightarrow> same_election s (fold f xs s)"
  by (induction xs arbitrary: s) (auto intro: same_election_trans)

lemma become_leader_rel:
  assumes "become_leader s = Some s'" "length (votes_granted' s) * 2 > length (nodes_ids' s)"
  shows "elect_rel V s s'"
proof (cases "state' s = RAFT_STATE_CANDIDATE")
  case True
  let ?l = "s\<lparr>state' := RAFT_STATE_LEADER, leader_id' := node_id' s\<rparr>"
  let ?p = "fold (leader_progress (last_log_index ?l)) (nodes_ids' ?l) ?l"
  have hb: "heart_beat (emit_effect (On_become_leader (current_term' ?p)) ?p) = Some s'"
    using assms True unfolding become_leader_def Let_def by simp
  have "elect_rel V s ?l" using True assms(2) by (auto simp: elect_rel_def vote_inv_def)
  then have "elect_rel V s ?p" by (rule elect_rel_trans_same) (rule fold_same_election[OF leader_progress_same])
  then show ?thesis
    by (rule elect_rel_trans_same[OF elect_rel_trans_same[OF _ same_election_fields(1)] heart_beat_same[OF hb]])
next
  case False
  then show ?thesis using assms(1) by (simp add: become_leader_def elect_rel_same)
qed

lemma elect_rel_trans_votes:
  assumes "elect_rel V s t" "node_id' u = node_id' t" "nodes_ids' u = nodes_ids' t" "current_term' u = current_term' t"
    "state' u = state' t" "votes_granted' u = votes_granted' t" "grants t \<subseteq> grants u" "vote_inv t \<longrightarrow> vote_inv u"
  shows "elect_rel V s u"
  using assms unfolding elect_rel_def by auto

lemma handle_request_vote_request_rel: "elect_rel V s (handle_request_vote_request r s)"
proof -
  define u where "u = update_term (rq_term r) s"
  define g where "g \<longleftrightarrow> rq_term r = current_term' u \<and>
    (rq_last_log_term r > last_log_term u \<or> rq_last_log_term r = last_log_term u \<and> rq_last_log_index r \<ge> last_log_index u) \<and>
    (has_voted_for' u \<and> voted_for' u = rq_source r \<or> \<not> has_voted_for' u)"
  define w where "w = (if g then u\<lparr>has_voted_for' := True, voted_for' := rq_source r\<rparr> else u)"
  define m where "m = \<lparr>rp_source = node_id' w, rp_dest = rq_source r, rp_term = current_term' w, rp_vote_granted = g\<rparr>"
  define f where "f = raft_async_send (rq_source r) (RAFT_REQ_VOTE_RESP m) w"
  have f: "handle_request_vote_request r s = f"
    unfolding handle_request_vote_request_def Let_def f_def m_def w_def g_def u_def by (rule refl)
  have outs: "set (out' f) \<subseteq> insert (rq_source r, RAFT_REQ_VOTE_RESP m) (set (out' u))" "set (out' u) \<subseteq> set (out' f)"
    by (auto simp: f_def raft_async_send_def w_def)
  have flds: "node_id' f = node_id' u" "nodes_ids' f = nodes_ids' u" "current_term' f = current_term' u"
    "state' f = state' u" "votes_granted' f = votes_granted' u"
    "has_voted_for' f = (g \<or> has_voted_for' u)" "voted_for' f = (if g then rq_source r else voted_for' u)"
    by (auto simp: f_def raft_async_send_def w_def)
  have m: "rp_source m = node_id' u" "rp_term m = current_term' u" "rp_vote_granted m = g"
    by (simp_all add: m_def w_def)
  have sub: "grants f \<subseteq> grants u \<union> (if g then {(rq_source r, current_term' u)} else {})"
    using outs(1) m by (auto simp: grants_def)
  have old: "(c, t) \<in> grants u" if "(c, t) \<in> grants f" "t \<noteq> current_term' u" for c t
    using subsetD[OF sub that(1)] that(2) by (simp split: if_splits)
  have "vote_inv f" if inv: "vote_inv u"
  proof (rule vote_invI)
    have rec: "has_voted_for' f \<and> voted_for' f = c" if "(c, current_term' u) \<in> grants f" for c
      using subsetD[OF sub that] vote_invD(5)[OF inv, of c] flds(6,7) g_def by (auto split: if_splits)
    then show "has_voted_for' f \<and> voted_for' f = c" if "(c, current_term' f) \<in> grants f" for c
      using that flds(3) by simp
    show "honest f" using vote_invD(1)[OF inv] outs(1) m(1) flds(1) unfolding honest_def by auto
    show "distinct (votes_granted' f)" using vote_invD(2)[OF inv] flds(5) by simp
    show "length (votes_granted' f) * 2 > length (nodes_ids' f)" if "state' f = RAFT_STATE_LEADER"
      using vote_invD(3)[OF inv] flds that by simp
    show "t \<le> current_term' f" if "(c, t) \<in> grants f" for c t
      using old[OF that] vote_invD(4)[OF inv, of c t] flds(3) by (cases "t = current_term' u") simp_all
    show "c = c'" if "(c, t) \<in> grants f" "(c', t) \<in> grants f" for c c' t
    proof (cases "t = current_term' u")
      case True
      then show ?thesis using rec[of c] rec[of c'] that by simp
    next
      case False
      then show ?thesis using vote_invD(6)[OF inv old[OF that(1)] old[OF that(2)]] by simp
    qed
  qed
  moreover have "grants u \<subseteq> grants f" using outs(2) by (auto simp: grants_def)
  ultimately show ?thesis
    unfolding f using flds by (intro elect_rel_trans_votes[OF elect_rel_update_term[of V s "rq_term r", folded u_def]]) simp_all
qed

lemma handle_request_vote_response_rel:
  assumes "handle_request_vote_response r s = Some s'"
  shows "elect_rel {v. rp_vote_granted r \<and> rp_term r = current_term' s \<and> rp_source r = v} s s'"
    (is "elect_rel ?V s s'")
proof -
  define u where "u = update_term (rp_term r) s"
  define w where "w = (let u = u\<lparr>votes_responded' := List.insert (rp_source r) (votes_responded' u)\<rparr> in
    if rp_vote_granted r then u\<lparr>votes_granted' := List.insert (rp_source r) (votes_granted' u)\<rparr> else u)"
  have su: "elect_rel ?V s u" unfolding u_def by (rule elect_rel_update_term)
  show ?thesis
  proof (cases "rp_term r = current_term' u")
    case False
    then show ?thesis using assms su by (simp add: handle_request_vote_response_def u_def Let_def)
  next
    case True
    then have fin: "s' = w \<or> length (votes_granted' w) * 2 > length (nodes_ids' w) \<and> state' w = RAFT_STATE_CANDIDATE \<and> become_leader w = Some s'"
      using assms unfolding handle_request_vote_response_def u_def[symmetric] Let_def w_def
      by (auto split: if_splits)
    have flds: "node_id' w = node_id' u" "nodes_ids' w = nodes_ids' u" "current_term' w = current_term' u" "state' w = state' u"
      "grants w = grants u" "honest w = honest u" "has_voted_for' w = has_voted_for' u" "voted_for' w = voted_for' u"
      "votes_granted' w = (if rp_vote_granted r then List.insert (rp_source r) (votes_granted' u) else votes_granted' u)"
      by (simp_all add: w_def Let_def)
    have "length (votes_granted' u) \<le> length (votes_granted' w)" by (simp add: flds(9) List.insert_def)
    moreover have "distinct (votes_granted' u) \<Longrightarrow> distinct (votes_granted' w)" by (simp add: flds(9))
    ultimately have inv: "vote_inv u \<longrightarrow> vote_inv w"
      unfolding vote_inv_def flds(1-8) by auto
    have uw: "elect_rel ?V s w"
    proof (cases "state' u = RAFT_STATE_FOLLOWER")
      case True
      then show ?thesis using su inv flds by (auto simp: elect_rel_def)
    next
      case False
      then have "u = s" by (auto simp: u_def update_term_def become_follower_def split: if_splits)
      then show ?thesis using inv flds False True by (auto simp: elect_rel_def)
    qed
    show ?thesis
      using fin
    proof
      assume "length (votes_granted' w) * 2 > length (nodes_ids' w) \<and> state' w = RAFT_STATE_CANDIDATE \<and> become_leader w = Some s'"
      then have "elect_rel {} w s'" "state' w = RAFT_STATE_CANDIDATE" using become_leader_rel by auto
      then show ?thesis using uw unfolding elect_rel_def by auto
    qed (use uw in simp)
  qed
qed

lemma response_same [simp]: "same_election s (response_append_entries_response to ts ok m hb wl s)"
  unfolding response_append_entries_response_def by (rule same_election_send) simp

lemma push_entries_same [elect_frame]: "push_entries es s = Some s' \<Longrightarrow> same_election s s'"
proof (induction es arbitrary: s)
  case (Cons e es)
  then have "push_entries es (s\<lparr>log' := log' s @ [e]\<rparr>) = Some s'"
    by (auto simp: Option.bind_eq_Some_conv Let_def)
  from Cons.IH[OF this] show ?case by (rule same_election_trans[OF same_election_fields(8)])
qed simp

lemma responded_same:
  "follower_updates r (response_append_entries_response to ts ok m hb wl s) = Some s' \<Longrightarrow> same_election s s'"
  by (rule same_election_trans[OF response_same follower_updates_same])

lemma pushed_same:
  "push_entries es s = Some t \<Longrightarrow> same_election s (write_log w k t)"
  by (rule same_election_trans[OF push_entries_same same_election_fields(2)])

lemma append_conflicting_same:
  assumes "append_conflicting r no ea s = Some s'"
  shows "same_election s s'"
proof -
  obtain scan where scan: "conflict_scan (drop no (log' s)) (drop ea (ae_entries r)) = Some scan"
    using assms by (auto simp: append_conflicting_def Option.bind_eq_Some_conv)
  show ?thesis
    using assms scan
    by (cases scan) (auto simp: append_conflicting_def Let_def Option.bind_eq_Some_conv
        intro: pushed_same responded_same split: if_splits)
qed

lemma append_at_end_same: "append_at_end r ea s = Some s' \<Longrightarrow> same_election s s'"
  by (auto simp: append_at_end_def Let_def Option.bind_eq_Some_conv intro: pushed_same)

lemma follower_append_same:
  assumes "follower_append r s = Some s'"
  shows "same_election s s'"
proof -
  obtain ok ni no ea where pos: "request_position r s = Some (ok, ni, no, ea)"
    using assms by (auto simp: follower_append_def Option.bind_eq_Some_conv)
  show ?thesis
    using assms unfolding follower_append_def pos
    by (auto simp: Let_def intro: responded_same append_conflicting_same append_at_end_same split: if_splits)
qed

lemma handle_append_entries_request_rel:
  assumes "handle_append_entries_request r s = Some s'"
  shows "elect_rel V s s'"
proof -
  let ?u = "s\<lparr>leader_id' := ae_source r, tick_count' := 0\<rparr>"
  consider "ae_term r < current_term' s" | "ae_term r > current_term' s" | "ae_term r = current_term' s" by linarith
  then show ?thesis
  proof cases
    case 3
    then have "(case state' s of RAFT_STATE_LEADER \<Rightarrow> Some ?u | RAFT_STATE_CANDIDATE \<Rightarrow> Some (become_follower ?u)
        | RAFT_STATE_FOLLOWER \<Rightarrow> follower_append r ?u) = Some s'"
      using assms by (simp add: handle_append_entries_request_def Let_def)
    then have "elect_rel V ?u s'"
      by (auto intro: elect_rel_same elect_rel_become_follower follower_append_same split: raft_state.splits)
    then show ?thesis by (rule same_elect_rel_trans[OF same_election_fields(16)])
  qed (use assms in \<open>auto simp: handle_append_entries_request_def elect_rel_same intro: elect_rel_advance_append\<close>)
qed

lemma handle_append_entries_response_rel:
  assumes "handle_append_entries_response r s = Some s'"
  shows "elect_rel V s s'"
proof -
  define u where "u = update_term (ar_term r) s"
  have "same_election u s'"
    using assms unfolding handle_append_entries_response_def u_def[symmetric]
    by (auto simp: Let_def Option.bind_eq_Some_conv
        intro: same_election_trans[OF same_election_fields(4) leader_advance_commit_index_same] split: if_splits)
  then show ?thesis unfolding u_def by (rule elect_rel_trans_same[OF elect_rel_update_term])
qed

lemma handle_transfer_leader_same: "handle_transfer_leader m s = Some s' \<Longrightarrow> same_election s s'"
  by (auto simp: handle_transfer_leader_def Let_def intro: same_election_send append_entries_same
      split: if_splits option.splits)

lemma tick_same:
  assumes "tick rnd s = Some s'"
  shows "same_election s s'"
  using assms
  by (auto simp: tick_def node_transfer_leader_def Option.bind_eq_Some_conv
      intro: same_election_trans[OF handle_transfer_leader_same same_election_fields(7)] split: if_splits)

lemma on_tick_timeout_rel:
  assumes "on_tick_timeout rnd s = Some s'"
  shows "elect_rel V s s'"
proof -
  let ?u = "s\<lparr>tick_count' := tick_count' s + 1\<rparr>"
  obtain w where w: "(if state' ?u = RAFT_STATE_LEADER then do {
             (_, s) \<leftarrow> send_append_log True ?u;
             if tick_count' s > 10 then do {
               s \<leftarrow> leader_advance_consistency_index s;
               Some (s\<lparr>tick_count' := 0\<rparr>) }
             else Some s }
           else if tick_count' ?u \<ge> follower_tick_max' ?u then Some (timeout_request_vote (?u\<lparr>tick_count' := 0\<rparr>))
           else Some ?u) = Some w" and t: "tick rnd w = Some s'"
    using assms unfolding on_tick_timeout_def Let_def by (blast dest: bind_SomeD)
  have "elect_rel V s w"
  proof (cases "state' ?u = RAFT_STATE_LEADER")
    case True
    then obtain r v where v: "send_append_log True ?u = Some (r, v)"
      and w2: "w = v \<or> (\<exists>x. leader_advance_consistency_index v = Some x \<and> w = x\<lparr>tick_count' := 0\<rparr>)"
      using w by (auto simp: Option.bind_eq_Some_conv split: if_splits)
    have "same_election v w"
      using w2 by (auto intro: same_election_trans[OF leader_advance_consistency_index_same same_election_fields(6)])
    then have "same_election ?u w" by (rule same_election_trans[OF send_append_log_same[OF v]])
    then show ?thesis by (rule elect_rel_same[OF same_election_trans[OF same_election_fields(6)]])
  next
    case False
    then show ?thesis
      using w by (auto intro: elect_rel_same same_elect_rel_trans[OF same_election_fields(6) elect_rel_timeout] split: if_splits)
  qed
  then show ?thesis
    by (rule elect_rel_trans_same[OF _ tick_same[OF t]])
qed

lemma request_vote_same: "same_election s (request_vote s)"
  unfolding request_vote_def by (auto intro!: fold_same_election same_election_send)

lemma leader_append_done_same: "leader_append_done i s = Some s' \<Longrightarrow> same_election s s'"
  unfolding leader_append_done_def leader_send_append_entries_def Let_def
  by (auto intro: same_election_trans[OF same_election_fields(5)] same_election_trans[OF same_election_fields(4)]
      append_entries_to_same split: option.splits)

lemma run_cont_same: "run_cont k s = Some s' \<Longrightarrow> same_election s s'"
  by (auto simp: run_cont_def follower_append_done_def request_vote_same
      intro: leader_append_done_same responded_same split: raft_cont.splits)

definition counted :: "raft_event \<Rightarrow> state_machine \<Rightarrow> node_id_t set" where
  "counted ev s = {v. \<exists>r. ev = Recv (RAFT_REQ_VOTE_RESP r) \<and> rp_vote_granted r \<and> rp_term r = current_term' s \<and> rp_source r = v}"

lemma on_recv_message_rel:
  assumes "on_recv_message m s = Some s'"
  shows "elect_rel (counted (Recv m) s) s s'"
proof (cases m)
  case (RAFT_REQ_VOTE_RESP r)
  then show ?thesis using handle_request_vote_response_rel[of r s s'] assms by (simp add: on_recv_message_def counted_def)
qed (use assms in \<open>auto simp: on_recv_message_def handle_transfer_notify_def
      intro: handle_request_vote_request_rel handle_append_entries_request_rel handle_append_entries_response_rel
        elect_rel_same handle_transfer_leader_same elect_rel_timeout\<close>)

lemma raft_step_rel:
  assumes "raft_step ev s = Some s'"
  shows "elect_rel (counted ev s) s s'"
proof (cases ev)
  case (Recv m)
  then show ?thesis using assms on_recv_message_rel by (simp add: raft_step_def)
next
  case (Tick rnd)
  then show ?thesis using assms on_tick_timeout_rel by (simp add: raft_step_def)
next
  case (Ccb_append ms logs)
  then have "same_election s s'"
    using assms by (auto simp: raft_step_def ccb_append_log_def Let_def Option.bind_eq_Some_conv
        intro: same_election_trans[OF same_election_fields(9) send_append_log_same] split: if_splits)
  then show ?thesis by (rule elect_rel_same)
next
  case Log_strand
  then have "same_election s s'"
    using assms by (auto simp: raft_step_def log_strand_step_def split: list.splits option.splits)
  then show ?thesis by (rule elect_rel_same)
next
  case Strand
  then have "same_election s s'"
    using assms by (auto simp: raft_step_def strand_step_def
        intro: same_election_trans[OF same_election_fields(10) run_cont_same] split: list.splits)
  then show ?thesis by (rule elect_rel_same)
next
  case (Transfer n)
  then have "same_election s s'"
    using assms by (auto simp: raft_step_def node_transfer_leader_def intro: handle_transfer_leader_same)
  then show ?thesis by (rule elect_rel_same)
next
  case Stop
  then show ?thesis using assms by (auto simp: raft_step_def on_stop_def elect_rel_same)
qed

section \<open>The group\<close>

text \<open>
  A group is its nodes.  A step is one event of one node; a message may be
  delivered to its destination whenever it has been sent, any number of
  times and in any order, or never.  Requests to transfer leadership may
  also come from outside.  There is no step that restarts a node.
\<close>

type_synonym cluster = "node_id_t \<Rightarrow> state_machine"

inductive cluster_step :: "node_id_t list \<Rightarrow> cluster \<Rightarrow> cluster \<Rightarrow> bool" for N where
  deliver: "n \<in> set N \<Longrightarrow> k \<in> set N \<Longrightarrow> (n, m) \<in> set (out' (\<sigma> k)) \<Longrightarrow> raft_step (Recv m) (\<sigma> n) = Some s' \<Longrightarrow>
    cluster_step N \<sigma> (\<sigma>(n := s'))"
| external: "n \<in> set N \<Longrightarrow> raft_step (Recv (RAFT_TRANSFER_LEADER t)) (\<sigma> n) = Some s' \<Longrightarrow>
    cluster_step N \<sigma> (\<sigma>(n := s'))"
| internal: "n \<in> set N \<Longrightarrow> (\<And>m. ev \<noteq> Recv m) \<Longrightarrow> raft_step ev (\<sigma> n) = Some s' \<Longrightarrow>
    cluster_step N \<sigma> (\<sigma>(n := s'))"

definition group_start :: "node_id_t list \<Rightarrow> cluster \<Rightarrow> bool" where
  "group_start N \<sigma> \<longleftrightarrow> distinct N \<and> (\<forall>n \<in> set N. node_id' (\<sigma> n) = n \<and> nodes_ids' (\<sigma> n) = N \<and>
     state' (\<sigma> n) = RAFT_STATE_FOLLOWER \<and> votes_granted' (\<sigma> n) = [] \<and> out' (\<sigma> n) = [])"

definition node_inv :: "node_id_t list \<Rightarrow> cluster \<Rightarrow> node_id_t \<Rightarrow> state_machine \<Rightarrow> bool" where
  "node_inv N \<sigma> n s \<longleftrightarrow> node_id' s = n \<and> nodes_ids' s = N \<and> vote_inv s \<and>
     (state' s \<noteq> RAFT_STATE_FOLLOWER \<longrightarrow> (\<forall>v \<in> set (votes_granted' s). v \<in> set N \<and> (n, current_term' s) \<in> grants (\<sigma> v)))"

definition group_inv :: "node_id_t list \<Rightarrow> cluster \<Rightarrow> bool" where
  "group_inv N \<sigma> \<longleftrightarrow> distinct N \<and> (\<forall>n \<in> set N. node_inv N \<sigma> n (\<sigma> n))"

lemma group_start_inv: "group_start N \<sigma> \<Longrightarrow> group_inv N \<sigma>"
  by (simp add: group_start_def group_inv_def node_inv_def vote_inv_def honest_def grants_def)

lemma group_inv_update:
  assumes inv: "group_inv N \<sigma>" and n: "n \<in> set N" and step: "raft_step ev (\<sigma> n) = Some s'"
    and sent: "\<And>v. v \<in> counted ev (\<sigma> n) \<Longrightarrow> v \<in> set N \<and> (n, current_term' (\<sigma> n)) \<in> grants (\<sigma> v)"
  shows "group_inv N (\<sigma>(n := s'))"
proof -
  have rel: "elect_rel (counted ev (\<sigma> n)) (\<sigma> n) s'" using step by (rule raft_step_rel)
  have old: "node_inv N \<sigma> k (\<sigma> k)" if "k \<in> set N" for k using inv that by (simp add: group_inv_def)
  have mono: "grants (\<sigma> v) \<subseteq> grants ((\<sigma>(n := s')) v)" for v
    using rel by (auto simp: elect_rel_def)
  have "node_inv N (\<sigma>(n := s')) n s'"
  proof -
    have base: "node_id' s' = n" "nodes_ids' s' = N" "vote_inv s'"
      using rel old[OF n] by (simp_all add: elect_rel_def node_inv_def)
    have "v \<in> set N \<and> (n, current_term' s') \<in> grants ((\<sigma>(n := s')) v)"
      if st: "state' s' \<noteq> RAFT_STATE_FOLLOWER" and v: "v \<in> set (votes_granted' s')" for v
    proof -
      have eq: "current_term' s' = current_term' (\<sigma> n)" "state' (\<sigma> n) \<noteq> RAFT_STATE_FOLLOWER"
        "v \<in> set (votes_granted' (\<sigma> n)) \<or> v \<in> counted ev (\<sigma> n)"
        using rel st v unfolding elect_rel_def by auto
      have "v \<in> set N \<and> (n, current_term' (\<sigma> n)) \<in> grants (\<sigma> v)"
        using eq(3) sent old[OF n] eq(2) by (auto simp: node_inv_def)
      then show ?thesis using mono[of v] eq(1) by auto
    qed
    then show ?thesis using base by (simp add: node_inv_def)
  qed
  moreover have "node_inv N (\<sigma>(n := s')) k (\<sigma> k)" if "k \<in> set N" for k
    using old[OF that] mono unfolding node_inv_def by blast
  ultimately show ?thesis using inv by (simp add: group_inv_def)
qed

lemma cluster_step_inv:
  assumes "cluster_step N \<sigma> \<sigma>'" "group_inv N \<sigma>"
  shows "group_inv N \<sigma>'"
  using assms
proof (induction rule: cluster_step.induct)
  case (deliver n k m \<sigma> s')
  show ?case
  proof (rule group_inv_update[OF deliver.prems deliver.hyps(1,4)])
    fix v assume "v \<in> counted (Recv m) (\<sigma> n)"
    then obtain r where r: "m = RAFT_REQ_VOTE_RESP r" "rp_vote_granted r" "rp_term r = current_term' (\<sigma> n)" "rp_source r = v"
      by (auto simp: counted_def)
    have "node_inv N \<sigma> k (\<sigma> k)" using deliver by (simp add: group_inv_def)
    then have "v = k" using r deliver.hyps(3) by (auto simp: node_inv_def vote_inv_def honest_def)
    then show "v \<in> set N \<and> (n, current_term' (\<sigma> n)) \<in> grants (\<sigma> v)"
      using r deliver.hyps(2,3) by (auto simp: grants_def intro!: exI[of _ r])
  qed
next
  case (external n t \<sigma> s')
  then show ?case by (intro group_inv_update) (auto simp: counted_def)
next
  case (internal n ev \<sigma> s')
  then show ?case by (intro group_inv_update[of N \<sigma> n ev]) (auto simp: counted_def)
qed

lemma cluster_steps_inv: "(cluster_step N)\<^sup>*\<^sup>* \<sigma> \<sigma>' \<Longrightarrow> group_inv N \<sigma> \<Longrightarrow> group_inv N \<sigma>'"
  by (induction rule: rtranclp_induct) (auto intro: cluster_step_inv)

lemma leader_has_majority:
  assumes "group_inv N \<sigma>" "n \<in> set N" "state' (\<sigma> n) = RAFT_STATE_LEADER"
  shows "set (votes_granted' (\<sigma> n)) \<subseteq> set N" "card (set (votes_granted' (\<sigma> n))) * 2 > length N"
    "v \<in> set (votes_granted' (\<sigma> n)) \<Longrightarrow> (n, current_term' (\<sigma> n)) \<in> grants (\<sigma> v)"
  using assms by (auto simp: group_inv_def node_inv_def vote_inv_def distinct_card)

text \<open>The steps as an executable function: the \<^term>\<open>i\<close>-th message of node \<^term>\<open>k\<close> is delivered, or a node acts.\<close>

datatype cluster_event = Deliver node_id_t nat | Local node_id_t raft_event

fun cluster_exec :: "node_id_t list \<Rightarrow> cluster_event \<Rightarrow> cluster \<Rightarrow> cluster option" where
  "cluster_exec N (Deliver k i) \<sigma> = do {
     boost_assert (k \<in> set N \<and> i < length (out' (\<sigma> k)));
     let (n, m) = out' (\<sigma> k) ! i;
     boost_assert (n \<in> set N);
     s' \<leftarrow> raft_step (Recv m) (\<sigma> n);
     Some (\<sigma>(n := s')) }"
| "cluster_exec N (Local n ev) \<sigma> = do {
     boost_assert (n \<in> set N \<and> (case ev of Recv _ \<Rightarrow> False | _ \<Rightarrow> True));
     s' \<leftarrow> raft_step ev (\<sigma> n);
     Some (\<sigma>(n := s')) }"

lemma cluster_exec_step: "cluster_exec N ev \<sigma> = Some \<sigma>' \<Longrightarrow> cluster_step N \<sigma> \<sigma>'"
proof (cases ev)
  case (Deliver k i)
  assume "cluster_exec N ev \<sigma> = Some \<sigma>'"
  then have ok: "k \<in> set N" "i < length (out' (\<sigma> k))" "fst (out' (\<sigma> k) ! i) \<in> set N"
    and st: "Option.bind (raft_step (Recv (snd (out' (\<sigma> k) ! i))) (\<sigma> (fst (out' (\<sigma> k) ! i))))
      (\<lambda>s'. Some (\<sigma>(fst (out' (\<sigma> k) ! i) := s'))) = Some \<sigma>'"
    by (simp_all add: Deliver case_prod_beta Let_def split: if_splits)
  have mem: "(fst (out' (\<sigma> k) ! i), snd (out' (\<sigma> k) ! i)) \<in> set (out' (\<sigma> k))" using ok(2) by simp
  obtain s' where "raft_step (Recv (snd (out' (\<sigma> k) ! i))) (\<sigma> (fst (out' (\<sigma> k) ! i))) = Some s'"
    "\<sigma>' = \<sigma>(fst (out' (\<sigma> k) ! i) := s')"
    using st by (auto simp: Option.bind_eq_Some_conv)
  then show ?thesis using cluster_step.deliver[where \<sigma> = \<sigma>, OF ok(3,1) mem] by simp
next
  case (Local n e)
  assume ex: "cluster_exec N ev \<sigma> = Some \<sigma>'"
  have local: "e \<noteq> Recv m" for m using ex by (auto simp: Local)
  obtain s' where "n \<in> set N" "raft_step e (\<sigma> n) = Some s'" "\<sigma>' = \<sigma>(n := s')"
    using ex by (auto simp: Local Option.bind_eq_Some_conv split: if_splits)
  then show ?thesis using cluster_step.internal[of n N e \<sigma> s'] local by simp
qed

lemma cluster_exec_steps: "run (cluster_exec N) evs \<sigma> = Some \<sigma>' \<Longrightarrow> (cluster_step N)\<^sup>*\<^sup>* \<sigma> \<sigma>'"
proof (induction evs arbitrary: \<sigma>)
  case (Cons ev evs)
  then obtain \<tau> where "cluster_exec N ev \<sigma> = Some \<tau>" "run (cluster_exec N) evs \<tau> = Some \<sigma>'"
    by (auto split: option.splits)
  then show ?case using Cons.IH cluster_exec_step by (meson converse_rtranclp_into_rtranclp)
qed simp

text \<open>A group of three replicas of shard 1 that has just been started.\<close>

definition demo_nodes :: "node_id_t list" where
  "demo_nodes = [MAKE_NODE_ID 1 1 [''RLB''], MAKE_NODE_ID 2 1 [''RLB''], MAKE_NODE_ID 3 1 [''RLB'']]"

definition start_node :: "(node_id_t \<times> nat) list \<Rightarrow> raft_log_state option \<Rightarrow> log_record list \<Rightarrow> node_id_t \<Rightarrow> state_machine option" where
  "start_node nodes st records n = do { s \<leftarrow> new_state_machine n 100 1 8 1; on_start nodes st records 0 s }"

definition demo_group :: cluster where
  "demo_group n = (case start_node (map (\<lambda>k. (k, 0)) demo_nodes) None [] n of Some s \<Rightarrow> s | None \<Rightarrow> undefined)"

definition demo_election :: "cluster_event list" where
  "demo_election = [Local 65794 (Tick 0), Local 65794 Log_strand, Local 65794 Strand,
     Deliver 65794 0, Deliver 65794 1, Deliver 65794 3, Deliver 66050 0]"

lemma demo_start: "group_start demo_nodes demo_group"
  by code_simp

lemma demo_election_run:
  "map_option (\<lambda>\<sigma>. (state' (\<sigma> 65794), current_term' (\<sigma> 65794), current_term' (\<sigma> 66050)))
     (run (cluster_exec demo_nodes) demo_election demo_group) = Some (RAFT_STATE_LEADER, 1, 1)"
  by code_simp

text \<open>
  (C26) Election safety: in a group of replicas that start as followers and are
  not restarted, whatever messages are lost, delayed, reordered or
  duplicated, two nodes that are leaders in the same term are the same node.
\<close>

theorem election_safety:
  assumes "group_start N \<sigma>\<^sub>0" "(cluster_step N)\<^sup>*\<^sup>* \<sigma>\<^sub>0 \<sigma>" "a \<in> set N" "b \<in> set N"
    and "state' (\<sigma> a) = RAFT_STATE_LEADER" "state' (\<sigma> b) = RAFT_STATE_LEADER"
    and "current_term' (\<sigma> a) = current_term' (\<sigma> b)"
  shows "a = b"
proof -
  have inv: "group_inv N \<sigma>" using cluster_steps_inv[OF assms(2) group_start_inv[OF assms(1)]] .
  then have card: "card (set N) = length N" by (simp add: group_inv_def distinct_card)
  have "set (votes_granted' (\<sigma> a)) \<inter> set (votes_granted' (\<sigma> b)) \<noteq> {}"
    using leader_has_majority(1,2)[OF inv assms(3,5)] leader_has_majority(1,2)[OF inv assms(4,6)] card
    by (intro majority_intersect[of "set N"]) simp_all
  then obtain v where v: "v \<in> set (votes_granted' (\<sigma> a))" "v \<in> set (votes_granted' (\<sigma> b))" by auto
  have "(a, current_term' (\<sigma> a)) \<in> grants (\<sigma> v)" "(b, current_term' (\<sigma> a)) \<in> grants (\<sigma> v)"
    using leader_has_majority(3)[OF inv assms(3,5) v(1)] leader_has_majority(3)[OF inv assms(4,6) v(2)] assms(7) by simp_all
  moreover have "vote_inv (\<sigma> v)"
    using inv v(1) leader_has_majority(1)[OF inv assms(3,5)] by (auto simp: group_inv_def node_inv_def)
  ultimately show ?thesis by (rule vote_invD(6)[rotated])
qed

theorem election_safety_witness:
  "\<exists>\<sigma>. (cluster_step demo_nodes)\<^sup>*\<^sup>* demo_group \<sigma> \<and> state' (\<sigma> 65794) = RAFT_STATE_LEADER \<and>
     current_term' (\<sigma> 66050) = current_term' (\<sigma> 65794) \<and> state' (\<sigma> 66050) \<noteq> RAFT_STATE_LEADER"
proof -
  obtain \<sigma> where r: "run (cluster_exec demo_nodes) demo_election demo_group = Some \<sigma>"
    and l: "state' (\<sigma> 65794) = RAFT_STATE_LEADER" "current_term' (\<sigma> 65794) = 1" "current_term' (\<sigma> 66050) = 1"
    using demo_election_run by auto
  have "set demo_nodes = {65794, 66050, 66306}" by code_simp
  then have "state' (\<sigma> 66050) \<noteq> RAFT_STATE_LEADER"
    using election_safety[OF demo_start cluster_exec_steps[OF r], of 65794 66050] l by auto
  then show ?thesis using cluster_exec_steps[OF r] l by auto
qed

end
