(* ===== verification/Raft_Log.thy ===== *)
theory Raft_Log
  imports Raft_Election
begin

text \<open>
  The log of a replica and what it delivers: the entries of the log carry
  consecutive indices above the consistency index, and the callback
  \<^verbatim>\<open>fn_on_commit_entries_\<close> is given every entry once, in the order of the
  indices, whatever happens in the group.
\<close>

section \<open>The invariant\<close>

definition delivered :: "state_machine \<Rightarrow> nat list" where
  "delivered s = concat (map (\<lambda>e. case e of On_commit_entries ec _ es \<Rightarrow> if ec = EC_OK then map e_index es else [] | _ \<Rightarrow> []) (effects' s))"

definition sent_requests :: "state_machine \<Rightarrow> append_entries_request set" where
  "sent_requests s = {r. \<exists>d. (d, RAFT_APPEND_ENTRIES_REQ r) \<in> set (out' s)}"

definition pending_requests :: "state_machine \<Rightarrow> append_entries_request set" where
  "pending_requests s = {r. \<exists>m wl. Cont_follower_append r m wl \<in> set (strand' s) \<or>
     (\<exists>w. (w, Some (Cont_follower_append r m wl)) \<in> set (log_strand' s))}"

definition consecutive :: "nat \<Rightarrow> raft_log_entry list \<Rightarrow> bool" where
  "consecutive i es \<longleftrightarrow> map e_index es = [i..<i + length es]"

definition request_ok :: "append_entries_request \<Rightarrow> bool" where
  "request_ok r \<longleftrightarrow> consecutive (ae_prev_log_index r + 1) (ae_entries r) \<and> ae_consistency_index r \<le> ae_commit_index r"

definition log_inv :: "nat \<Rightarrow> state_machine \<Rightarrow> bool" where
  "log_inv c\<^sub>0 s \<longleftrightarrow> consecutive (consistent_log_index' s + 1) (log' s) \<and>
     (consistent_log_index' s = 0 \<or> consistent_log_index' s + 10 \<le> commit_index' s) \<and>
     c\<^sub>0 \<le> commit_index' s \<and> delivered s = [c\<^sub>0 + 1..<commit_index' s + 1] \<and>
     (\<forall>r \<in> sent_requests s \<union> pending_requests s. request_ok r)"

lemma upt_append_le: "i \<le> j \<Longrightarrow> j \<le> k \<Longrightarrow> [i..<j] @ [j..<k] = [i..<k]"
  by (metis le_add_diff_inverse upt_add_eq_append)

lemma consecutive_Nil [simp]: "consecutive i []"
  by (simp add: consecutive_def)

lemma consecutive_append:
  "consecutive i (xs @ ys) \<longleftrightarrow> consecutive i xs \<and> consecutive (i + length xs) ys"
proof -
  have "[i..<i + (length xs + length ys)] = [i..<i + length xs] @ [i + length xs..<i + length xs + length ys]"
    by (metis add.assoc le_add1 upt_add_eq_append)
  then show ?thesis by (auto simp: consecutive_def add.assoc)
qed

lemma consecutive_take: "consecutive i xs \<Longrightarrow> consecutive i (take n xs)"
  using consecutive_append[of i "take n xs" "drop n xs"] by simp

lemma consecutive_drop: "consecutive i xs \<Longrightarrow> n \<le> length xs \<Longrightarrow> consecutive (i + n) (drop n xs)"
  using consecutive_append[of i "take n xs" "drop n xs"] by simp

lemma consecutive_nth: "consecutive i xs \<longleftrightarrow> (\<forall>k < length xs. e_index (xs ! k) = i + k)"
  unfolding consecutive_def list_eq_iff_nth_eq by simp

lemma delivered_simps [simp]:
  "delivered (s\<lparr>log' := l\<rparr>) = delivered s" "delivered (s\<lparr>log_state' := st\<rparr>) = delivered s"
  "delivered (s\<lparr>commit_index' := ci\<rparr>) = delivered s" "delivered (s\<lparr>consistent_log_index' := k\<rparr>) = delivered s"
  "delivered (s\<lparr>log_strand' := ls\<rparr>) = delivered s" "delivered (s\<lparr>strand' := ks\<rparr>) = delivered s"
  "delivered (s\<lparr>out' := ms\<rparr>) = delivered s" "delivered (s\<lparr>progress' := ps\<rparr>) = delivered s"
  "delivered (s\<lparr>tx_logs' := tls\<rparr>) = delivered s" "delivered (s\<lparr>written' := wr\<rparr>) = delivered s"
  "delivered (s\<lparr>state' := x\<rparr>) = delivered s"
  by (simp_all add: delivered_def)

lemma delivered_emit [simp]:
  "delivered (emit_effect e s) = delivered s @ (case e of On_commit_entries ec _ es \<Rightarrow> if ec = EC_OK then map e_index es else [] | _ \<Rightarrow> [])"
  by (simp add: delivered_def emit_effect_def)

section \<open>Operations that leave it alone\<close>

definition same_log :: "state_machine \<Rightarrow> state_machine \<Rightarrow> bool" where
  "same_log s s' \<longleftrightarrow> log' s' = log' s \<and> consistent_log_index' s' = consistent_log_index' s \<and>
     commit_index' s' = commit_index' s \<and> delivered s' = delivered s \<and>
     sent_requests s' = sent_requests s \<and> pending_requests s' = pending_requests s"

lemma same_log_refl [simp, intro]: "same_log s s"
  by (simp add: same_log_def)

lemma same_log_trans: "same_log s t \<Longrightarrow> same_log t u \<Longrightarrow> same_log s u"
  by (simp add: same_log_def)

lemma same_log_inv: "same_log s s' \<Longrightarrow> log_inv c s \<Longrightarrow> log_inv c s'"
  by (simp add: same_log_def log_inv_def)

lemma same_log_send:
  "(\<And>r. m \<noteq> RAFT_APPEND_ENTRIES_REQ r) \<Longrightarrow> same_log s (raft_async_send d m s)"
  by (auto simp: same_log_def raft_async_send_def delivered_def sent_requests_def pending_requests_def)

lemma same_log_fields [simp]:
  "same_log s (set_progress n p s)" "same_log s (set_log_state s)" "same_log s (s\<lparr>tick_count' := tc\<rparr>)"
  "same_log s (s\<lparr>timer' := tm\<rparr>)" "same_log s (s\<lparr>tx_logs' := tls\<rparr>)" "same_log s (s\<lparr>leader_id' := ld\<rparr>)"
  "same_log s (s\<lparr>votes_responded' := vr\<rparr>)" "same_log s (s\<lparr>votes_granted' := vg\<rparr>)" "same_log s (s\<lparr>stopped' := sp\<rparr>)"
  "same_log s (s\<lparr>state' := x, leader_id' := ld\<rparr>)" "same_log s (s\<lparr>leader_id' := ld, tick_count' := tc\<rparr>)"
  "same_log s (s\<lparr>has_voted_for' := h, voted_for' := v\<rparr>)"
  "same_log s (write_state st None s)" "same_log s (write_state st (Some Cont_request_vote) s)"
  "same_log s (emit_effect (On_become_leader t) s)" "same_log s (become_follower s)" "same_log s (update_term t s)"
  "same_log s (become_follower (s\<lparr>tick_count' := tc, current_term' := t\<rparr>))"
  "ec \<noteq> EC_OK \<Longrightarrow> same_log s (emit_effect (On_commit_entries ec b es) s)"
  by (auto simp: same_log_def delivered_def sent_requests_def pending_requests_def set_progress_def set_log_state_def
      write_state_def emit_effect_def become_follower_def update_term_def)

lemma same_log_response [simp]: "same_log s (response_append_entries_response to ts ok m hb wl s)"
  unfolding response_append_entries_response_def by (rule same_log_send) simp

lemma same_log_fold: "(\<And>x s. same_log s (f x s)) \<Longrightarrow> same_log s (fold f xs s)"
  by (induction xs arbitrary: s) (auto intro: same_log_trans)

lemma same_log_request_vote: "same_log s (request_vote s)"
  unfolding request_vote_def by (auto intro!: same_log_fold same_log_send)

lemma same_log_timeout: "same_log s (timeout_request_vote s)"
  by (simp add: timeout_request_vote_def Let_def same_log_def delivered_def sent_requests_def pending_requests_def
      set_log_state_def write_state_def)

lemma same_log_vote_request: "same_log s (handle_request_vote_request r s)"
  unfolding handle_request_vote_request_def Let_def
  by (rule same_log_trans[OF _ same_log_send]) (auto intro: same_log_trans[OF same_log_fields(17) same_log_fields(12)])

lemma same_log_leader_progress: "same_log s (leader_progress i n s)"
  by (simp add: leader_progress_def Let_def)

section \<open>Operations that move it\<close>

lemma last_log_index_eq: "last_log_index s = consistent_log_index' s + length (log' s)"
  by (simp add: last_log_index_def)

lemma log_invD:
  assumes "log_inv c s"
  shows "consecutive (consistent_log_index' s + 1) (log' s)"
    "consistent_log_index' s = 0 \<or> consistent_log_index' s + 10 \<le> commit_index' s"
    "c \<le> commit_index' s" "delivered s = [c + 1..<commit_index' s + 1]"
    "r \<in> sent_requests s \<Longrightarrow> request_ok r" "r \<in> pending_requests s \<Longrightarrow> request_ok r"
  using assms by (auto simp: log_inv_def)

lemma sent_pending_frame [simp]:
  "sent_requests (s\<lparr>commit_index' := ci\<rparr>) = sent_requests s" "pending_requests (s\<lparr>commit_index' := ci\<rparr>) = pending_requests s"
  "sent_requests (s\<lparr>log_state' := st\<rparr>) = sent_requests s" "pending_requests (s\<lparr>log_state' := st\<rparr>) = pending_requests s"
  "sent_requests (s\<lparr>log' := l\<rparr>) = sent_requests s" "pending_requests (s\<lparr>log' := l\<rparr>) = pending_requests s"
  "sent_requests (s\<lparr>consistent_log_index' := kk\<rparr>) = sent_requests s" "pending_requests (s\<lparr>consistent_log_index' := kk\<rparr>) = pending_requests s"
  "sent_requests (emit_effect e s) = sent_requests s" "pending_requests (emit_effect e s) = pending_requests s"
  "sent_requests (write_state st k s) = sent_requests s" "pending_requests (write_state st None s) = pending_requests s"
  "sent_requests (write_log w k s) = sent_requests s"
  by (auto simp: sent_requests_def pending_requests_def emit_effect_def write_state_def write_log_def)

lemma emit_write_fields [simp]:
  "log' (emit_effect e s) = log' s" "consistent_log_index' (emit_effect e s) = consistent_log_index' s"
  "commit_index' (emit_effect e s) = commit_index' s" "log' (write_state st k s) = log' s"
  "consistent_log_index' (write_state st k s) = consistent_log_index' s" "commit_index' (write_state st k s) = commit_index' s"
  "delivered (write_state st k s) = delivered s" "log' (write_log w k s) = log' s"
  "consistent_log_index' (write_log w k s) = consistent_log_index' s" "commit_index' (write_log w k s) = commit_index' s"
  "delivered (write_log w k s) = delivered s"
  by (simp_all add: emit_effect_def write_state_def write_log_def delivered_def)

lemma update_commit_index_reaches:
  assumes upd: "update_commit_index i s = Some s'" and ne: "log' s \<noteq> []"
  shows "min (last_log_index s) i \<le> commit_index' s'"
proof (rule ccontr)
  assume neg: "\<not> min (last_log_index s) i \<le> commit_index' s'"
  have "commit_index' s \<le> commit_index' s'"
    using upd by (auto simp: update_commit_index_def Let_def Option.bind_eq_Some_conv log_index_to_offset_def
        emit_effect_def write_state_def split: if_splits)
  then have "\<not> i \<le> commit_index' s" "commit_index' s < min (last_log_index s) i" using neg by linarith+
  then have "commit_index' s' = min (last_log_index s) i"
    using upd ne by (auto simp: update_commit_index_def Let_def Option.bind_eq_Some_conv log_index_to_offset_def split: if_splits)
  then show False using neg by simp
qed

lemma update_commit_index_inv:
  assumes inv: "log_inv c s" and upd: "update_commit_index i s = Some s'"
  shows "log_inv c s' \<and> log' s' = log' s \<and> consistent_log_index' s' = consistent_log_index' s \<and>
    commit_index' s \<le> commit_index' s' \<and> (log' s \<noteq> [] \<longrightarrow> min (last_log_index s) i \<le> commit_index' s')"
proof (cases "s' = s")
  case True
  have "min (last_log_index s) i \<le> commit_index' s" if "log' s \<noteq> []"
    using update_commit_index_reaches[OF upd that] True by simp
  then show ?thesis using True inv by simp
next
  case False
  let ?c = "min (last_log_index s) i" and ?p = "commit_index' s" and ?k = "consistent_log_index' s"
  define b where "b = (if ?p \<noteq> 0 then Suc (?p - ?k - 1) else 0)"
  define e where "e = (if ?c \<noteq> 0 then Suc (?c - ?k - 1) else 0)"
  define st where "st = (log_state' s)\<lparr>ls_commit_index := ?c\<rparr>"
  have nz: "?p \<noteq> 0 \<Longrightarrow> ?k + 1 \<le> ?p" "?c \<noteq> 0 \<Longrightarrow> ?k + 1 \<le> ?c" and be: "b < e" and lt: "log' s \<noteq> []"
    and s': "s' = (emit_effect (On_commit_entries EC_OK (state' s = RAFT_STATE_LEADER) (drop b (take e (log' s))))
        (write_state st None (s\<lparr>log_state' := st\<rparr>)))\<lparr>commit_index' := ?c\<rparr>"
    using upd False unfolding b_def e_def st_def
    by (auto simp: update_commit_index_def Let_def Option.bind_eq_Some_conv log_index_to_offset_def write_state_def split: if_splits)
  have bp: "?k + b = ?p" "?k + e = ?c" using log_invD(2)[OF inv] nz be by (auto simp: b_def e_def split: if_splits)
  have el: "e \<le> length (log' s)" using bp(2) by (simp add: last_log_index_eq)
  have "consecutive (?k + 1 + b) (drop b (take e (log' s)))"
    using log_invD(1)[OF inv] be el by (intro consecutive_drop consecutive_take) simp_all
  moreover have "?k + 1 + b = ?p + 1" "?p + 1 + length (drop b (take e (log' s))) = ?c + 1"
    using be el bp by linarith (use be el bp in simp)
  ultimately have "map e_index (drop b (take e (log' s))) = [?p + 1..<?c + 1]"
    unfolding consecutive_def by metis
  moreover have "[c + 1..<?p + 1] @ [?p + 1..<?c + 1] = [c + 1..<?c + 1]"
    using log_invD(3)[OF inv] be bp by (intro upt_append_le) linarith+
  ultimately have "delivered s' = [c + 1..<?c + 1]"
    using log_invD(4)[OF inv] by (simp add: s')
  then show ?thesis
    using inv be bp lt by (auto simp: s' log_inv_def)
qed

lemma update_consistency_index_inv:
  assumes inv: "log_inv c s" and upd: "update_consistency_index i s = Some s'"
    and le: "log' s \<noteq> [] \<Longrightarrow> i \<le> commit_index' s"
  shows "log_inv c s'"
proof (cases "s' = s")
  case False
  let ?k = "consistent_log_index' s"
  define st where "st = (log_state' s)\<lparr>ls_consistency_index := i - 10\<rparr>"
  have b: "?k + 10 \<le> i" "i - 10 - ?k \<le> length (log' s)"
    and s': "s' = write_state st None
      (s\<lparr>log' := drop (i - 10 - ?k) (log' s), consistent_log_index' := i - 10, log_state' := st\<rparr>)"
    using upd False unfolding st_def by (auto simp: update_consistency_index_def Let_def split: if_splits)
  have "consecutive (?k + 1 + (i - 10 - ?k)) (drop (i - 10 - ?k) (log' s))"
    using log_invD(1)[OF inv] b(2) by (rule consecutive_drop)
  moreover have "?k + 1 + (i - 10 - ?k) = i - 10 + 1" using b(1) by simp
  ultimately have "consecutive (i - 10 + 1) (drop (i - 10 - ?k) (log' s))" by simp
  moreover have "i - 10 = 0 \<or> i - 10 + 10 \<le> commit_index' s"
  proof (cases "log' s = []")
    case True
    then have "i - 10 = ?k" using b by simp
    then show ?thesis using log_invD(2)[OF inv] by simp
  qed (use le b(1) in simp)
  ultimately show ?thesis using inv by (simp add: s' log_inv_def)
qed (use inv in simp)

lemma follower_updates_inv:
  assumes inv: "log_inv c s" and upd: "follower_updates r s = Some s'" and ok: "request_ok r"
  shows "log_inv c s'"
proof -
  obtain t where t: "update_commit_index (ae_commit_index r) s = Some t"
    and u: "update_consistency_index (ae_consistency_index r) t = Some s'"
    using upd by (auto simp: follower_updates_def Option.bind_eq_Some_conv)
  note c = update_commit_index_inv[OF inv t]
  show ?thesis
  proof (rule update_consistency_index_inv[OF _ u])
    show "log_inv c t" using c by simp
    assume ne: "log' t \<noteq> []"
    then have "ae_consistency_index r \<le> last_log_index t"
      using u by (auto simp: update_consistency_index_def split: if_splits)
    moreover have "last_log_index t = last_log_index s" using c by (simp add: last_log_index_eq)
    moreover have "ae_consistency_index r \<le> ae_commit_index r" using ok by (simp add: request_ok_def)
    ultimately show "ae_consistency_index r \<le> commit_index' t" using c ne by auto
  qed
qed

lemma leader_advance_commit_index_inv:
  "log_inv c s \<Longrightarrow> leader_advance_commit_index s = Some s' \<Longrightarrow> log_inv c s'"
  using update_commit_index_inv
  by (auto simp: leader_advance_commit_index_def Option.bind_eq_Some_conv split: if_splits)

lemma consistency_scan_le: "consistency_scan n s = Some i \<Longrightarrow> i \<le> commit_index' s"
  by (induction n) (auto simp: Option.bind_eq_Some_conv split: if_splits)

lemma leader_advance_consistency_index_inv:
  assumes "log_inv c s" "leader_advance_consistency_index s = Some s'"
  shows "log_inv c s'"
  using assms consistency_scan_le[of "length (log' s)" s]
  by (auto simp: leader_advance_consistency_index_def Option.bind_eq_Some_conv
      intro: update_consistency_index_inv split: if_splits)

lemma append_entries_inv:
  assumes inv: "log_inv c s" and ap: "append_entries n s = Some s'"
  shows "log_inv c s'"
proof -
  obtain to ae p where s': "s' = raft_async_send to (RAFT_APPEND_ENTRIES_REQ ae) (set_progress n p s)"
    and en: "\<forall>i < length (ae_entries ae). e_index (ae_entries ae ! i) = ae_prev_log_index ae + 1 + i"
    and idx: "ae_commit_index ae = commit_index' s" "ae_consistency_index ae = consistent_log_index' s"
    using ap by (elim append_entriesE) (simp add: append_request_def Let_def)
  have "request_ok ae"
    using en idx log_invD(2)[OF inv] unfolding request_ok_def consecutive_nth by auto
  moreover have "sent_requests s' \<subseteq> insert ae (sent_requests s)" "pending_requests s' = pending_requests s"
    "log' s' = log' s" "consistent_log_index' s' = consistent_log_index' s" "commit_index' s' = commit_index' s"
    "delivered s' = delivered s"
    by (auto simp: s' raft_async_send_def set_progress_def sent_requests_def pending_requests_def delivered_def)
  ultimately show ?thesis using inv by (auto simp: log_inv_def)
qed

lemma append_entries_to_inv:
  "log_inv c s \<Longrightarrow> append_entries_to ns s = Some s' \<Longrightarrow> log_inv c s'"
  by (induction ns arbitrary: s) (auto simp: Option.bind_eq_Some_conv intro: append_entries_inv split: if_splits)

lemma pending_write_log:
  "pending_requests (write_log w (Some (Cont_leader_append i)) s) = pending_requests s"
  "pending_requests (write_log w (Some (Cont_follower_append r m wl)) s) = insert r (pending_requests s)"
  by (auto simp: pending_requests_def write_log_def)

lemma leader_append_entry_inv:
  assumes inv: "log_inv c s" and ap: "leader_append_entry e s = Some (r, s')"
  shows "log_inv c s'"
proof (cases e)
  case None
  then show ?thesis
    using ap inv by (auto simp: leader_append_entry_def leader_send_append_entries_def Option.bind_eq_Some_conv
        intro: append_entries_to_inv split: if_splits)
next
  case (Some bytes)
  show ?thesis
  proof (cases "state' s = RAFT_STATE_LEADER")
    case True
    define x where "x = \<lparr>e_term = current_term' s, e_index = consistent_log_index' s + length (log' s) + 1, e_logs = bytes\<rparr>"
    have s': "s' = write_log [x] (Some (Cont_leader_append (e_index x))) (s\<lparr>log' := log' s @ [x]\<rparr>)"
      using ap True by (auto simp: leader_append_entry_def Some offset_to_log_index_def Let_def Option.bind_eq_Some_conv x_def)
    have "consecutive (consistent_log_index' s + 1) (log' s @ [x])"
      using log_invD(1)[OF inv] by (simp add: consecutive_append) (simp add: consecutive_def x_def)
    then show ?thesis using inv by (simp add: s' log_inv_def pending_write_log)
  qed (use ap inv in \<open>simp add: leader_append_entry_def\<close>)
qed

lemma heart_beat_inv: "log_inv c s \<Longrightarrow> heart_beat s = Some s' \<Longrightarrow> log_inv c s'"
  by (auto simp: heart_beat_def intro: leader_append_entry_inv)

lemma send_append_log_inv:
  assumes inv: "log_inv c s" and sl: "send_append_log h s = Some (r, s')"
  shows "log_inv c s'"
proof (cases "tx_logs' s = []")
  case True
  then show ?thesis
    using sl inv by (auto simp: send_append_log_def Option.bind_eq_Some_conv intro: heart_beat_inv split: if_splits)
next
  case False
  define b where "b = concat (take (batch_count s) (tx_logs' s))"
  obtain u where u: "leader_append_entry (Some b) (s\<lparr>tx_logs' := drop (batch_count s) (tx_logs' s)\<rparr>) = Some (r, u)"
    and s': "s' = (if r = EC_OK then u
      else emit_effect (On_commit_entries r (state' u = RAFT_STATE_LEADER) [\<lparr>e_term = 0, e_index = 0, e_logs = b\<rparr>]) u)"
    using sl False by (auto simp: send_append_log_def Let_def Option.bind_eq_Some_conv b_def)
  have "log_inv c u" using leader_append_entry_inv[OF same_log_inv[OF same_log_fields(5) inv] u] .
  then show ?thesis using s' same_log_inv[OF same_log_fields(19)] by simp
qed

lemma leader_append_done_inv:
  assumes inv: "log_inv c s" and "leader_append_done i s = Some s'"
  shows "log_inv c s'"
proof -
  let ?u = "set_log_state s"
  let ?v = "case progress_of (node_id' ?u) ?u of
        Some p \<Rightarrow> set_progress (node_id' ?u) (p\<lparr>p_match_index := i, p_next_index := i + 1\<rparr>) ?u | None \<Rightarrow> ?u"
  have "same_log s ?v" by (auto intro: same_log_trans[OF same_log_fields(2)] split: option.split)
  moreover have "append_entries_to (map fst (progress' ?v)) ?v = Some s'"
    using assms(2) unfolding leader_append_done_def leader_send_append_entries_def Let_def .
  ultimately show ?thesis using append_entries_to_inv[OF same_log_inv[OF _ inv]] by blast
qed

lemma push_entries_eq:
  "push_entries es s = Some s' \<Longrightarrow> s' = s\<lparr>log' := log' s @ es\<rparr>"
proof (induction es arbitrary: s)
  case (Cons e es)
  then have "push_entries es (s\<lparr>log' := log' s @ [e]\<rparr>) = Some s'"
    by (auto simp: Let_def Option.bind_eq_Some_conv)
  from Cons.IH[OF this] show ?case by simp
qed simp

lemma follower_appended_inv:
  assumes inv: "log_inv c s" and ok: "request_ok r" and es: "consecutive (consistent_log_index' s + length (log' s) + 1) es"
  shows "log_inv c (write_log w (Some (Cont_follower_append r m wl)) (s\<lparr>log' := log' s @ es\<rparr>))"
  using inv ok es by (auto simp: log_inv_def pending_write_log consecutive_append)

lemma responded_inv:
  assumes "log_inv c s" "request_ok r" "follower_updates r (response_append_entries_response to ts ok m hb wl s) = Some s'"
  shows "log_inv c s'"
  using follower_updates_inv[OF same_log_inv[OF same_log_response assms(1)] assms(3,2)] .

lemma conflict_scan_agree:
  "conflict_scan ls rs = Some (Some n) \<Longrightarrow> n = length ls \<or> n = length rs"
  "conflict_scan ls rs = Some (Some n) \<Longrightarrow> n \<le> length ls \<and> n \<le> length rs"
  by (induction ls rs arbitrary: n rule: conflict_scan.induct)
    (fastforce simp: Option.bind_eq_Some_conv split: if_splits)+

lemma request_position_aligned:
  "request_position r s = Some (ok, ni, no, ea) \<Longrightarrow> ae_prev_log_index r + 1 + ea = consistent_log_index' s + 1 + no"
  by (auto simp: request_position_def Let_def Option.bind_eq_Some_conv log_index_to_offset_def split: if_splits)

lemma request_entries_from:
  assumes "request_ok r" "request_position r s = Some (ok, ni, no, ea)"
  shows "consecutive (consistent_log_index' s + 1 + no + n) (drop (ea + n) (ae_entries r))"
proof (cases "ea + n \<le> length (ae_entries r)")
  case True
  then have "consecutive (ae_prev_log_index r + 1 + (ea + n)) (drop (ea + n) (ae_entries r))"
    using assms(1) by (intro consecutive_drop) (simp_all add: request_ok_def)
  moreover have "ae_prev_log_index r + 1 + (ea + n) = consistent_log_index' s + 1 + no + n"
    using request_position_aligned[OF assms(2)] by simp
  ultimately show ?thesis by (simp only:)
qed simp

lemma append_at_end_inv:
  assumes inv: "log_inv c s" and ok: "request_ok r" and pos: "request_position r s = Some (b, ni, length (log' s), ea)"
    and ap: "append_at_end r ea s = Some s'"
  shows "log_inv c s'"
proof -
  let ?es = "drop ea (ae_entries r)"
  have s': "s' = write_log ?es (Some (Cont_follower_append r (ae_prev_log_index r + ea + length ?es) (?es \<noteq> []))) (s\<lparr>log' := log' s @ ?es\<rparr>)"
    using ap by (auto simp: append_at_end_def Let_def Option.bind_eq_Some_conv dest: push_entries_eq)
  have "consecutive (consistent_log_index' s + length (log' s) + 1) ?es"
    using request_entries_from[OF ok pos, of 0] by (simp add: add.commute)
  then show ?thesis unfolding s' by (rule follower_appended_inv[OF inv ok])
qed

lemma append_conflicting_inv:
  assumes inv: "log_inv c s" and ok: "request_ok r" and pos: "request_position r s = Some (b, ni, no, ea)"
    and no: "no < length (log' s)" and ap: "append_conflicting r no ea s = Some s'"
  shows "log_inv c s'"
proof -
  obtain scan where scan: "conflict_scan (drop no (log' s)) (drop ea (ae_entries r)) = Some scan"
    using ap by (auto simp: append_conflicting_def Option.bind_eq_Some_conv)
  show ?thesis
  proof (cases scan)
    case None
    then have "s' = s\<lparr>log' := take no (log' s)\<rparr>" using ap scan by (simp add: append_conflicting_def)
    then show ?thesis using inv by (simp add: log_inv_def consecutive_take)
  next
    case (Some n)
    let ?es = "drop (ea + n) (ae_entries r)"
    show ?thesis
    proof (cases "ea + n < length (ae_entries r)")
      case True
      then have "n = length (drop no (log' s))"
        using conflict_scan_agree(1)[OF scan[unfolded Some]] by auto
      then have "consistent_log_index' s + 1 + no + n = consistent_log_index' s + length (log' s) + 1" using no by simp
      then have "consecutive (consistent_log_index' s + length (log' s) + 1) ?es"
        using request_entries_from[OF ok pos, of n] by (simp only:)
      moreover obtain w m wl where "s' = write_log w (Some (Cont_follower_append r m wl)) (s\<lparr>log' := log' s @ ?es\<rparr>)"
        using ap scan Some True
        by (auto simp: append_conflicting_def Let_def Option.bind_eq_Some_conv dest!: push_entries_eq)
      ultimately show ?thesis using follower_appended_inv[OF inv ok] by simp
    next
      case False
      then show ?thesis
        using ap scan Some responded_inv[OF inv ok] by (simp add: append_conflicting_def Let_def)
    qed
  qed
qed

lemma follower_append_inv:
  assumes inv: "log_inv c s" and ok: "request_ok r" and ap: "follower_append r s = Some s'"
  shows "log_inv c s'"
proof -
  obtain b ni no ea where pos: "request_position r s = Some (b, ni, no, ea)"
    using ap by (auto simp: follower_append_def Option.bind_eq_Some_conv)
  consider "\<not> b" | "b" "ae_entries r = []" | "b" "ae_entries r \<noteq> []" "no < length (log' s)"
    | "b" "ae_entries r \<noteq> []" "no = length (log' s)" | "b" "ae_entries r \<noteq> []" "no > length (log' s)" by linarith
  then show ?thesis
  proof cases
    case 1
    then show ?thesis using ap pos same_log_inv[OF same_log_response inv] by (auto simp: follower_append_def Let_def)
  next
    case 2
    then show ?thesis using ap pos responded_inv[OF inv ok] by (simp add: follower_append_def Let_def)
  next
    case 3
    then show ?thesis using ap pos append_conflicting_inv[OF inv ok pos] by (simp add: follower_append_def Let_def)
  next
    case 4
    then show ?thesis using ap pos append_at_end_inv[OF inv ok pos[unfolded 4(3)]] by (simp add: follower_append_def Let_def)
  next
    case 5
    then show ?thesis using ap pos inv by (simp add: follower_append_def Let_def)
  qed
qed

lemma handle_append_entries_request_inv:
  assumes inv: "log_inv c s" and ok: "request_ok r" and h: "handle_append_entries_request r s = Some s'"
  shows "log_inv c s'"
proof -
  let ?u = "s\<lparr>leader_id' := ae_source r, tick_count' := 0\<rparr>"
  have u: "log_inv c ?u" using same_log_inv[OF same_log_fields(11) inv] .
  consider "ae_term r < current_term' s" | "ae_term r > current_term' s" | "ae_term r = current_term' s" by linarith
  then show ?thesis
  proof cases
    case 1
    then show ?thesis using h same_log_inv[OF same_log_response inv] by (auto simp: handle_append_entries_request_def)
  next
    case 2
    then show ?thesis using h same_log_inv[OF same_log_fields(18) inv] by (auto simp: handle_append_entries_request_def)
  next
    case 3
    then have "(case state' s of RAFT_STATE_LEADER \<Rightarrow> Some ?u | RAFT_STATE_CANDIDATE \<Rightarrow> Some (become_follower ?u)
        | RAFT_STATE_FOLLOWER \<Rightarrow> follower_append r ?u) = Some s'"
      using h by (simp add: handle_append_entries_request_def Let_def)
    then show ?thesis
      using u same_log_inv[OF same_log_fields(16) u] follower_append_inv[OF u ok] by (auto split: raft_state.splits)
  qed
qed

lemma handle_append_entries_response_inv:
  assumes inv: "log_inv c s" and h: "handle_append_entries_response r s = Some s'"
  shows "log_inv c s'"
proof -
  define u where "u = update_term (ar_term r) s"
  have u: "log_inv c u" unfolding u_def using same_log_inv[OF same_log_fields(17) inv] .
  have p: "log_inv c (set_progress n p u)" for n p using same_log_inv[OF same_log_fields(1) u] .
  have "s' = u \<or> (\<exists>n p. s' = set_progress n p u) \<or> (\<exists>n p. leader_advance_commit_index (set_progress n p u) = Some s')"
    using h unfolding handle_append_entries_response_def u_def[symmetric]
    by (auto simp: Let_def Option.bind_eq_Some_conv split: if_splits)
  then show ?thesis using u p leader_advance_commit_index_inv[OF p] by auto
qed

lemma become_leader_inv:
  assumes inv: "log_inv c s" and b: "become_leader s = Some s'"
  shows "log_inv c s'"
proof (cases "s' = s")
  case False
  let ?l = "s\<lparr>state' := RAFT_STATE_LEADER, leader_id' := node_id' s\<rparr>"
  let ?p = "fold (leader_progress (last_log_index ?l)) (nodes_ids' ?l) ?l"
  have "heart_beat (emit_effect (On_become_leader (current_term' ?p)) ?p) = Some s'"
    using b False unfolding become_leader_def Let_def by (simp split: if_splits)
  moreover have "same_log s (emit_effect (On_become_leader (current_term' ?p)) ?p)"
    by (rule same_log_trans[OF same_log_trans[OF same_log_fields(10) same_log_fold[OF same_log_leader_progress]] same_log_fields(15)])
  ultimately show ?thesis using heart_beat_inv[OF same_log_inv[OF _ inv]] by blast
qed (use inv in simp)

lemma handle_request_vote_response_inv:
  assumes inv: "log_inv c s" and h: "handle_request_vote_response r s = Some s'"
  shows "log_inv c s'"
proof -
  define u where "u = update_term (rp_term r) s"
  define w where "w = (let u = u\<lparr>votes_responded' := List.insert (rp_source r) (votes_responded' u)\<rparr> in
    if rp_vote_granted r then u\<lparr>votes_granted' := List.insert (rp_source r) (votes_granted' u)\<rparr> else u)"
  have u: "same_log s u" unfolding u_def by simp
  have "same_log u w"
    unfolding w_def Let_def by (auto intro: same_log_trans[OF same_log_fields(7) same_log_fields(8)])
  then have w: "log_inv c w" using same_log_inv[OF same_log_trans[OF u] inv] by blast
  have "s' = u \<or> s' = w \<or> become_leader w = Some s'"
    using h unfolding handle_request_vote_response_def u_def[symmetric] w_def Let_def by (auto split: if_splits)
  then show ?thesis using same_log_inv[OF u inv] w become_leader_inv[OF w] by auto
qed

lemma handle_transfer_leader_inv:
  assumes "log_inv c s" "handle_transfer_leader m s = Some s'"
  shows "log_inv c s'"
proof -
  have "s' = s \<or> (\<exists>d x. s' = raft_async_send d x s \<and> (\<forall>r. x \<noteq> RAFT_APPEND_ENTRIES_REQ r)) \<or>
      (\<exists>n. append_entries n s = Some s')"
    using assms(2) by (fastforce simp: handle_transfer_leader_def Let_def split: if_splits option.splits)
  then show ?thesis using assms(1) append_entries_inv same_log_inv[OF same_log_send] by metis
qed

lemma tick_inv: "log_inv c s \<Longrightarrow> tick rnd s = Some s' \<Longrightarrow> log_inv c s'"
  by (auto simp: tick_def node_transfer_leader_def Option.bind_eq_Some_conv
      intro: same_log_inv[OF same_log_fields(4)] handle_transfer_leader_inv split: if_splits)

lemma on_tick_timeout_inv:
  assumes inv: "log_inv c s" and h: "on_tick_timeout rnd s = Some s'"
  shows "log_inv c s'"
proof -
  let ?u = "s\<lparr>tick_count' := tick_count' s + 1\<rparr>"
  have u: "log_inv c ?u" using same_log_inv[OF same_log_fields(3) inv] .
  obtain w where w: "(if state' ?u = RAFT_STATE_LEADER then do {
             (_, s) \<leftarrow> send_append_log True ?u;
             if tick_count' s > 10 then do {
               s \<leftarrow> leader_advance_consistency_index s;
               Some (s\<lparr>tick_count' := 0\<rparr>) }
             else Some s }
           else if tick_count' ?u \<ge> follower_tick_max' ?u then Some (timeout_request_vote (?u\<lparr>tick_count' := 0\<rparr>))
           else Some ?u) = Some w" and t: "tick rnd w = Some s'"
    using h unfolding on_tick_timeout_def Let_def by (blast dest: bind_SomeD)
  have "log_inv c w"
  proof (cases "state' ?u = RAFT_STATE_LEADER")
    case True
    then obtain r v where v: "send_append_log True ?u = Some (r, v)"
      and w2: "w = v \<or> (\<exists>x. leader_advance_consistency_index v = Some x \<and> w = x\<lparr>tick_count' := 0\<rparr>)"
      using w by (auto simp: Option.bind_eq_Some_conv split: if_splits)
    have "log_inv c v" using send_append_log_inv[OF u v] .
    then show ?thesis using w2 leader_advance_consistency_index_inv same_log_inv[OF same_log_fields(3)] by blast
  next
    case False
    then have "w = ?u \<or> w = timeout_request_vote (?u\<lparr>tick_count' := 0\<rparr>)" using w by (auto split: if_splits)
    then show ?thesis
      using u same_log_inv[OF same_log_trans[OF same_log_fields(3) same_log_timeout] u] by auto
  qed
  then show ?thesis using tick_inv t by blast
qed

lemma strand_step_inv:
  assumes inv: "log_inv c s" and h: "strand_step s = Some s'"
  shows "log_inv c s'"
proof -
  obtain k ks where k: "strand' s = k # ks" and r: "run_cont k (s\<lparr>strand' := ks\<rparr>) = Some s'"
    using h by (auto simp: strand_step_def split: list.splits)
  let ?u = "s\<lparr>strand' := ks\<rparr>"
  have sub: "pending_requests ?u \<subseteq> pending_requests s" "sent_requests ?u = sent_requests s"
    using k by (auto simp: pending_requests_def sent_requests_def)
  then have u: "log_inv c ?u" using inv by (auto simp: log_inv_def)
  show ?thesis
  proof (cases k)
    case Cont_request_vote
    then show ?thesis using r same_log_inv[OF same_log_request_vote u] by (auto simp: run_cont_def)
  next
    case (Cont_leader_append i)
    then show ?thesis using r leader_append_done_inv[OF u] by (simp add: run_cont_def)
  next
    case (Cont_follower_append req m wl)
    then have "req \<in> pending_requests s" using k by (auto simp: pending_requests_def)
    then show ?thesis
      using r Cont_follower_append responded_inv[OF u log_invD(6)[OF inv]] by (simp add: run_cont_def follower_append_done_def)
  qed
qed

lemma log_strand_step_inv:
  assumes inv: "log_inv c s" and h: "log_strand_step s = Some s'"
  shows "log_inv c s'"
proof -
  obtain w k ws where k: "log_strand' s = (w, k) # ws"
    and s': "s' = s\<lparr>log_strand' := ws, written' := written' s @ [w], strand' := strand' s @ (case k of None \<Rightarrow> [] | Some k \<Rightarrow> [k])\<rparr>"
    using h by (auto simp: log_strand_step_def split: list.splits)
  have "pending_requests s' \<subseteq> pending_requests s" "sent_requests s' = sent_requests s" "delivered s' = delivered s"
    unfolding s' by (auto simp: pending_requests_def sent_requests_def delivered_def k split: option.splits)
  then show ?thesis using inv by (auto simp: log_inv_def s')
qed

section \<open>The group\<close>

lemma raft_step_log_inv:
  assumes inv: "log_inv c s" and step: "raft_step ev s = Some s'"
    and ok: "\<And>r. ev = Recv (RAFT_APPEND_ENTRIES_REQ r) \<Longrightarrow> request_ok r"
  shows "log_inv c s'"
proof (cases ev)
  case (Recv m)
  then have m: "on_recv_message m s = Some s'" using step by (simp add: raft_step_def)
  show ?thesis
  proof (cases m)
    case (RAFT_APPEND_ENTRIES_REQ r)
    then show ?thesis using m handle_append_entries_request_inv[OF inv ok] Recv by (simp add: on_recv_message_def)
  qed (use m inv in \<open>auto simp: on_recv_message_def handle_transfer_notify_def
        intro: handle_append_entries_response_inv handle_request_vote_response_inv handle_transfer_leader_inv
          same_log_inv[OF same_log_vote_request] same_log_inv[OF same_log_timeout]\<close>)
next
  case (Ccb_append ms logs)
  then show ?thesis
    using step inv same_log_inv[OF same_log_fields(5) inv]
    by (auto simp: raft_step_def ccb_append_log_def Let_def Option.bind_eq_Some_conv
        intro: send_append_log_inv split: if_splits)
next
  case Stop
  then show ?thesis using step same_log_inv[OF same_log_fields(9) inv] by (auto simp: raft_step_def on_stop_def)
qed (use step inv in \<open>auto simp: raft_step_def node_transfer_leader_def
      intro: on_tick_timeout_inv log_strand_step_inv strand_step_inv handle_transfer_leader_inv\<close>)

definition fresh_log :: "state_machine \<Rightarrow> bool" where
  "fresh_log s \<longleftrightarrow> consecutive (consistent_log_index' s + 1) (log' s) \<and>
     (consistent_log_index' s = 0 \<or> consistent_log_index' s + 10 \<le> commit_index' s) \<and>
     effects' s = [] \<and> out' s = [] \<and> strand' s = [] \<and> log_strand' s = []"

lemma fresh_log_inv: "fresh_log s \<Longrightarrow> log_inv (commit_index' s) s"
  by (simp add: fresh_log_def log_inv_def delivered_def sent_requests_def pending_requests_def)

lemma cluster_step_log_inv:
  assumes "cluster_step N \<sigma> \<sigma>'" "\<forall>n \<in> set N. log_inv (c n) (\<sigma> n)"
  shows "\<forall>n \<in> set N. log_inv (c n) (\<sigma>' n)"
  using assms
proof (induction rule: cluster_step.induct)
  case (deliver n k m \<sigma> s')
  have "log_inv (c n) s'"
  proof (rule raft_step_log_inv[OF _ deliver.hyps(4)])
    show "log_inv (c n) (\<sigma> n)" using deliver by blast
    fix r assume "Recv m = Recv (RAFT_APPEND_ENTRIES_REQ r)"
    then have "r \<in> sent_requests (\<sigma> k)" using deliver.hyps(3) by (auto simp: sent_requests_def)
    then show "request_ok r" using log_invD(5) deliver.prems deliver.hyps(2) by blast
  qed
  then show ?case using deliver.prems by simp
next
  case (external n t \<sigma> s')
  then have "log_inv (c n) s'" using raft_step_log_inv by blast
  then show ?case using external.prems by simp
next
  case (internal n ev \<sigma> s')
  then have "log_inv (c n) s'" using raft_step_log_inv by blast
  then show ?case using internal.prems by simp
qed

lemma cluster_steps_log_inv:
  "(cluster_step N)\<^sup>*\<^sup>* \<sigma> \<sigma>' \<Longrightarrow> \<forall>n \<in> set N. log_inv (c n) (\<sigma> n) \<Longrightarrow> \<forall>n \<in> set N. log_inv (c n) (\<sigma>' n)"
  by (induction rule: rtranclp_induct) (auto dest: cluster_step_log_inv)

text \<open>
  (C27) Entries are delivered in order, each once: whatever happens in a group,
  the indices of the entries a replica has handed to the commit callback are
  exactly those from its first commit index to its present one, ascending and
  without a gap or a repetition; and its log holds consecutive indices above
  its consistency index.
\<close>

theorem committed_in_order:
  assumes "\<forall>n \<in> set N. fresh_log (\<sigma>\<^sub>0 n)" "(cluster_step N)\<^sup>*\<^sup>* \<sigma>\<^sub>0 \<sigma>" "n \<in> set N"
  shows "delivered (\<sigma> n) = [commit_index' (\<sigma>\<^sub>0 n) + 1..<commit_index' (\<sigma> n) + 1] \<and>
    commit_index' (\<sigma>\<^sub>0 n) \<le> commit_index' (\<sigma> n) \<and>
    map e_index (log' (\<sigma> n)) = [consistent_log_index' (\<sigma> n) + 1..<last_log_index (\<sigma> n) + 1]"
proof -
  have "log_inv (commit_index' (\<sigma>\<^sub>0 n)) (\<sigma> n)"
    using cluster_steps_log_inv[OF assms(2), of "\<lambda>n. commit_index' (\<sigma>\<^sub>0 n)"] assms(1,3) fresh_log_inv by blast
  from log_invD(1,3,4)[OF this] show ?thesis by (simp add: consecutive_def last_log_index_eq)
qed

definition demo_append :: "cluster_event list" where
  "demo_append = demo_election @ [Local 65794 (Ccb_append 5 (replicate 32 0)), Local 65794 Log_strand, Local 65794 Strand,
     Deliver 65794 6, Local 66050 Log_strand, Local 66050 Strand, Deliver 66050 1]"

lemma demo_fresh: "\<forall>n \<in> set demo_nodes. fresh_log (demo_group n)"
proof -
  have "\<forall>n \<in> set demo_nodes. log' (demo_group n) = [] \<and> consistent_log_index' (demo_group n) = 0 \<and> effects' (demo_group n) = [] \<and>
    out' (demo_group n) = [] \<and> strand' (demo_group n) = [] \<and> log_strand' (demo_group n) = []" by code_simp
  then show ?thesis by (simp add: fresh_log_def)
qed

theorem committed_in_order_witness:
  "\<exists>\<sigma>. (cluster_step demo_nodes)\<^sup>*\<^sup>* demo_group \<sigma> \<and> commit_index' (\<sigma> 65794) = 1 \<and> delivered (\<sigma> 65794) = [1]"
proof -
  have "map_option (\<lambda>\<sigma>. commit_index' (\<sigma> 65794)) (run (cluster_exec demo_nodes) demo_append demo_group) = Some 1"
    by code_simp
  then obtain \<sigma> where r: "run (cluster_exec demo_nodes) demo_append demo_group = Some \<sigma>" and c: "commit_index' (\<sigma> 65794) = 1"
    by auto
  have "65794 \<in> set demo_nodes" "commit_index' (demo_group 65794) = 0" by code_simp+
  then have "delivered (\<sigma> 65794) = [1]"
    using committed_in_order[OF demo_fresh cluster_exec_steps[OF r], of 65794] c by simp
  then show ?thesis using cluster_exec_steps[OF r] c by auto
qed

section \<open>What the leader commits\<close>

lemma count_progress_all:
  "\<forall>n \<in> set ns. \<exists>p. progress_of n s = Some p \<and> P p \<Longrightarrow> count_progress P ns s = Some (length ns)"
  by (induction ns) auto

lemma progress_of_set [simp]:
  "progress_of n (set_progress k p s) = (if n = k then Some p else progress_of n s)"
  by (simp add: progress_of_def set_progress_def update_conv')

lemma progress_of_frame [simp]:
  "progress_of n (raft_async_send d m s) = progress_of n s" "progress_of n (emit_effect e s) = progress_of n s"
  "progress_of n (s\<lparr>state' := x\<rparr>) = progress_of n s" "progress_of n (s\<lparr>leader_id' := l\<rparr>) = progress_of n s"
  by (simp_all add: progress_of_def raft_async_send_def emit_effect_def)

definition matched :: "nat \<Rightarrow> node_id_t \<Rightarrow> state_machine \<Rightarrow> bool" where
  "matched i n s \<longleftrightarrow> (\<exists>p. progress_of n s = Some p \<and> p_match_index p \<ge> i)"

lemma leader_progress_matched:
  "matched i n (leader_progress i n s)" "matched i k s \<Longrightarrow> matched i k (leader_progress i n s)"
  by (auto simp: leader_progress_def Let_def matched_def split: option.splits)

lemma fold_leader_progress_matched:
  "n \<in> set ns \<or> matched i n s \<Longrightarrow> matched i n (fold (leader_progress i) ns s)"
  by (induction ns arbitrary: s) (auto intro: leader_progress_matched)

lemma send_position_match: "send_position p = (i, q) \<Longrightarrow> p_match_index q = p_match_index p"
  by (auto simp: send_position_def Let_def split: if_splits)

lemma send_fields [simp]:
  "log' (raft_async_send d m s) = log' s" "consistent_log_index' (raft_async_send d m s) = consistent_log_index' s"
  "commit_index' (raft_async_send d m s) = commit_index' s" "nodes_ids' (raft_async_send d m s) = nodes_ids' s"
  "current_term' (raft_async_send d m s) = current_term' s" "state' (raft_async_send d m s) = state' s"
  by (simp_all add: raft_async_send_def)

lemma set_progress_fields [simp]:
  "log' (set_progress n p s) = log' s" "consistent_log_index' (set_progress n p s) = consistent_log_index' s"
  "commit_index' (set_progress n p s) = commit_index' s" "nodes_ids' (set_progress n p s) = nodes_ids' s"
  "current_term' (set_progress n p s) = current_term' s" "state' (set_progress n p s) = state' s"
  by (simp_all add: set_progress_def)

lemma append_entries_frame:
  assumes "append_entries k s = Some s'"
  shows "(matched i n s \<longrightarrow> matched i n s') \<and> log' s' = log' s \<and> consistent_log_index' s' = consistent_log_index' s \<and>
    commit_index' s' = commit_index' s \<and> nodes_ids' s' = nodes_ids' s \<and> current_term' s' = current_term' s \<and> state' s' = state' s"
  using assms
proof (rule append_entriesE)
  fix p nxt tr start pt ae
  assume a: "progress_of k s = Some p" "send_position p = (nxt, tr)"
    "s' = raft_async_send (p_node_id tr) (RAFT_APPEND_ENTRIES_REQ ae) (set_progress k (after_send (ae_entries ae) tr) s)"
  have "p_match_index (after_send (ae_entries ae) tr) = p_match_index p"
    using send_position_match[OF a(2)] by (simp add: after_send_def)
  then show ?thesis using a(1) by (simp add: a(3) matched_def)
qed

lemma append_entries_to_frame:
  assumes "append_entries_to ks s = Some s'"
  shows "(matched i n s \<longrightarrow> matched i n s') \<and> log' s' = log' s \<and> consistent_log_index' s' = consistent_log_index' s \<and>
    commit_index' s' = commit_index' s \<and> nodes_ids' s' = nodes_ids' s \<and> current_term' s' = current_term' s \<and> state' s' = state' s"
  using assms
proof (induction ks arbitrary: s)
  case (Cons k ks)
  show ?case
  proof (cases "k = node_id' s")
    case False
    then obtain t where t: "append_entries k s = Some t" "append_entries_to ks t = Some s'"
      using Cons.prems by (auto simp: Option.bind_eq_Some_conv)
    show ?thesis using Cons.IH[OF t(2)] append_entries_frame[OF t(1)] by simp
  qed (use Cons in simp)
qed simp

definition majority_matched :: "nat \<Rightarrow> state_machine \<Rightarrow> bool" where
  "majority_matched i s \<longleftrightarrow> length (filter (\<lambda>n. matched i n s) (nodes_ids' s)) * 2 > length (nodes_ids' s)"

lemma count_progress_filter:
  "count_progress (\<lambda>p. p_match_index p \<ge> i) ns s = Some m \<Longrightarrow> m = length (filter (\<lambda>n. matched i n s) ns)"
  by (induction ns arbitrary: m) (auto simp: Option.bind_eq_Some_conv matched_def split: if_splits)

lemma commit_scan_spec:
  assumes "commit_scan n s = Some k" "n \<le> length (log' s)"
  shows "(k = 0 \<or> consistent_log_index' s < k \<and> k \<le> consistent_log_index' s + n \<and> majority_matched k s) \<and>
    (\<forall>j. max k (consistent_log_index' s) < j \<and> j \<le> consistent_log_index' s + n \<longrightarrow> \<not> majority_matched j s)"
  using assms
proof (induction n)
  case (Suc i)
  let ?x = "Suc (consistent_log_index' s + i)"
  obtain m where m: "count_progress (\<lambda>p. p_match_index p \<ge> ?x) (nodes_ids' s) s = Some m"
    and k: "(if m * 2 > length (nodes_ids' s) then Some ?x else commit_scan i s) = Some k"
    using Suc.prems by (auto simp: Option.bind_eq_Some_conv offset_to_log_index_def)
  have maj: "majority_matched ?x s \<longleftrightarrow> m * 2 > length (nodes_ids' s)"
    using count_progress_filter[OF m] by (simp add: majority_matched_def)
  show ?case
  proof (cases "m * 2 > length (nodes_ids' s)")
    case True
    then show ?thesis using k maj by auto
  next
    case False
    then have "commit_scan i s = Some k" using k by simp
    from Suc.IH[OF this] Suc.prems(2) False maj show ?thesis
      by (auto simp: le_Suc_eq)
  qed
qed auto

lemma update_commit_index_value:
  "update_commit_index i s = Some s' \<Longrightarrow> commit_index' s' = commit_index' s \<or>
     commit_index' s' = min (last_log_index s) i \<and> commit_index' s < i"
  by (auto simp: update_commit_index_def Let_def Option.bind_eq_Some_conv emit_effect_def write_state_def split: if_splits)

text \<open>
  (C28) The commit rule: when a leader advances its commit index, the new index
  is the greatest index of its log that the progress records of a majority of
  the nodes have reached, and the entry there is not of a later term.
\<close>

theorem leader_commits_majority:
  assumes "leader_advance_commit_index s = Some s'" "commit_index' s' \<noteq> commit_index' s"
  shows "state' s = RAFT_STATE_LEADER \<and> commit_index' s < commit_index' s' \<and>
    consistent_log_index' s < commit_index' s' \<and> commit_index' s' \<le> last_log_index s \<and>
    majority_matched (commit_index' s') s \<and>
    e_term (log' s ! (commit_index' s' - consistent_log_index' s - 1)) \<le> current_term' s \<and>
    (\<forall>j. commit_index' s' < j \<and> j \<le> last_log_index s \<longrightarrow> \<not> majority_matched j s)"
proof -
  have st: "state' s = RAFT_STATE_LEADER" using assms by (auto simp: leader_advance_commit_index_def split: if_splits)
  obtain k where k: "commit_scan (length (log' s)) s = Some k"
    and rest: "0 < k" "e_term (log' s ! (k - consistent_log_index' s - 1)) \<le> current_term' s" "update_commit_index k s = Some s'"
    using assms by (auto simp: leader_advance_commit_index_def Option.bind_eq_Some_conv log_index_to_offset_def split: if_splits)
  note sp = commit_scan_spec[OF k order_refl]
  have "k \<le> last_log_index s" using sp rest(1) by (simp add: last_log_index_eq)
  then have "commit_index' s' = k" "commit_index' s < k" using update_commit_index_value[OF rest(3)] assms(2) by auto
  then show ?thesis using st sp rest by (auto simp: last_log_index_eq)
qed

definition demo_entry :: raft_log_entry where
  "demo_entry = \<lparr>e_term = 1, e_index = 1, e_logs = [7]\<rparr>"

definition demo_leader :: state_machine where
  "demo_leader = (demo_group 65794)\<lparr>state' := RAFT_STATE_LEADER, current_term' := 1, log' := [demo_entry],
     progress' := [(65794, (new_progress 8)\<lparr>p_match_index := 1\<rparr>), (66050, (new_progress 8)\<lparr>p_match_index := 1\<rparr>), (66306, new_progress 8)]\<rparr>"

theorem leader_commits_majority_witness:
  "\<exists>s'. leader_advance_commit_index demo_leader = Some s' \<and> commit_index' s' = 1 \<and> majority_matched (commit_index' s') demo_leader"
proof -
  have "map_option commit_index' (leader_advance_commit_index demo_leader) = Some 1" "commit_index' demo_leader = 0"
    by code_simp+
  then obtain s' where "leader_advance_commit_index demo_leader = Some s'" "commit_index' s' = 1" "commit_index' s' \<noteq> commit_index' demo_leader"
    by auto
  then show ?thesis using leader_commits_majority[of demo_leader s'] by auto
qed

lemma become_leader_state:
  assumes b: "become_leader s = Some s'" and c: "state' s = RAFT_STATE_CANDIDATE"
    and m: "length (votes_granted' s) * 2 > length (nodes_ids' s)"
  shows "log' s' = log' s \<and> consistent_log_index' s' = consistent_log_index' s \<and> nodes_ids' s' = nodes_ids' s \<and>
    current_term' s' = current_term' s \<and> state' s' = RAFT_STATE_LEADER \<and>
    (n \<in> set (nodes_ids' s) \<longrightarrow> matched (last_log_index s) n s')"
proof -
  let ?l = "s\<lparr>state' := RAFT_STATE_LEADER, leader_id' := node_id' s\<rparr>"
  define p where "p = fold (leader_progress (last_log_index ?l)) (nodes_ids' ?l) ?l"
  let ?e = "emit_effect (On_become_leader (current_term' p)) p"
  have "heart_beat ?e = Some s'"
    using b c m unfolding become_leader_def Let_def p_def by (simp split: if_splits)
  moreover have leader: "same_election ?l p" "same_log ?l p"
    unfolding p_def by (rule fold_same_election[OF leader_progress_same], rule same_log_fold[OF same_log_leader_progress])
  moreover have "state' p = RAFT_STATE_LEADER" using leader(1) by (simp add: same_election_def)
  ultimately have ap: "append_entries_to (map fst (progress' ?e)) ?e = Some s'"
    by (auto simp: heart_beat_def leader_append_entry_def leader_send_append_entries_def emit_effect_def Option.bind_eq_Some_conv)
  have "matched (last_log_index s) n p" if "n \<in> set (nodes_ids' s)"
    using fold_leader_progress_matched[of n "nodes_ids' ?l" "last_log_index s" ?l] that
    by (simp add: p_def last_log_index_eq)
  then have "n \<in> set (nodes_ids' s) \<longrightarrow> matched (last_log_index s) n ?e" by (simp add: matched_def)
  then show ?thesis
    using append_entries_to_frame[OF ap, of "last_log_index s" n] leader
    by (simp add: same_election_def same_votes_def same_log_def emit_effect_def)
qed


definition demo_candidate :: state_machine where
  "demo_candidate = (demo_group 65794)\<lparr>state' := RAFT_STATE_CANDIDATE, current_term' := 2, votes_granted' := [65794, 66050],
     log' := [demo_entry]\<rparr>"

definition demo_answer :: append_entries_response where
  "demo_answer = \<lparr>ar_source = 66306, ar_dest = 65794, ar_term = 2, ar_success = True, ar_match_index = 0, ar_lead = 65794,
     ar_last_log_index = 0, ar_heart_beat = False, ar_ts_append_send = 0, ar_write_log = True\<rparr>"


section \<open>What a replica forgets\<close>

definition durable_state :: "state_machine \<Rightarrow> raft_log_state option" where
  "durable_state s = fold (\<lambda>w st. case w of Write_state x \<Rightarrow> Some x | Write_log _ \<Rightarrow> st) (written' s @ map fst (log_strand' s)) None"

definition demo_vote :: "node_id_t \<Rightarrow> request_vote_request" where
  "demo_vote n = \<lparr>rq_source = n, rq_dest = 65794, rq_term = 1, rq_last_log_index = 0, rq_last_log_term = 0\<rparr>"


definition demo_request :: append_entries_request where
  "demo_request = \<lparr>ae_source = 65794, ae_dest = 66050, ae_term = 0, ae_prev_log_index = 0, ae_prev_log_term = 0, ae_commit_index = 0,
     ae_consistency_index = 0, ae_ts_append_send = 0, ae_heart_beat = False, ae_tick_ms = 100, ae_entries = [demo_entry]\<rparr>"


end
