(* ===== verification/Tx_Proto.thy ===== *)
theory Tx_Proto
  imports Ids Lock_Slot Hash_Table
begin

text \<open>
  Data shared by the transaction components: the messages of
  \<^verbatim>\<open>src/proto/tx_request.proto\<close>, \<^verbatim>\<open>tx_operation.proto\<close>, \<^verbatim>\<open>tx_log.proto\<close>,
  \<^verbatim>\<open>tuple_row.proto\<close> and \<^verbatim>\<open>block.proto\<close> as records, the
  stop watch \<^verbatim>\<open>time_tracer\<close>, and the tuple cache of a CC block,
  \<^verbatim>\<open>access_mgr\<close> over \<^verbatim>\<open>data_mgr\<close>.

  A record field carries the name of the message field behind a prefix of the
  message.  A sub-message that may be absent is an option; reading an absent
  one gives protobuf's default instance.
\<close>

section \<open>Messages\<close>

type_synonym tuple_pb = "u8 list"

definition is_tuple_nil :: "tuple_pb \<Rightarrow> bool" where
  "is_tuple_nil t \<longleftrightarrow> t = []"

record tuple_row =
  tr_table_id :: u64
  tr_shard_id :: u64
  tr_tuple_id :: u64
  tr_tuple :: tuple_pb

definition no_row :: tuple_row where
  "no_row = \<lparr>tr_table_id = 0, tr_shard_id = 0, tr_tuple_id = 0, tr_tuple = []\<rparr>"

record tx_operation =
  to_op_type :: tx_op_type
  to_xid :: xid_t
  to_sd_id :: shard_id_t
  to_operation_id :: u32
  to_index :: u32
  to_term :: u32
  to_tuple_row :: "tuple_row option"
  to_calvin_epoch :: u64
  to_calvin_sequence :: u64
  to_last_op :: bool

definition no_operation :: tx_operation where
  "no_operation = \<lparr>to_op_type = TX_OP_ACCESS_BEGIN, to_xid = 0, to_sd_id = 0, to_operation_id = 0,
     to_index = 0, to_term = 0, to_tuple_row = None, to_calvin_epoch = 0, to_calvin_sequence = 0,
     to_last_op = False\<rparr>"

definition op_row :: "tx_operation \<Rightarrow> tuple_row" where
  "op_row op = (case to_tuple_row op of None \<Rightarrow> no_row | Some r \<Rightarrow> r)"

definition op_table_id :: "tx_operation \<Rightarrow> table_id_t" where
  "op_table_id op = ucast (tr_table_id (op_row op))"

definition op_shard_id :: "tx_operation \<Rightarrow> shard_id_t" where
  "op_shard_id op = ucast (tr_shard_id (op_row op))"

definition op_key :: "tx_operation \<Rightarrow> tuple_id_t" where
  "op_key op = tr_tuple_id (op_row op)"

definition is_write_operation :: "tx_op_type \<Rightarrow> bool" where
  "is_write_operation op \<longleftrightarrow> op = TX_OP_UPDATE \<or> op = TX_OP_INSERT \<or> op = TX_OP_DELETE"

record tx_request =
  rq_terminal_id :: u32
  rq_xid :: xid_t
  rq_source :: node_id_t
  rq_dest :: node_id_t
  rq_read_only :: bool
  rq_oneshot :: bool
  rq_distributed :: bool
  rq_client_request :: bool
  rq_operations :: "tx_operation list"

definition no_request :: tx_request where
  "no_request = \<lparr>rq_terminal_id = 0, rq_xid = 0, rq_source = 0, rq_dest = 0, rq_read_only = False,
     rq_oneshot = False, rq_distributed = False, rq_client_request = False, rq_operations = []\<rparr>"

text \<open>The measurements that \<^verbatim>\<open>tx_rm_prepare\<close> and \<^verbatim>\<open>tx_response\<close> both carry.\<close>

record tx_stats =
  latency_append :: u64
  latency_replicate :: u64
  latency_read :: u64
  latency_read_dsb :: u64
  latency_lock_wait :: u64
  latency_part :: u64
  num_read_violate :: u32
  num_write_violate :: u32
  num_lock :: u32

definition no_stats :: tx_stats where
  "no_stats = \<lparr>latency_append = 0, latency_replicate = 0, latency_read = 0, latency_read_dsb = 0,
     latency_lock_wait = 0, latency_part = 0, num_read_violate = 0, num_write_violate = 0,
     num_lock = 0\<rparr>"

record tx_response =
  rs_error_code :: EC
  rs_lead :: u32
  rs_stats :: tx_stats
  rs_access_part :: u64
  rs_operations :: "tx_operation list"

definition no_response :: tx_response where
  "no_response = \<lparr>rs_error_code = EC_OK, rs_lead = 0, rs_stats = no_stats, rs_access_part = 0,
     rs_operations = []\<rparr>"

record tx_rm_prepare =
  pr_xid :: xid_t
  pr_source_node :: node_id_t
  pr_dest_node :: node_id_t
  pr_source_rg :: u32
  pr_dest_rg :: u32
  pr_commit :: bool
  pr_stats :: tx_stats

record tx_rm_ack =
  ak_xid :: xid_t
  ak_source_node :: node_id_t
  ak_dest_node :: node_id_t
  ak_source_rg :: u32
  ak_dest_rg :: u32
  ak_commit :: bool

text \<open>\<^verbatim>\<open>tx_tm_commit\<close> and \<^verbatim>\<open>tx_tm_abort\<close> have the same fields.\<close>

record tx_tm_decision =
  td_xid :: xid_t
  td_source_node :: node_id_t
  td_dest_node :: node_id_t
  td_source_rg :: u32
  td_dest_rg :: u32

record tx_tm_end =
  te_xid :: xid_t
  te_source_node :: node_id_t
  te_dest_node :: node_id_t

record tx_victim =
  tv_source :: node_id_t
  tv_dest :: node_id_t
  tv_xid :: xid_t

record tx_log =
  tl_log_type :: tx_cmd_type
  tl_xid :: xid_t
  tl_operations :: "tx_operation list"

record ccb_read_request =
  rd_source :: node_id_t
  rd_dest :: node_id_t
  rd_cno :: u64
  rd_xid :: xid_t
  rd_oid :: oid_t
  rd_table_id :: u64
  rd_shard_id :: u64
  rd_tuple_id :: u64
  rd_debug_send_ts :: u64

record dsb_read_response =
  dr_source :: node_id_t
  dr_dest :: node_id_t
  dr_cno :: u64
  dr_xid :: xid_t
  dr_oid :: oid_t
  dr_error_code :: EC
  dr_latency_read_dsb :: u64
  dr_debug_send_ts :: u64
  dr_tuple_row :: "tuple_row option"

section \<open>Stop watches\<close>

text \<open>\<^verbatim>\<open>time_tracer\<close>; instants and durations in nanoseconds of the steady clock.\<close>

record time_tracer =
  begin' :: int
  duration' :: int
  started' :: bool

definition new_time_tracer :: time_tracer where
  "new_time_tracer = \<lparr>begin' = 0, duration' = 0, started' = False\<rparr>"

definition tt_begin :: "int \<Rightarrow> time_tracer \<Rightarrow> time_tracer" where
  "tt_begin now t = t\<lparr>started' := True, begin' := now\<rparr>"

definition tt_end :: "int \<Rightarrow> time_tracer \<Rightarrow> time_tracer option" where
  "tt_end ts t = do {
     boost_assert (started' t);
     Some (t\<lparr>duration' := duration' t + (ts - begin' t), started' := False\<rparr>) }"

definition tt_microseconds :: "time_tracer \<Rightarrow> u64" where
  "tt_microseconds t = of_int (duration' t div 1000)"

section \<open>The tuple cache\<close>

text \<open>
  \<^verbatim>\<open>data_mgr\<close>: per key the list of versions put; a read gives the last one.
  \<^verbatim>\<open>access_mgr\<close>: one \<^verbatim>\<open>data_mgr\<close> per table and shard of the configuration.
  The table index is unchecked in the code; \<^term>\<open>None\<close> stands for an access past its end.
\<close>

type_synonym data_mgr = "(tuple_id_t, tuple_pb list) cht"

definition dm_put :: "tuple_id_t \<Rightarrow> tuple_pb \<Rightarrow> data_mgr \<Rightarrow> data_mgr" where
  "dm_put key tuple dm =
     (let (vs, dm) = (case dm key of Some vs \<Rightarrow> (vs, dm) | None \<Rightarrow> ([], dm(key \<mapsto> [])))
      in dm(key \<mapsto> vs @ [tuple]))"

definition dm_get :: "tuple_id_t \<Rightarrow> data_mgr \<Rightarrow> tuple_pb option" where
  "dm_get key dm =
     (case cht_find key dm of
        Some vs \<Rightarrow> if vs \<noteq> [] then Some (last vs) else None
      | None \<Rightarrow> None)"

record access_mgr =
  data_table' :: "(shard_id_t \<Rightarrow> data_mgr option) list"

definition new_access_mgr :: "shard_id_t list \<Rightarrow> nat \<Rightarrow> access_mgr" where
  "new_access_mgr shards max_table_id =
     \<lparr>data_table' = replicate (max_table_id + 1)
        (fold (\<lambda>sd t. if t sd = None then t(sd \<mapsto> Map.empty) else t) shards Map.empty)\<rparr>"

definition access_put ::
  "table_id_t \<Rightarrow> shard_id_t \<Rightarrow> tuple_id_t \<Rightarrow> tuple_pb \<Rightarrow> access_mgr \<Rightarrow> access_mgr option" where
  "access_put tid sd key tuple a = do {
     boost_assert (\<not> is_tuple_nil tuple);
     boost_assert (unat tid < length (data_table' a));
     let t = data_table' a ! unat tid;
     Some (case t sd of
       Some dm \<Rightarrow> a\<lparr>data_table' := (data_table' a)[unat tid := t(sd \<mapsto> dm_put key tuple dm)]\<rparr>
     | None \<Rightarrow> a) }"

definition access_get ::
  "table_id_t \<Rightarrow> shard_id_t \<Rightarrow> tuple_id_t \<Rightarrow> access_mgr \<Rightarrow> tuple_pb option option" where
  "access_get tid sd key a = do {
     boost_assert (unat tid < length (data_table' a));
     Some (case (data_table' a ! unat tid) sd of Some dm \<Rightarrow> dm_get key dm | None \<Rightarrow> None) }"

lemma dm_get_put: "dm_get k (dm_put key t dm) = (if k = key then Some t else dm_get k dm)"
  by (cases "dm key") (simp_all add: dm_get_def dm_put_def cht_find_def)

lemma access_get_put:
  assumes put: "access_put tid sd key tuple a = Some a'"
    and has: "(data_table' a ! unat tid) sd = Some dm"
  shows "access_get tid' sd' key' a' =
     (if tid' = tid \<and> sd' = sd \<and> key' = key then Some (Some tuple) else access_get tid' sd' key' a)"
proof -
  have lt: "unat tid < length (data_table' a)"
    and a': "a' = a\<lparr>data_table' := (data_table' a)
       [unat tid := (data_table' a ! unat tid)(sd \<mapsto> dm_put key tuple dm)]\<rparr>"
    using put has by (simp_all add: access_put_def Let_def split: if_splits)
  have same: "unat tid' = unat tid \<longleftrightarrow> tid' = tid" by (simp add: word_unat_eq_iff)
  show ?thesis
  proof (cases "tid' = tid")
    case True
    then show ?thesis using lt has by (simp add: access_get_def a' dm_get_put)
  next
    case False
    then show ?thesis using same by (simp add: access_get_def a')
  qed
qed

end
