(* ===== verification/Tx_Coordinator.thy ===== *)
theory Tx_Coordinator
  imports Tx_Proto
begin

text \<open>
  The coordinator of a distributed transaction,
  \<^verbatim>\<open>src/concurrency/tx_coordinator.cpp\<close> and
  \<^verbatim>\<open>include/concurrency/tx_coordinator.h\<close>.

  The members that steer the protocol are the fields of \<^verbatim>\<open>tx_coordinator\<close>;
  a member \<^verbatim>\<open>x_\<close> is the field \<open>x'\<close>.  What a handler hands to the network,
  to the write ahead log, to the client and to \<^verbatim>\<open>fn_tm_state_\<close> is appended to
  the field \<open>out'\<close>.  \<^verbatim>\<open>rm_tracer_\<close> is an association list; its
  iteration order is the order of insertion.  The result of
  \<^verbatim>\<open>async_send\<close> is read by \<^verbatim>\<open>send_rm_request\<close> only, where it is a
  parameter; elsewhere a failed send is a message that is never delivered.
  Trace strings and \<^verbatim>\<open>start_\<close> are left out, as is the code of the
  geo-replication build.
\<close>

section \<open>State\<close>

datatype tm_state = TM_IDLE | TM_COMMITTED | TM_ABORTED | TM_DONE

datatype tx_rm_state =
  RM_IDLE | RM_PREPARE_COMMIT | RM_PREPARE_ABORT | RM_COMMITTED | RM_ABORTED

record tx_rm_tracer =
  lead' :: node_id_t
  rm_state' :: tx_rm_state
  message' :: tx_request

definition new_tx_rm_tracer :: tx_rm_tracer where
  "new_tx_rm_tracer = \<lparr>lead' = 0, rm_state' = RM_IDLE, message' = no_request\<rparr>"

datatype tm_effect =
    Send_TX_TM_REQUEST node_id_t tx_request
  | Send_TX_TM_COMMIT node_id_t tx_tm_decision
  | Send_TX_TM_ABORT node_id_t tx_tm_decision
  | Send_TX_TM_END node_id_t tx_tm_end
  | Tm_append tx_log
  | Tm_respond tx_response
  | Fn_tm_state xid_t tm_state

record tx_coordinator =
  xid' :: xid_t
  node_id' :: node_id_t
  lead_node' :: "shard_id_t \<Rightarrow> node_id_t option"
  rm_tracer' :: "(shard_id_t \<times> tx_rm_tracer) list"
  tm_state' :: tm_state
  write_begin_log' :: bool
  write_commit_log' :: bool
  write_abort_log' :: bool
  write_end_done' :: bool
  error_code' :: EC
  victim' :: bool
  responsed' :: bool
  stats' :: tx_stats
  out' :: "tm_effect list"

definition new_tx_coordinator ::
  "xid_t \<Rightarrow> node_id_t \<Rightarrow> (shard_id_t \<Rightarrow> node_id_t option) \<Rightarrow> tx_coordinator" where
  "new_tx_coordinator xid node_id lead_node =
     \<lparr>xid' = xid, node_id' = node_id, lead_node' = lead_node, rm_tracer' = [], tm_state' = TM_IDLE,
      write_begin_log' = False, write_commit_log' = False, write_abort_log' = False,
      write_end_done' = False, error_code' = EC_OK, victim' = False, responsed' = False,
      stats' = no_stats, out' = []\<rparr>"

definition tm_emit :: "tm_effect \<Rightarrow> tx_coordinator \<Rightarrow> tx_coordinator" where
  "tm_emit e c = c\<lparr>out' := out' c @ [e]\<rparr>"

definition tm_log :: "tx_cmd_type \<Rightarrow> tx_coordinator \<Rightarrow> tx_log" where
  "tm_log t c = \<lparr>tl_log_type = t, tl_xid = xid' c, tl_operations = []\<rparr>"

definition tm_decision :: "node_id_t \<Rightarrow> tx_coordinator \<Rightarrow> tx_tm_decision" where
  "tm_decision lead c =
     \<lparr>td_xid = xid' c, td_source_node = node_id' c, td_dest_node = lead,
      td_source_rg = TO_RG_ID (node_id' c), td_dest_rg = TO_RG_ID lead\<rparr>"

section \<open>Messages and logs\<close>

definition send_commit :: "tx_coordinator \<Rightarrow> tx_coordinator" where
  "send_commit c =
     fold (\<lambda>(sd, tr) c. tm_emit (Send_TX_TM_COMMIT (lead' tr) (tm_decision (lead' tr) c)) c) (rm_tracer' c) c"

definition send_abort :: "tx_coordinator \<Rightarrow> tx_coordinator" where
  "send_abort c =
     fold (\<lambda>(sd, tr) c. tm_emit (Send_TX_TM_ABORT (lead' tr) (tm_decision (lead' tr) c)) c) (rm_tracer' c) c"

definition send_end :: "tx_coordinator \<Rightarrow> tx_coordinator" where
  "send_end c =
     fold (\<lambda>(sd, tr) c. tm_emit (Send_TX_TM_END (lead' tr)
         \<lparr>te_xid = xid' c, te_source_node = node_id' c, te_dest_node = lead' tr\<rparr>) c) (rm_tracer' c) c"

definition send_tx_response :: "tx_coordinator \<Rightarrow> tx_coordinator" where
  "send_tx_response c =
     (if responsed' c then c
      else tm_emit (Tm_respond (no_response\<lparr>rs_error_code := error_code' c, rs_stats := stats' c,
              rs_access_part := of_nat (length (rm_tracer' c))\<rparr>)) (c\<lparr>responsed' := True\<rparr>))"

definition write_begin_log :: "tx_coordinator \<Rightarrow> tx_coordinator" where
  "write_begin_log c =
     (if tm_state' c = TM_IDLE \<and> \<not> write_begin_log' c
      then (tm_emit (Tm_append (tm_log TX_CMD_TM_BEGIN c)) c)\<lparr>write_begin_log' := True\<rparr> else c)"

definition write_commit_log :: "tx_coordinator \<Rightarrow> tx_coordinator" where
  "write_commit_log c =
     (if tm_state' c = TM_IDLE \<and> \<not> victim' c \<and> \<not> write_commit_log' c
      then (tm_emit (Tm_append (tm_log TX_CMD_TM_COMMIT c)) c)\<lparr>write_commit_log' := True\<rparr> else c)"

definition write_abort_log :: "tx_coordinator \<Rightarrow> tx_coordinator" where
  "write_abort_log c =
     (if tm_state' c = TM_IDLE \<and> \<not> write_abort_log' c \<and> \<not> write_commit_log' c
      then (tm_emit (Tm_append (tm_log TX_CMD_TM_ABORT c)) c)\<lparr>write_abort_log' := True\<rparr> else c)"

definition write_end_log :: "tx_coordinator \<Rightarrow> tx_coordinator" where
  "write_end_log c =
     (if \<not> write_end_done' c \<and> (tm_state' c = TM_COMMITTED \<or> tm_state' c = TM_ABORTED)
      then (tm_emit (Tm_append (tm_log TX_CMD_TM_END c)) c)\<lparr>write_end_done' := True\<rparr> else c)"

section \<open>The request\<close>

definition add_operation :: "tx_request \<Rightarrow> tx_operation \<Rightarrow> tx_coordinator \<Rightarrow> tx_coordinator" where
  "add_operation req op c =
     (let sd = to_sd_id op;
          trs = (if map_of (rm_tracer' c) sd = None
                 then rm_tracer' c @ [(sd, new_tx_rm_tracer)] else rm_tracer' c);
          tr = the (map_of trs sd);
          m = message' tr;
          tr = tr\<lparr>message' := m\<lparr>rq_operations := rq_operations m @ [op], rq_distributed := True,
                              rq_source := node_id' c, rq_oneshot := rq_oneshot req\<rparr>,
                  rm_state' := RM_IDLE, lead' := 0\<rparr>
      in c\<lparr>rm_tracer' := AList.update sd tr trs\<rparr>)"

definition set_lead :: "shard_id_t \<Rightarrow> node_id_t \<Rightarrow> tx_coordinator \<Rightarrow> tx_coordinator" where
  "set_lead sd lead c =
     c\<lparr>rm_tracer' := AList.map_entry sd
        (\<lambda>tr. tr\<lparr>lead' := lead, message' := (message' tr)\<lparr>rq_dest := lead\<rparr>\<rparr>) (rm_tracer' c)\<rparr>"

fun trace_operations :: "tx_request \<Rightarrow> tx_operation list \<Rightarrow> tx_coordinator \<Rightarrow> bool \<times> tx_coordinator" where
  "trace_operations req [] c = (True, c)"
| "trace_operations req (op # ops) c =
     (let c = add_operation req op c
      in case lead_node' c (to_sd_id op) of
           Some lead \<Rightarrow> trace_operations req ops (set_lead (to_sd_id op) lead c)
         | None \<Rightarrow> (False, c\<lparr>error_code' := EC_INVALID_ARGUMENT\<rparr>))"

definition handle_tx_request :: "tx_request \<Rightarrow> tx_coordinator \<Rightarrow> ((EC + unit) \<times> tx_coordinator) option" where
  "handle_tx_request req c = do {
     boost_assert (rq_distributed req);
     let (ok, c) = trace_operations req (rq_operations req) c;
     Some (if ok then (Inr (), write_begin_log c) else (Inl EC_INVALID_ARGUMENT, c)) }"

text \<open>\<^term>\<open>sent\<close> is the result of \<^verbatim>\<open>async_send\<close> to a node.\<close>

fun send_requests ::
  "(node_id_t \<Rightarrow> bool) \<Rightarrow> (shard_id_t \<times> tx_rm_tracer) list \<Rightarrow> tx_coordinator \<Rightarrow> bool \<times> tx_coordinator" where
  "send_requests sent [] c = (True, c)"
| "send_requests sent ((sd, tr) # trs) c =
     (let m = (message' tr)\<lparr>rq_xid := xid' c, rq_client_request := False\<rparr>;
          c = c\<lparr>rm_tracer' := AList.update sd (tr\<lparr>message' := m\<rparr>) (rm_tracer' c)\<rparr>
      in if sent (lead' tr) then send_requests sent trs (tm_emit (Send_TX_TM_REQUEST (lead' tr) m) c)
         else (False, c))"

definition send_rm_request :: "(node_id_t \<Rightarrow> bool) \<Rightarrow> tx_coordinator \<Rightarrow> bool \<times> tx_coordinator" where
  "send_rm_request sent c = send_requests sent (rm_tracer' c) c"

section \<open>Committed log entries\<close>

definition on_begin :: "(node_id_t \<Rightarrow> bool) \<Rightarrow> tx_coordinator \<Rightarrow> tx_coordinator" where
  "on_begin sent c =
     (let (ok, c) = send_rm_request sent c
      in if ok then c else send_tx_response (c\<lparr>error_code' := EC_TX_ABORT\<rparr>))"

definition on_committed :: "tx_coordinator \<Rightarrow> tx_coordinator" where
  "on_committed c = send_commit (c\<lparr>tm_state' := TM_COMMITTED\<rparr>)"

definition on_aborted :: "tx_coordinator \<Rightarrow> tx_coordinator" where
  "on_aborted c =
     send_tx_response (send_abort (c\<lparr>tm_state' := TM_ABORTED, error_code' := EC_TX_ABORT\<rparr>))"

definition on_ended :: "tx_coordinator \<Rightarrow> tx_coordinator" where
  "on_ended c = tm_emit (Fn_tm_state (xid' c) TM_DONE) (c\<lparr>tm_state' := TM_DONE\<rparr>)"

definition on_log_entry_commit :: "(node_id_t \<Rightarrow> bool) \<Rightarrow> tx_cmd_type \<Rightarrow> tx_coordinator \<Rightarrow> tx_coordinator" where
  "on_log_entry_commit sent t c =
     (case t of
        TX_CMD_TM_COMMIT \<Rightarrow> on_committed c
      | TX_CMD_TM_ABORT \<Rightarrow> on_aborted c
      | TX_CMD_TM_END \<Rightarrow> on_ended c
      | TX_CMD_TM_BEGIN \<Rightarrow> on_begin sent c
      | _ \<Rightarrow> c)"

section \<open>Votes and acknowledgements\<close>

definition count_rm :: "tx_rm_state \<Rightarrow> tx_coordinator \<Rightarrow> nat" where
  "count_rm st c = length (filter (\<lambda>(sd, tr). rm_state' tr = st) (rm_tracer' c))"

definition step_tm_state_advance :: "tx_coordinator \<Rightarrow> tx_coordinator" where
  "step_tm_state_advance c =
     (let prepare_commit = count_rm RM_PREPARE_COMMIT c;
          prepare_abort = count_rm RM_PREPARE_ABORT c;
          aborted = count_rm RM_ABORTED c;
          committed = count_rm RM_COMMITTED c;
          idle = count_rm RM_IDLE c;
          total = length (rm_tracer' c)
      in if idle = 0 then
           (if committed = total \<or> aborted = total then write_end_log (send_tx_response c)
            else if prepare_commit + prepare_abort = total then
              (if prepare_abort = 0 then write_commit_log c else write_abort_log c)
            else c)
         else c)"

definition set_rm_state :: "shard_id_t \<Rightarrow> tx_rm_state \<Rightarrow> tx_coordinator \<Rightarrow> tx_coordinator" where
  "set_rm_state sd st c =
     c\<lparr>rm_tracer' := AList.map_entry sd (\<lambda>tr. tr\<lparr>rm_state' := st\<rparr>) (rm_tracer' c)\<rparr>"

definition add_stats :: "tx_stats \<Rightarrow> tx_stats \<Rightarrow> tx_stats" where
  "add_stats m s =
     \<lparr>latency_append = latency_append s + latency_append m,
      latency_replicate = latency_replicate s + latency_replicate m,
      latency_read = latency_read s + latency_read m,
      latency_read_dsb = latency_read_dsb s + latency_read_dsb m,
      latency_lock_wait = latency_lock_wait s + latency_lock_wait m,
      latency_part = latency_part s + latency_part m,
      num_read_violate = num_read_violate s + num_read_violate m,
      num_write_violate = num_write_violate s + num_write_violate m,
      num_lock = num_lock s + num_lock m\<rparr>"

definition handle_tx_rm_prepare :: "tx_rm_prepare \<Rightarrow> tx_coordinator \<Rightarrow> tx_coordinator option" where
  "handle_tx_rm_prepare msg c =
     (case map_of (rm_tracer' c) (pr_source_rg msg) of
        None \<Rightarrow> None
      | Some tr \<Rightarrow>
          if rm_state' tr = RM_IDLE then
            (let c = set_rm_state (pr_source_rg msg)
                       (if pr_commit msg then RM_PREPARE_COMMIT else RM_PREPARE_ABORT) c;
                 c = (if pr_commit msg then c\<lparr>stats' := add_stats (pr_stats msg) (stats' c)\<rparr> else c)
             in Some (step_tm_state_advance c))
          else do {
            boost_assert (victim' c \<or> (rm_state' tr \<noteq> RM_PREPARE_ABORT \<and> rm_state' tr \<noteq> RM_ABORTED));
            Some c })"

definition handle_tx_rm_ack :: "tx_rm_ack \<Rightarrow> tx_coordinator \<Rightarrow> tx_coordinator option" where
  "handle_tx_rm_ack msg c =
     (case map_of (rm_tracer' c) (ak_source_rg msg) of
        None \<Rightarrow> None
      | Some tr \<Rightarrow>
          if ak_commit msg then
            (if rm_state' tr = RM_PREPARE_COMMIT
             then Some (step_tm_state_advance (set_rm_state (ak_source_rg msg) RM_COMMITTED c))
             else do {
               boost_assert (rm_state' tr \<noteq> RM_PREPARE_ABORT \<and> rm_state' tr \<noteq> RM_ABORTED \<and>
                             rm_state' tr \<noteq> RM_IDLE);
               Some c })
          else
            (if rm_state' tr = RM_PREPARE_COMMIT \<or> rm_state' tr = RM_PREPARE_ABORT \<or> rm_state' tr = RM_IDLE
             then Some (step_tm_state_advance (set_rm_state (ak_source_rg msg) RM_ABORTED c))
             else do {
               boost_assert (rm_state' tr \<noteq> RM_COMMITTED);
               Some (step_tm_state_advance c) }))"

section \<open>Aborts\<close>

definition tm_abort :: "EC \<Rightarrow> tx_coordinator \<Rightarrow> tx_coordinator" where
  "tm_abort ec c =
     (let c = (if ec = EC_VICTIM \<and> tm_state' c = TM_IDLE \<and> \<not> victim' c then c\<lparr>victim' := True\<rparr> else c)
      in if write_commit_log' c then c
         else (case tm_state' c of
            TM_IDLE \<Rightarrow> send_abort (send_tx_response (c\<lparr>error_code' := ec, tm_state' := TM_ABORTED\<rparr>))
          | TM_ABORTED \<Rightarrow> send_abort (send_tx_response (c\<lparr>error_code' := ec\<rparr>))
          | _ \<Rightarrow> c))"

text \<open>\<^verbatim>\<open>timeout_clean_up\<close>; \<^term>\<open>old\<close>: at least a second has passed since the start.\<close>

definition tm_timeout_clean_up :: "bool \<Rightarrow> tx_coordinator \<Rightarrow> tx_coordinator" where
  "tm_timeout_clean_up old c =
     (if \<not> old then c
      else (case tm_state' c of
         TM_IDLE \<Rightarrow> send_abort (send_tx_response (c\<lparr>tm_state' := TM_ABORTED\<rparr>))
       | TM_COMMITTED \<Rightarrow> send_commit (send_tx_response c)
       | TM_ABORTED \<Rightarrow> send_abort (send_tx_response c)
       | TM_DONE \<Rightarrow> send_tx_response c))"

section \<open>Runs of a coordinator\<close>

text \<open>
  The block hands these calls to a coordinator (\<^verbatim>\<open>src/concurrency/cc_block.cpp\<close>):
  committed log entries, votes, acknowledgements and aborts.  No code calls
  \<^verbatim>\<open>timeout_clean_up\<close>.
\<close>

datatype tm_event =
    Tm_log_commit "node_id_t \<Rightarrow> bool" tx_cmd_type
  | Tm_prepare tx_rm_prepare
  | Tm_ack tx_rm_ack
  | Tm_abort EC

definition tm_step :: "tm_event \<Rightarrow> tx_coordinator \<Rightarrow> tx_coordinator option" where
  "tm_step e c =
     (case e of
        Tm_log_commit sent t \<Rightarrow> Some (on_log_entry_commit sent t c)
      | Tm_prepare m \<Rightarrow> handle_tx_rm_prepare m c
      | Tm_ack m \<Rightarrow> handle_tx_rm_ack m c
      | Tm_abort ec \<Rightarrow> Some (tm_abort ec c))"

definition appended :: "tx_cmd_type \<Rightarrow> tx_coordinator \<Rightarrow> bool" where
  "appended t c \<longleftrightarrow> list_ex (\<lambda>e. case e of Tm_append l \<Rightarrow> tl_log_type l = t | _ \<Rightarrow> False) (out' c)"

definition commit_sent :: "tx_coordinator \<Rightarrow> bool" where
  "commit_sent c \<longleftrightarrow> list_ex (\<lambda>e. case e of Send_TX_TM_COMMIT n d \<Rightarrow> True | _ \<Rightarrow> False) (out' c)"

definition abort_sent :: "tx_coordinator \<Rightarrow> bool" where
  "abort_sent c \<longleftrightarrow> list_ex (\<lambda>e. case e of Send_TX_TM_ABORT n d \<Rightarrow> True | _ \<Rightarrow> False) (out' c)"

text \<open>
  The log reports only entries that were appended; \<^term>\<open>V\<close> is the set of shards that voted
  to commit, so a vote to commit comes from one of them.
\<close>

definition tm_ok :: "shard_id_t set \<Rightarrow> tm_event \<Rightarrow> tx_coordinator \<Rightarrow> bool" where
  "tm_ok V e c =
     (case e of
        Tm_log_commit sent t \<Rightarrow> appended t c
      | Tm_prepare m \<Rightarrow> pr_commit m \<longrightarrow> pr_source_rg m \<in> V
      | _ \<Rightarrow> True)"

definition commit_votes :: "tm_event list \<Rightarrow> shard_id_t set" where
  "commit_votes evs = set (List.map_filter
     (\<lambda>e. case e of Tm_prepare m \<Rightarrow> if pr_commit m then Some (pr_source_rg m) else None | _ \<Rightarrow> None) evs)"

section \<open>Frames\<close>

text \<open>What the protocol rests on: the participants with their leads and states.\<close>

definition roster :: "tx_coordinator \<Rightarrow> (shard_id_t \<times> node_id_t \<times> tx_rm_state) list" where
  "roster c = map (\<lambda>(sd, tr). (sd, lead' tr, rm_state' tr)) (rm_tracer' c)"

lemma map_fst_roster: "map fst (roster c) = map fst (rm_tracer' c)"
  by (simp add: roster_def case_prod_unfold comp_def)

lemma roster_update [simp]:
  "roster (c\<lparr>tm_state' := a\<rparr>) = roster c" "roster (c\<lparr>error_code' := b\<rparr>) = roster c"
  "roster (c\<lparr>victim' := d\<rparr>) = roster c" "roster (c\<lparr>stats' := g\<rparr>) = roster c"
  "roster (c\<lparr>out' := h\<rparr>) = roster c" "roster (c\<lparr>responsed' := i\<rparr>) = roster c"
  "roster (c\<lparr>write_begin_log' := j\<rparr>) = roster c" "roster (c\<lparr>write_commit_log' := j\<rparr>) = roster c"
  "roster (c\<lparr>write_abort_log' := j\<rparr>) = roster c" "roster (c\<lparr>write_end_done' := j\<rparr>) = roster c"
  by (simp_all add: roster_def)

lemma fold_tm_emit:
  "fold (\<lambda>(sd, tr) c. tm_emit (f tr (xid' c) (node_id' c)) c) trs c =
     c\<lparr>out' := out' c @ map (\<lambda>(sd, tr). f tr (xid' c) (node_id' c)) trs\<rparr>"
  by (induction trs arbitrary: c) (auto simp: tm_emit_def)

lemma send_commit_eq:
  "send_commit c = c\<lparr>out' := out' c @ map (\<lambda>(sd, tr). Send_TX_TM_COMMIT (lead' tr) (tm_decision (lead' tr) c)) (rm_tracer' c)\<rparr>"
  unfolding send_commit_def tm_decision_def
  by (rule fold_tm_emit[of "\<lambda>tr x n. Send_TX_TM_COMMIT (lead' tr) \<lparr>td_xid = x, td_source_node = n,
     td_dest_node = lead' tr, td_source_rg = TO_RG_ID n, td_dest_rg = TO_RG_ID (lead' tr)\<rparr>"])

lemma send_abort_eq:
  "send_abort c = c\<lparr>out' := out' c @ map (\<lambda>(sd, tr). Send_TX_TM_ABORT (lead' tr) (tm_decision (lead' tr) c)) (rm_tracer' c)\<rparr>"
  unfolding send_abort_def tm_decision_def
  by (rule fold_tm_emit[of "\<lambda>tr x n. Send_TX_TM_ABORT (lead' tr) \<lparr>td_xid = x, td_source_node = n,
     td_dest_node = lead' tr, td_source_rg = TO_RG_ID n, td_dest_rg = TO_RG_ID (lead' tr)\<rparr>"])

lemma list_ex_map_False: "(\<And>x. x \<in> set xs \<Longrightarrow> \<not> P (f x)) \<Longrightarrow> \<not> list_ex P (map f xs)"
  by (auto simp: list_ex_iff)

lemma sent_simps [simp]:
  "appended t (tm_emit e c) \<longleftrightarrow> appended t c \<or> (case e of Tm_append l \<Rightarrow> tl_log_type l = t | _ \<Rightarrow> False)"
  "commit_sent (tm_emit e c) \<longleftrightarrow> commit_sent c \<or> (case e of Send_TX_TM_COMMIT n d \<Rightarrow> True | _ \<Rightarrow> False)"
  "abort_sent (tm_emit e c) \<longleftrightarrow> abort_sent c \<or> (case e of Send_TX_TM_ABORT n d \<Rightarrow> True | _ \<Rightarrow> False)"
  by (simp_all add: appended_def commit_sent_def abort_sent_def tm_emit_def)

lemma sent_send_commit [simp]:
  "appended t (send_commit c) = appended t c"
  "abort_sent (send_commit c) = abort_sent c"
  by (auto simp: send_commit_eq appended_def abort_sent_def list_ex_iff)

lemma sent_send_abort [simp]:
  "appended t (send_abort c) = appended t c"
  "commit_sent (send_abort c) = commit_sent c"
  by (auto simp: send_abort_eq appended_def commit_sent_def list_ex_iff)

lemma sent_fields [simp]:
  "appended t (c\<lparr>tm_state' := a\<rparr>) = appended t c" "commit_sent (c\<lparr>tm_state' := a\<rparr>) = commit_sent c"
  "abort_sent (c\<lparr>tm_state' := a\<rparr>) = abort_sent c"
  "appended t (c\<lparr>error_code' := b\<rparr>) = appended t c" "commit_sent (c\<lparr>error_code' := b\<rparr>) = commit_sent c"
  "abort_sent (c\<lparr>error_code' := b\<rparr>) = abort_sent c"
  "appended t (c\<lparr>victim' := d\<rparr>) = appended t c" "commit_sent (c\<lparr>victim' := d\<rparr>) = commit_sent c"
  "abort_sent (c\<lparr>victim' := d\<rparr>) = abort_sent c"
  "appended t (c\<lparr>stats' := g\<rparr>) = appended t c" "commit_sent (c\<lparr>stats' := g\<rparr>) = commit_sent c"
  "abort_sent (c\<lparr>stats' := g\<rparr>) = abort_sent c"
  "appended t (c\<lparr>responsed' := i\<rparr>) = appended t c" "commit_sent (c\<lparr>responsed' := i\<rparr>) = commit_sent c"
  "abort_sent (c\<lparr>responsed' := i\<rparr>) = abort_sent c"
  "appended t (c\<lparr>rm_tracer' := k\<rparr>) = appended t c" "commit_sent (c\<lparr>rm_tracer' := k\<rparr>) = commit_sent c"
  "abort_sent (c\<lparr>rm_tracer' := k\<rparr>) = abort_sent c"
  "appended t (c\<lparr>write_begin_log' := j\<rparr>) = appended t c" "commit_sent (c\<lparr>write_begin_log' := j\<rparr>) = commit_sent c"
  "abort_sent (c\<lparr>write_begin_log' := j\<rparr>) = abort_sent c"
  "appended t (c\<lparr>write_commit_log' := j\<rparr>) = appended t c" "commit_sent (c\<lparr>write_commit_log' := j\<rparr>) = commit_sent c"
  "abort_sent (c\<lparr>write_commit_log' := j\<rparr>) = abort_sent c"
  "appended t (c\<lparr>write_abort_log' := j\<rparr>) = appended t c" "commit_sent (c\<lparr>write_abort_log' := j\<rparr>) = commit_sent c"
  "abort_sent (c\<lparr>write_abort_log' := j\<rparr>) = abort_sent c"
  "appended t (c\<lparr>write_end_done' := j\<rparr>) = appended t c" "commit_sent (c\<lparr>write_end_done' := j\<rparr>) = commit_sent c"
  "abort_sent (c\<lparr>write_end_done' := j\<rparr>) = abort_sent c"
  by (simp_all add: appended_def commit_sent_def abort_sent_def)

section \<open>The invariant\<close>

definition rm_refused :: "tx_rm_state \<Rightarrow> bool" where
  "rm_refused st \<longleftrightarrow> st = RM_PREPARE_ABORT \<or> st = RM_ABORTED"

definition rm_agreed :: "tx_rm_state \<Rightarrow> bool" where
  "rm_agreed st \<longleftrightarrow> st = RM_PREPARE_COMMIT \<or> st = RM_COMMITTED"

text \<open>
  \<^term>\<open>V\<close>: the shards that voted to commit.  An abort is sent only while no commit entry is
  written and forecloses one; an abort entry has a participant that refused.
\<close>

definition tm_inv :: "shard_id_t set \<Rightarrow> tx_coordinator \<Rightarrow> bool" where
  "tm_inv V c \<longleftrightarrow>
     distinct (map fst (roster c)) \<and>
     (appended TX_CMD_TM_COMMIT c \<longrightarrow> write_commit_log' c) \<and>
     (appended TX_CMD_TM_ABORT c \<longrightarrow> write_abort_log' c) \<and>
     (commit_sent c \<longrightarrow> write_commit_log' c) \<and>
     (abort_sent c \<longrightarrow> \<not> write_commit_log' c \<and> tm_state' c \<noteq> TM_IDLE) \<and>
     (write_abort_log' c \<longrightarrow> \<not> write_commit_log' c \<and> (\<exists>r \<in> set (roster c). rm_refused (snd (snd r)))) \<and>
     (write_commit_log' c \<longrightarrow> fst ` set (roster c) \<subseteq> V) \<and>
     (\<forall>r \<in> set (roster c). rm_agreed (snd (snd r)) \<longrightarrow> fst r \<in> V)"

lemma tm_invD:
  assumes "tm_inv V c"
  shows "distinct (map fst (roster c))"
    and "appended TX_CMD_TM_COMMIT c \<Longrightarrow> write_commit_log' c"
    and "appended TX_CMD_TM_ABORT c \<Longrightarrow> write_abort_log' c"
    and "commit_sent c \<Longrightarrow> write_commit_log' c"
    and "abort_sent c \<Longrightarrow> \<not> write_commit_log' c" "abort_sent c \<Longrightarrow> tm_state' c \<noteq> TM_IDLE"
    and "write_abort_log' c \<Longrightarrow> \<not> write_commit_log' c"
    and "write_abort_log' c \<Longrightarrow> \<exists>r \<in> set (roster c). rm_refused (snd (snd r))"
    and "write_commit_log' c \<Longrightarrow> fst ` set (roster c) \<subseteq> V"
    and "r \<in> set (roster c) \<Longrightarrow> rm_agreed (snd (snd r)) \<Longrightarrow> fst r \<in> V"
  using assms unfolding tm_inv_def by blast+

text \<open>Handlers that keep the roster, the decision entries and the decision messages.\<close>

definition tm_same :: "tx_coordinator \<Rightarrow> tx_coordinator \<Rightarrow> bool" where
  "tm_same c c' \<longleftrightarrow>
     roster c' = roster c \<and> write_commit_log' c' = write_commit_log' c \<and>
     write_abort_log' c' = write_abort_log' c \<and>
     (\<forall>t. t \<in> {TX_CMD_TM_COMMIT, TX_CMD_TM_ABORT} \<longrightarrow> appended t c' = appended t c) \<and>
     commit_sent c' = commit_sent c \<and> abort_sent c' = abort_sent c \<and>
     (tm_state' c' = TM_IDLE \<longrightarrow> tm_state' c = TM_IDLE)"

lemma tm_same_inv: "tm_same c c' \<Longrightarrow> tm_inv V c \<Longrightarrow> tm_inv V c'"
  by (auto simp: tm_same_def tm_inv_def)

lemma tm_same_simple:
  "tm_same c c" "tm_same c (send_tx_response c)" "tm_same c (write_end_log c)" "tm_same c (write_begin_log c)"
  "tm_same c (c\<lparr>error_code' := ec\<rparr>)" "tm_same c (c\<lparr>victim' := v\<rparr>)" "tm_same c (c\<lparr>stats' := st\<rparr>)"
  "tm_same c (on_ended c)"
  by (simp_all add: tm_same_def send_tx_response_def write_end_log_def write_begin_log_def on_ended_def tm_log_def
      tm_emit_def roster_def appended_def commit_sent_def abort_sent_def)

lemma tm_same_trans: "tm_same a b \<Longrightarrow> tm_same b c \<Longrightarrow> tm_same a c"
  by (simp add: tm_same_def)

lemma send_tx_response_fields [simp]:
  "roster (send_tx_response c) = roster c" "rm_tracer' (send_tx_response c) = rm_tracer' c"
  "tm_state' (send_tx_response c) = tm_state' c"
  "write_commit_log' (send_tx_response c) = write_commit_log' c"
  "write_abort_log' (send_tx_response c) = write_abort_log' c"
  "appended t (send_tx_response c) = appended t c"
  "commit_sent (send_tx_response c) = commit_sent c" "abort_sent (send_tx_response c) = abort_sent c"
  by (simp_all add: send_tx_response_def tm_emit_def roster_def appended_def commit_sent_def abort_sent_def)

lemma send_decision_fields [simp]:
  "roster (send_abort c) = roster c" "roster (send_commit c) = roster c"
  "tm_state' (send_abort c) = tm_state' c" "tm_state' (send_commit c) = tm_state' c"
  "write_commit_log' (send_abort c) = write_commit_log' c" "write_commit_log' (send_commit c) = write_commit_log' c"
  "write_abort_log' (send_abort c) = write_abort_log' c" "write_abort_log' (send_commit c) = write_abort_log' c"
  by (simp_all add: send_abort_eq send_commit_eq roster_def)

lemma on_committed_inv: "tm_inv V c \<Longrightarrow> write_commit_log' c \<Longrightarrow> tm_inv V (on_committed c)"
  unfolding on_committed_def tm_inv_def by auto

lemma on_aborted_inv: "tm_inv V c \<Longrightarrow> write_abort_log' c \<Longrightarrow> tm_inv V (on_aborted c)"
  unfolding on_aborted_def tm_inv_def by auto

lemma write_abort_log_inv:
  assumes "tm_inv V c" "\<exists>r \<in> set (roster c). rm_refused (snd (snd r))"
  shows "tm_inv V (write_abort_log c)"
  using assms unfolding write_abort_log_def tm_inv_def
  by (auto simp: tm_emit_def tm_log_def roster_def appended_def commit_sent_def abort_sent_def)

lemma write_commit_log_inv:
  assumes inv: "tm_inv V c" and all: "\<forall>r \<in> set (roster c). snd (snd r) = RM_PREPARE_COMMIT"
  shows "tm_inv V (write_commit_log c)"
proof -
  have "fst ` set (roster c) \<subseteq> V"
    using tm_invD(10)[OF inv] all by (auto simp: rm_agreed_def)
  moreover have "\<not> write_abort_log' c"
    using tm_invD(8)[OF inv] all by (auto simp: rm_refused_def)
  ultimately show ?thesis
    using inv unfolding write_commit_log_def tm_inv_def
    by (auto simp: tm_emit_def tm_log_def roster_def appended_def commit_sent_def abort_sent_def)
qed

lemma tm_abort_inv: "tm_inv V c \<Longrightarrow> tm_inv V (tm_abort ec c)"
  unfolding tm_abort_def tm_inv_def Let_def by (auto split: tm_state.split)

text \<open>The roster after a participant's state changes, and the counts of its states.\<close>

definition roster_set :: "shard_id_t \<Rightarrow> tx_rm_state \<Rightarrow> shard_id_t \<times> node_id_t \<times> tx_rm_state \<Rightarrow> shard_id_t \<times> node_id_t \<times> tx_rm_state" where
  "roster_set sd st r = (if fst r = sd then (sd, fst (snd r), st) else r)"

lemma fst_roster_set [simp]: "fst (roster_set sd st r) = fst r"
  by (simp add: roster_set_def)

lemma map_entry_distinct:
  "distinct (map fst xs) \<Longrightarrow> AList.map_entry k f xs = map (\<lambda>(a, b). (a, if a = k then f b else b)) xs"
proof (induction xs)
  case (Cons p ps)
  obtain a b where p: "p = (a, b)" by (cases p)
  have "map (\<lambda>(x, y). (x, if x = k then f y else y)) ps = ps" if "a = k"
    by (rule map_idI) (use Cons.prems that p in \<open>auto simp: rev_image_eqI split: prod.splits\<close>)
  then show ?case using Cons p by auto
qed simp

lemma roster_set_rm_state:
  assumes "distinct (map fst (roster c))"
  shows "roster (set_rm_state sd st c) = map (roster_set sd st) (roster c)"
  using assms unfolding map_fst_roster
  by (simp add: roster_def set_rm_state_def map_entry_distinct roster_set_def case_prod_unfold)

lemma map_of_roster:
  "map_of (rm_tracer' c) sd = Some tr \<Longrightarrow> (sd, lead' tr, rm_state' tr) \<in> set (roster c)"
  by (auto simp: roster_def dest!: map_of_SomeD)

lemma count_rm_roster: "count_rm st c = length (filter (\<lambda>r. snd (snd r) = st) (roster c))"
  unfolding count_rm_def roster_def by (simp add: filter_map comp_def case_prod_unfold)

lemma length_roster: "length (roster c) = length (rm_tracer' c)"
  by (simp add: roster_def)

lemma filter_full: "length (filter P xs) = length xs \<Longrightarrow> x \<in> set xs \<Longrightarrow> P x"
  using length_filter_less[of x xs P] by linarith

lemma all_prepared:
  assumes "count_rm RM_PREPARE_COMMIT c + count_rm RM_PREPARE_ABORT c = length (rm_tracer' c)"
    and "count_rm RM_PREPARE_ABORT c = 0"
  shows "\<forall>r \<in> set (roster c). snd (snd r) = RM_PREPARE_COMMIT"
proof
  fix r assume r: "r \<in> set (roster c)"
  have "length (filter (\<lambda>r. snd (snd r) = RM_PREPARE_COMMIT) (roster c)) = length (roster c)"
    using assms unfolding count_rm_roster length_roster by linarith
  then show "snd (snd r) = RM_PREPARE_COMMIT" using r by (rule filter_full)
qed

lemma some_refused:
  assumes "count_rm RM_PREPARE_ABORT c \<noteq> 0"
  shows "\<exists>r \<in> set (roster c). rm_refused (snd (snd r))"
  using assms unfolding count_rm_roster length_0_conv filter_empty_conv rm_refused_def by blast

lemma step_tm_state_advance_cases:
  obtains (same) "step_tm_state_advance c = c"
  | (finish) "step_tm_state_advance c = write_end_log (send_tx_response c)"
  | (commit) "step_tm_state_advance c = write_commit_log c"
      "\<forall>r \<in> set (roster c). snd (snd r) = RM_PREPARE_COMMIT"
  | (refuse) "step_tm_state_advance c = write_abort_log c" "\<exists>r \<in> set (roster c). rm_refused (snd (snd r))"
proof -
  have "step_tm_state_advance c = c \<or> step_tm_state_advance c = write_end_log (send_tx_response c) \<or>
    (step_tm_state_advance c = write_commit_log c \<and>
      count_rm RM_PREPARE_COMMIT c + count_rm RM_PREPARE_ABORT c = length (rm_tracer' c) \<and>
      count_rm RM_PREPARE_ABORT c = 0) \<or>
    (step_tm_state_advance c = write_abort_log c \<and> count_rm RM_PREPARE_ABORT c \<noteq> 0)"
    unfolding step_tm_state_advance_def Let_def by presburger
  then show thesis
    using that all_prepared[of c] some_refused[of c] by blast
qed

lemma step_tm_state_advance_inv:
  assumes inv: "tm_inv V c"
  shows "tm_inv V (step_tm_state_advance c)"
proof (cases c rule: step_tm_state_advance_cases)
  case same
  then show ?thesis using inv by simp
next
  case finish
  then show ?thesis
    using tm_same_inv[OF tm_same_trans[OF tm_same_simple(2) tm_same_simple(3)] inv] by simp
next
  case commit
  then show ?thesis using write_commit_log_inv[OF inv] by simp
next
  case refuse
  then show ?thesis using write_abort_log_inv[OF inv] by simp
qed

lemma set_rm_state_inv:
  assumes inv: "tm_inv V c" and tr: "map_of (rm_tracer' c) sd = Some tr"
    and agreed: "rm_agreed st \<Longrightarrow> sd \<in> V" and refused: "rm_refused (rm_state' tr) \<Longrightarrow> rm_refused st"
  shows "tm_inv V (set_rm_state sd st c)"
proof -
  have d: "distinct (map fst (roster c))" by (rule tm_invD(1)[OF inv])
  note ro = roster_set_rm_state[OF d, of sd st]
  have mem: "r = (sd, lead' tr, rm_state' tr)" if "r \<in> set (roster c)" "fst r = sd" for r
    using that map_of_roster[OF tr] d by (metis eq_key_imp_eq_value prod.collapse)
  have "rm_refused (snd (snd (roster_set sd st r)))" if "r \<in> set (roster c)" "rm_refused (snd (snd r))" for r
    using mem[OF that(1)] that(2) refused by (cases "fst r = sd") (auto simp: roster_set_def)
  then have ex: "\<exists>r \<in> set (roster c). rm_refused (snd (snd r)) \<Longrightarrow>
      \<exists>r \<in> set (map (roster_set sd st) (roster c)). rm_refused (snd (snd r))" by auto
  have all: "fst (roster_set sd st r) \<in> V" if "r \<in> set (roster c)" "rm_agreed (snd (snd (roster_set sd st r)))" for r
    using that agreed tm_invD(10)[OF inv that(1)] by (cases "fst r = sd") (auto simp: roster_set_def)
  have keep: "write_commit_log' (set_rm_state sd st c) = write_commit_log' c"
    "write_abort_log' (set_rm_state sd st c) = write_abort_log' c"
    "tm_state' (set_rm_state sd st c) = tm_state' c"
    "\<And>t. appended t (set_rm_state sd st c) = appended t c"
    "commit_sent (set_rm_state sd st c) = commit_sent c" "abort_sent (set_rm_state sd st c) = abort_sent c"
    by (simp_all add: set_rm_state_def)
  have img: "fst ` set (map (roster_set sd st) (roster c)) = fst ` set (roster c)"
    by (simp add: image_image)
  have fsts: "map fst (map (roster_set sd st) (roster c)) = map fst (roster c)"
    by (simp add: comp_def)
  show ?thesis
    unfolding tm_inv_def ro keep img fsts
    using inv ex all unfolding tm_inv_def by auto
qed

lemma handle_tx_rm_prepare_inv:
  assumes inv: "tm_inv V c" and ok: "tm_ok V (Tm_prepare m) c" and run: "handle_tx_rm_prepare m c = Some c'"
  shows "tm_inv V c'"
proof -
  obtain tr where tr: "map_of (rm_tracer' c) (pr_source_rg m) = Some tr"
    using run by (auto simp: handle_tx_rm_prepare_def split: option.splits)
  show ?thesis
  proof (cases "rm_state' tr = RM_IDLE")
    case True
    define st where "st = (if pr_commit m then RM_PREPARE_COMMIT else RM_PREPARE_ABORT)"
    define c1 where "c1 = set_rm_state (pr_source_rg m) st c"
    have "tm_inv V c1" unfolding c1_def
      by (rule set_rm_state_inv[OF inv tr])
        (use ok True in \<open>auto simp: st_def rm_agreed_def rm_refused_def tm_ok_def split: if_splits\<close>)
    then have "tm_inv V (if pr_commit m then c1\<lparr>stats' := add_stats (pr_stats m) (stats' c1)\<rparr> else c1)"
      using tm_same_inv[OF tm_same_simple(7)] by auto
    then have "tm_inv V (step_tm_state_advance
        (if pr_commit m then c1\<lparr>stats' := add_stats (pr_stats m) (stats' c1)\<rparr> else c1))"
      by (rule step_tm_state_advance_inv)
    then show ?thesis
      using run tr True by (simp add: handle_tx_rm_prepare_def Let_def c1_def st_def split: if_splits)
  next
    case False
    then show ?thesis using run tr inv by (simp add: handle_tx_rm_prepare_def split: if_splits)
  qed
qed

lemma handle_tx_rm_ack_inv:
  assumes inv: "tm_inv V c" and run: "handle_tx_rm_ack m c = Some c'"
  shows "tm_inv V c'"
proof -
  obtain tr where tr: "map_of (rm_tracer' c) (ak_source_rg m) = Some tr"
    using run by (auto simp: handle_tx_rm_ack_def split: option.splits)
  have com: "tm_inv V (set_rm_state (ak_source_rg m) RM_COMMITTED c)" if "rm_state' tr = RM_PREPARE_COMMIT"
    by (rule set_rm_state_inv[OF inv tr])
      (use that tm_invD(10)[OF inv map_of_roster[OF tr]] in \<open>auto simp: rm_agreed_def rm_refused_def\<close>)
  have abt: "tm_inv V (set_rm_state (ak_source_rg m) RM_ABORTED c)"
    by (rule set_rm_state_inv[OF inv tr]) (auto simp: rm_agreed_def rm_refused_def)
  show ?thesis
    using run tr inv step_tm_state_advance_inv[OF com] step_tm_state_advance_inv[OF abt]
      step_tm_state_advance_inv[OF inv]
    by (auto simp: handle_tx_rm_ack_def split: if_splits)
qed

text \<open>Sending the requests stores the identifier in each message and keeps the roster.\<close>

lemma alist_update_same_image:
  assumes "distinct (map fst xs)" "map_of xs k = Some v" "f v' = f v"
  shows "map (\<lambda>(a, b). (a, f b)) (AList.update k v' xs) = map (\<lambda>(a, b). (a, f b)) xs"
  using assms by (induction xs) (auto split: if_splits)

lemma send_requests_frame:
  assumes "distinct (map fst (rm_tracer' c))" "distinct (map fst trs)"
    and "\<And>sd tr. (sd, tr) \<in> set trs \<Longrightarrow> map_of (rm_tracer' c) sd = Some tr"
  shows "tm_same c (snd (send_requests sent trs c)) \<and>
    (\<exists>es. out' (snd (send_requests sent trs c)) = out' c @ es \<and>
      (\<forall>e \<in> set es. \<exists>sd tr. (sd, tr) \<in> set trs \<and> e = Send_TX_TM_REQUEST (lead' tr)
         ((message' tr)\<lparr>rq_xid := xid' c, rq_client_request := False\<rparr>)))"
  using assms
proof (induction trs arbitrary: c)
  case Nil
  then show ?case by (simp add: tm_same_simple)
next
  case (Cons p trs)
  obtain sd tr where p: "p = (sd, tr)" by (cases p)
  define m where "m = (message' tr)\<lparr>rq_xid := xid' c, rq_client_request := False\<rparr>"
  define c1 where "c1 = c\<lparr>rm_tracer' := AList.update sd (tr\<lparr>message' := m\<rparr>) (rm_tracer' c)\<rparr>"
  define c2 where "c2 = tm_emit (Send_TX_TM_REQUEST (lead' tr) m) c1"
  have tr: "map_of (rm_tracer' c) sd = Some tr" using Cons.prems(3) p by simp
  have "roster c1 = roster c"
    unfolding roster_def c1_def
    using alist_update_same_image[OF Cons.prems(1) tr, of "\<lambda>t. (lead' t, rm_state' t)" "tr\<lparr>message' := m\<rparr>"]
    by simp
  then have same1: "tm_same c c1" and same2: "tm_same c c2"
    by (simp_all add: tm_same_def c1_def c2_def tm_emit_def appended_def commit_sent_def abort_sent_def)
  have t2: "rm_tracer' c2 = AList.update sd (tr\<lparr>message' := m\<rparr>) (rm_tracer' c)" "xid' c2 = xid' c"
    "out' c2 = out' c @ [Send_TX_TM_REQUEST (lead' tr) m]"
    by (simp_all add: c2_def c1_def tm_emit_def)
  have IH: "tm_same c2 (snd (send_requests sent trs c2)) \<and>
    (\<exists>es. out' (snd (send_requests sent trs c2)) = out' c2 @ es \<and>
      (\<forall>e \<in> set es. \<exists>sd tr. (sd, tr) \<in> set trs \<and> e = Send_TX_TM_REQUEST (lead' tr)
         ((message' tr)\<lparr>rq_xid := xid' c2, rq_client_request := False\<rparr>)))"
  proof (rule Cons.IH)
    show "distinct (map fst (rm_tracer' c2))" using Cons.prems(1) by (simp add: t2 distinct_update)
    show "distinct (map fst trs)" using Cons.prems(2) by simp
    fix sd' tr' assume mem: "(sd', tr') \<in> set trs"
    then have "sd' \<noteq> sd" using Cons.prems(2) p by (auto simp: rev_image_eqI)
    then show "map_of (rm_tracer' c2) sd' = Some tr'"
      using Cons.prems(3)[of sd' tr'] mem by (simp add: t2 update_conv')
  qed
  show ?case
  proof (cases "sent (lead' tr)")
    case True
    then have run: "send_requests sent (p # trs) c = send_requests sent trs c2"
      by (simp add: p Let_def m_def c1_def c2_def)
    obtain es where es: "out' (snd (send_requests sent trs c2)) = out' c2 @ es"
      "\<forall>e \<in> set es. \<exists>sd tr. (sd, tr) \<in> set trs \<and> e = Send_TX_TM_REQUEST (lead' tr)
         ((message' tr)\<lparr>rq_xid := xid' c, rq_client_request := False\<rparr>)"
      using IH unfolding t2 by blast
    have "\<forall>e \<in> set (Send_TX_TM_REQUEST (lead' tr) m # es). \<exists>sd tr. (sd, tr) \<in> set (p # trs) \<and>
        e = Send_TX_TM_REQUEST (lead' tr) ((message' tr)\<lparr>rq_xid := xid' c, rq_client_request := False\<rparr>)"
      using es(2) p m_def by (auto; blast)
    moreover have "out' (snd (send_requests sent trs c2)) = out' c @ (Send_TX_TM_REQUEST (lead' tr) m # es)"
      using es(1) t2(3) by simp
    ultimately show ?thesis
      unfolding run using IH tm_same_trans[OF same2] by blast
  next
    case False
    then have "send_requests sent (p # trs) c = (False, c1)"
      by (simp add: p Let_def m_def c1_def)
    then show ?thesis using same1 by (simp add: c1_def)
  qed
qed

lemma tracer_distinct: "tm_inv V c \<Longrightarrow> distinct (map fst (rm_tracer' c))"
  using tm_invD(1) map_fst_roster by metis

lemma send_rm_request_frame:
  assumes "tm_inv V c"
  shows "tm_same c (snd (send_rm_request sent c)) \<and>
    (\<exists>es. out' (snd (send_rm_request sent c)) = out' c @ es \<and>
      (\<forall>e \<in> set es. \<exists>sd tr. (sd, tr) \<in> set (rm_tracer' c) \<and> e = Send_TX_TM_REQUEST (lead' tr)
         ((message' tr)\<lparr>rq_xid := xid' c, rq_client_request := False\<rparr>)))"
  unfolding send_rm_request_def
  by (rule send_requests_frame) (use tracer_distinct[OF assms] in auto)

lemma on_begin_same: "tm_inv V c \<Longrightarrow> tm_same c (on_begin sent c)"
proof -
  assume "tm_inv V c"
  then have "tm_same c (snd (send_rm_request sent c))" using send_rm_request_frame by blast
  moreover obtain ok c1 where "send_rm_request sent c = (ok, c1)" by (cases "send_rm_request sent c")
  ultimately show ?thesis
    using tm_same_trans[OF _ tm_same_trans[OF tm_same_simple(5) tm_same_simple(2)]]
    by (auto simp: on_begin_def)
qed

lemma tm_step_inv:
  assumes inv: "tm_inv V c" and ok: "tm_ok V e c" and run: "tm_step e c = Some c'"
  shows "tm_inv V c'"
proof (cases e)
  case (Tm_log_commit sent t)
  then have c': "c' = on_log_entry_commit sent t c" and app: "appended t c"
    using run ok by (simp_all add: tm_step_def tm_ok_def)
  show ?thesis
  proof (cases "t \<in> {TX_CMD_TM_COMMIT, TX_CMD_TM_ABORT, TX_CMD_TM_END, TX_CMD_TM_BEGIN}")
    case True
    then show ?thesis
      using inv app tm_invD(2,3)[OF inv] on_committed_inv[OF inv] on_aborted_inv[OF inv]
        tm_same_inv[OF tm_same_simple(8) inv] tm_same_inv[OF on_begin_same[OF inv] inv]
      by (auto simp: c' on_log_entry_commit_def)
  next
    case False
    then show ?thesis using inv by (cases t) (simp_all add: c' on_log_entry_commit_def)
  qed
next
  case (Tm_prepare m)
  then show ?thesis using handle_tx_rm_prepare_inv[OF inv, of m c'] ok run by (simp add: tm_step_def)
next
  case (Tm_ack m)
  then show ?thesis using handle_tx_rm_ack_inv[OF inv, of m c'] run by (simp add: tm_step_def)
next
  case (Tm_abort ec)
  then show ?thesis using tm_abort_inv[OF inv, of ec] run by (simp add: tm_step_def)
qed

lemma tm_run_inv:
  "tm_inv V c \<Longrightarrow> disciplined tm_step (tm_ok V) evs c \<Longrightarrow> run tm_step evs c = Some c' \<Longrightarrow> tm_inv V c'"
proof (induction evs arbitrary: c)
  case (Cons e evs)
  then obtain c1 where "tm_step e c = Some c1" "run tm_step evs c1 = Some c'" by (auto split: option.splits)
  then show ?case using Cons tm_step_inv[of V c e c1] by auto
qed simp

section \<open>The state after a request\<close>

text \<open>Every participant is idle, is reached through the lead of its shard and gets its part of the request.\<close>

definition tracer_ok :: "tx_coordinator \<Rightarrow> shard_id_t \<times> tx_rm_tracer \<Rightarrow> bool" where
  "tracer_ok c p \<longleftrightarrow> lead_node' c (fst p) = Some (lead' (snd p)) \<and> rq_distributed (message' (snd p)) \<and>
     rq_source (message' (snd p)) = node_id' c"

definition traced :: "tx_coordinator \<Rightarrow> bool" where
  "traced c \<longleftrightarrow> distinct (map fst (rm_tracer' c)) \<and>
     (\<forall>p \<in> set (rm_tracer' c). tracer_ok c p \<and> rm_state' (snd p) = RM_IDLE)"

lemma add_operation_lead:
  assumes c: "traced c" and lead: "lead_node' c (to_sd_id op) = Some lead"
  shows "traced (set_lead (to_sd_id op) lead (add_operation req op c))"
    and "fst ` set (rm_tracer' (set_lead (to_sd_id op) lead (add_operation req op c))) =
      insert (to_sd_id op) (fst ` set (rm_tracer' c))"
proof -
  let ?sd = "to_sd_id op" and ?c = "set_lead (to_sd_id op) lead (add_operation req op c)"
  define trs where "trs = (if map_of (rm_tracer' c) ?sd = None
                 then rm_tracer' c @ [(?sd, new_tx_rm_tracer)] else rm_tracer' c)"
  define tr where "tr = the (map_of trs ?sd)"
  define tr1 where "tr1 = tr\<lparr>message' := (message' tr)\<lparr>rq_operations := rq_operations (message' tr) @ [op],
      rq_distributed := True, rq_source := node_id' c, rq_oneshot := rq_oneshot req\<rparr>,
      rm_state' := RM_IDLE, lead' := 0\<rparr>"
  have add: "add_operation req op c = c\<lparr>rm_tracer' := AList.update ?sd tr1 trs\<rparr>"
    by (simp add: add_operation_def Let_def trs_def tr_def tr1_def)
  have d: "distinct (map fst trs)" and keys: "fst ` set trs = insert ?sd (fst ` set (rm_tracer' c))"
    using c by (auto simp: traced_def trs_def map_of_eq_None_iff dest: map_of_SomeD image_eqI intro: rev_image_eqI)
  have du: "distinct (map fst (AList.update ?sd tr1 trs))" using d by (rule distinct_update)
  have res: "rm_tracer' ?c = map (\<lambda>(a, b). (a, if a = ?sd then b\<lparr>lead' := lead, message' := (message' b)\<lparr>rq_dest := lead\<rparr>\<rparr> else b))
      (AList.update ?sd tr1 trs)"
    by (simp add: add set_lead_def map_entry_distinct[OF du])
  have old: "(a, b) \<in> set trs \<Longrightarrow> a \<noteq> ?sd \<Longrightarrow> (a, b) \<in> set (rm_tracer' c)" for a b
    by (auto simp: trs_def split: if_splits)
  have upd: "(a, b) \<in> set (AList.update ?sd tr1 trs) \<Longrightarrow> if a = ?sd then b = tr1 else (a, b) \<in> set trs" for a b
    using map_of_is_SomeI[OF du, of a b] by (auto simp: update_conv' dest: map_of_SomeD split: if_splits)
  have fields: "lead_node' ?c = lead_node' c" "node_id' ?c = node_id' c"
    by (simp_all add: add set_lead_def)
  have "tracer_ok ?c p \<and> rm_state' (snd p) = RM_IDLE" if mem: "p \<in> set (rm_tracer' ?c)" for p
  proof -
    obtain a b where ab: "(a, b) \<in> set (AList.update ?sd tr1 trs)"
      and p: "p = (a, if a = ?sd then b\<lparr>lead' := lead, message' := (message' b)\<lparr>rq_dest := lead\<rparr>\<rparr> else b)"
      using mem unfolding res by auto
    show ?thesis
    proof (cases "a = ?sd")
      case True
      then have "b = tr1" using upd[OF ab] by simp
      then show ?thesis using True p lead by (simp add: tracer_ok_def fields tr1_def)
    next
      case False
      then have "(a, b) \<in> set (rm_tracer' c)" using upd[OF ab] old by simp
      then show ?thesis using False p c by (auto simp: traced_def tracer_ok_def fields)
    qed
  qed
  moreover have "distinct (map fst (rm_tracer' ?c))"
    unfolding res using du by (simp add: comp_def case_prod_unfold)
  ultimately show "traced ?c" by (simp add: traced_def)
  show "fst ` set (rm_tracer' ?c) = insert ?sd (fst ` set (rm_tracer' c))"
    unfolding res using keys by (simp add: image_image case_prod_unfold dom_update)
qed

lemma add_operation_rest:
  "set_lead sd lead (add_operation req op c) =
     c\<lparr>rm_tracer' := rm_tracer' (set_lead sd lead (add_operation req op c))\<rparr>"
  by (simp add: set_lead_def add_operation_def Let_def)

lemma trace_operations_ok:
  "traced c \<Longrightarrow> trace_operations req ops c = (True, c') \<Longrightarrow>
     traced c' \<and> fst ` set (rm_tracer' c') = fst ` set (rm_tracer' c) \<union> to_sd_id ` set ops \<and>
     c' = c\<lparr>rm_tracer' := rm_tracer' c'\<rparr>"
proof (induction ops arbitrary: c)
  case (Cons op ops)
  have ln: "lead_node' (add_operation req op c) = lead_node' c"
    by (simp add: add_operation_def Let_def)
  obtain lead where lead: "lead_node' c (to_sd_id op) = Some lead"
    and rest: "trace_operations req ops (set_lead (to_sd_id op) lead (add_operation req op c)) = (True, c')"
    using Cons.prems(2) by (auto simp: ln Let_def split: option.splits)
  define c1 where "c1 = set_lead (to_sd_id op) lead (add_operation req op c)"
  have c1: "traced c1" "fst ` set (rm_tracer' c1) = insert (to_sd_id op) (fst ` set (rm_tracer' c))"
    "c1 = c\<lparr>rm_tracer' := rm_tracer' c1\<rparr>"
    using add_operation_lead[OF Cons.prems(1) lead, of req] add_operation_rest unfolding c1_def by auto
  have IH: "traced c'" "fst ` set (rm_tracer' c') = fst ` set (rm_tracer' c1) \<union> to_sd_id ` set ops"
    "c' = c1\<lparr>rm_tracer' := rm_tracer' c'\<rparr>"
    using Cons.IH[of c1] c1(1) rest unfolding c1_def by blast+
  have "c' = c\<lparr>rm_tracer' := rm_tracer' c'\<rparr>" by (subst IH(3), subst c1(3)) simp
  then show ?case using IH(1,2) c1(2) by auto
qed simp

definition started :: "tx_coordinator \<Rightarrow> tx_coordinator \<Rightarrow> bool" where
  "started c c0 \<longleftrightarrow> traced c0 \<and>
     c0 = c\<lparr>rm_tracer' := rm_tracer' c0, write_begin_log' := True, out' := [Tm_append (tm_log TX_CMD_TM_BEGIN c)]\<rparr>"

lemma handle_tx_request_started:
  assumes "handle_tx_request req (new_tx_coordinator x n leads) = Some (Inr u, c0)"
  shows "started (new_tx_coordinator x n leads) c0"
    and "fst ` set (rm_tracer' c0) = to_sd_id ` set (rq_operations req)"
proof -
  let ?c = "new_tx_coordinator x n leads"
  obtain c1 where c1: "trace_operations req (rq_operations req) ?c = (True, c1)" and c0: "c0 = write_begin_log c1"
    using assms by (auto simp: handle_tx_request_def split: if_splits prod.splits)
  have t: "traced c1" "fst ` set (rm_tracer' c1) = to_sd_id ` set (rq_operations req)"
    "c1 = ?c\<lparr>rm_tracer' := rm_tracer' c1\<rparr>"
    using trace_operations_ok[OF _ c1] by (auto simp: traced_def new_tx_coordinator_def)
  have "tm_state' c1 = TM_IDLE" "\<not> write_begin_log' c1" "out' c1 = []" "tm_log TX_CMD_TM_BEGIN c1 = tm_log TX_CMD_TM_BEGIN ?c"
    by (subst t(3), simp add: new_tx_coordinator_def tm_log_def)+
  then have e: "c0 = c1\<lparr>write_begin_log' := True, out' := [Tm_append (tm_log TX_CMD_TM_BEGIN ?c)]\<rparr>"
    by (simp add: c0 write_begin_log_def tm_emit_def)
  have "traced c0" using t(1) by (simp add: e traced_def tracer_ok_def)
  moreover have "c0 = ?c\<lparr>rm_tracer' := rm_tracer' c0, write_begin_log' := True,
      out' := [Tm_append (tm_log TX_CMD_TM_BEGIN ?c)]\<rparr>"
    unfolding e by (subst t(3)) simp
  ultimately show "started ?c c0" by (simp add: started_def)
  show "fst ` set (rm_tracer' c0) = to_sd_id ` set (rq_operations req)" using t(2) by (simp add: e)
qed

lemma started_fields:
  assumes "started (new_tx_coordinator x n leads) c0"
  shows "xid' c0 = x" "node_id' c0 = n" "lead_node' c0 = leads" "tm_state' c0 = TM_IDLE" "write_commit_log' c0 = False"
    "write_abort_log' c0 = False" "write_end_done' c0 = False" "error_code' c0 = EC_OK" "victim' c0 = False"
    "responsed' c0 = False" "out' c0 = [Tm_append \<lparr>tl_log_type = TX_CMD_TM_BEGIN, tl_xid = x, tl_operations = []\<rparr>]"
proof -
  define k where "k = rm_tracer' c0"
  have e: "c0 = (new_tx_coordinator x n leads)\<lparr>rm_tracer' := k, write_begin_log' := True,
      out' := [Tm_append (tm_log TX_CMD_TM_BEGIN (new_tx_coordinator x n leads))]\<rparr>"
    using assms by (simp add: started_def k_def)
  show "xid' c0 = x" "node_id' c0 = n" "lead_node' c0 = leads" "tm_state' c0 = TM_IDLE" "write_commit_log' c0 = False"
    "write_abort_log' c0 = False" "write_end_done' c0 = False" "error_code' c0 = EC_OK" "victim' c0 = False"
    "responsed' c0 = False" "out' c0 = [Tm_append \<lparr>tl_log_type = TX_CMD_TM_BEGIN, tl_xid = x, tl_operations = []\<rparr>]"
    by (simp_all add: e new_tx_coordinator_def tm_log_def)
qed

lemma started_inv:
  assumes "started (new_tx_coordinator x n leads) c0"
  shows "tm_inv V c0"
proof -
  have "traced c0" using assms by (simp add: started_def)
  then show ?thesis
    unfolding tm_inv_def map_fst_roster
    by (auto simp: started_fields[OF assms] traced_def appended_def commit_sent_def abort_sent_def roster_def
        rm_agreed_def)
qed

section \<open>Participants and requests\<close>

text \<open>What stays fixed while the coordinator runs, and that it only adds to what it has sent.\<close>

definition tm_grows :: "tx_coordinator \<Rightarrow> tx_coordinator \<Rightarrow> bool" where
  "tm_grows c c' \<longleftrightarrow> xid' c' = xid' c \<and> node_id' c' = node_id' c \<and> lead_node' c' = lead_node' c \<and>
     fst ` set (rm_tracer' c') = fst ` set (rm_tracer' c) \<and> (\<exists>es. out' c' = out' c @ es)"

definition request_ok :: "tx_coordinator \<Rightarrow> tm_effect \<Rightarrow> bool" where
  "request_ok c e \<longleftrightarrow> (\<forall>n m. e = Send_TX_TM_REQUEST n m \<longrightarrow>
     (\<exists>sd \<in> fst ` set (rm_tracer' c). lead_node' c sd = Some n) \<and> rq_distributed m \<and> rq_source m = node_id' c)"

definition tm_wf :: "tx_coordinator \<Rightarrow> bool" where
  "tm_wf c \<longleftrightarrow> (\<forall>p \<in> set (rm_tracer' c). tracer_ok c p) \<and> (\<forall>e \<in> set (out' c). request_ok c e)"

text \<open>Steps that leave the tracers alone and send no request.\<close>

definition tm_quiet :: "tx_coordinator \<Rightarrow> tx_coordinator \<Rightarrow> bool" where
  "tm_quiet c c' \<longleftrightarrow> xid' c' = xid' c \<and> node_id' c' = node_id' c \<and> lead_node' c' = lead_node' c \<and>
     rm_tracer' c' = rm_tracer' c \<and>
     (\<exists>es. out' c' = out' c @ es \<and> (\<forall>e \<in> set es. \<forall>n m. e \<noteq> Send_TX_TM_REQUEST n m))"

lemma tm_grows_refl: "tm_grows c c" and tm_quiet_refl: "tm_quiet c c"
  by (simp_all add: tm_grows_def tm_quiet_def)

lemma tm_grows_trans: "tm_grows a b \<Longrightarrow> tm_grows b c \<Longrightarrow> tm_grows a c"
  by (auto simp: tm_grows_def)

lemma tm_quiet_trans:
  assumes "tm_quiet a b" "tm_quiet b c"
  shows "tm_quiet a c"
proof -
  obtain es fs where "out' b = out' a @ es" "\<forall>e \<in> set es. \<forall>n m. e \<noteq> Send_TX_TM_REQUEST n m"
    "out' c = out' b @ fs" "\<forall>e \<in> set fs. \<forall>n m. e \<noteq> Send_TX_TM_REQUEST n m"
    using assms by (auto simp: tm_quiet_def)
  then have "out' c = out' a @ (es @ fs)" "\<forall>e \<in> set (es @ fs). \<forall>n m. e \<noteq> Send_TX_TM_REQUEST n m" by auto
  then show ?thesis using assms unfolding tm_quiet_def by metis
qed

lemma tm_quiet_wf:
  assumes "tm_quiet c c'" "tm_wf c"
  shows "tm_wf c'" "tm_grows c c'"
proof -
  obtain es where q: "node_id' c' = node_id' c" "lead_node' c' = lead_node' c" "rm_tracer' c' = rm_tracer' c"
    "out' c' = out' c @ es" "\<forall>e \<in> set es. \<forall>n m. e \<noteq> Send_TX_TM_REQUEST n m"
    using assms(1) by (auto simp: tm_quiet_def)
  show "tm_wf c'"
    using assms(2) q(5) unfolding tm_wf_def q(1-4) request_ok_def tracer_ok_def by auto
  show "tm_grows c c'" using assms(1) by (auto simp: tm_quiet_def tm_grows_def)
qed

lemma tm_quiet_fields [simp]:
  "tm_quiet c (d\<lparr>tm_state' := a\<rparr>) = tm_quiet c d" "tm_quiet c (d\<lparr>error_code' := b\<rparr>) = tm_quiet c d"
  "tm_quiet c (d\<lparr>victim' := v\<rparr>) = tm_quiet c d" "tm_quiet c (d\<lparr>stats' := g\<rparr>) = tm_quiet c d"
  "tm_quiet c (d\<lparr>responsed' := i\<rparr>) = tm_quiet c d" "tm_quiet c (d\<lparr>write_begin_log' := j\<rparr>) = tm_quiet c d"
  "tm_quiet c (d\<lparr>write_commit_log' := j\<rparr>) = tm_quiet c d" "tm_quiet c (d\<lparr>write_abort_log' := j\<rparr>) = tm_quiet c d"
  "tm_quiet c (d\<lparr>write_end_done' := j\<rparr>) = tm_quiet c d"
  by (simp_all add: tm_quiet_def)

lemma tm_quiet_emit: "\<forall>n m. e \<noteq> Send_TX_TM_REQUEST n m \<Longrightarrow> tm_quiet c (tm_emit e c)"
  by (simp add: tm_quiet_def tm_emit_def)

lemma tm_quiet_send:
  "tm_quiet c (send_commit c)" "tm_quiet c (send_abort c)" "tm_quiet c (send_tx_response c)"
  "tm_quiet c (write_commit_log c)" "tm_quiet c (write_abort_log c)" "tm_quiet c (write_end_log c)"
  "tm_quiet c (on_ended c)"
  by (auto simp: send_commit_eq send_abort_eq send_tx_response_def write_commit_log_def write_abort_log_def
      write_end_log_def on_ended_def tm_emit_def tm_quiet_def)

lemma tm_quiet_handlers:
  "tm_quiet c (on_committed c)" "tm_quiet c (on_aborted c)" "tm_quiet c (tm_abort ec c)"
proof -
  have 1: "tm_quiet c (send_abort (send_tx_response d))" if "tm_quiet c d" for d
    using that tm_quiet_send(2,3) tm_quiet_trans by blast
  have 2: "tm_quiet c (send_tx_response (send_abort d))" if "tm_quiet c d" for d
    using that tm_quiet_send(2,3) tm_quiet_trans by blast
  show "tm_quiet c (on_committed c)"
    unfolding on_committed_def by (rule tm_quiet_trans[OF _ tm_quiet_send(1)]) (simp add: tm_quiet_refl)
  show "tm_quiet c (on_aborted c)"
    unfolding on_aborted_def by (rule 2) (simp add: tm_quiet_refl)
  show "tm_quiet c (tm_abort ec c)"
    unfolding tm_abort_def Let_def by (auto intro!: 1 simp: tm_quiet_refl split: tm_state.split)
qed

lemma step_tm_state_advance_quiet: "tm_quiet c (step_tm_state_advance c)"
  using tm_quiet_send tm_quiet_trans[OF tm_quiet_send(3) tm_quiet_send(6)] tm_quiet_refl
  by (cases c rule: step_tm_state_advance_cases) (metis+)

lemma set_rm_state_wf:
  assumes "tm_wf c" "tm_inv V c"
  shows "tm_wf (set_rm_state sd st c)" "tm_grows c (set_rm_state sd st c)"
proof -
  have m: "rm_tracer' (set_rm_state sd st c) = map (\<lambda>(a, b). (a, if a = sd then b\<lparr>rm_state' := st\<rparr> else b)) (rm_tracer' c)"
    by (simp add: set_rm_state_def map_entry_distinct[OF tracer_distinct[OF assms(2)]])
  have k: "fst ` set (rm_tracer' (set_rm_state sd st c)) = fst ` set (rm_tracer' c)"
    unfolding m by (simp add: image_image case_prod_unfold)
  have f: "node_id' (set_rm_state sd st c) = node_id' c" "lead_node' (set_rm_state sd st c) = lead_node' c"
    "xid' (set_rm_state sd st c) = xid' c" "out' (set_rm_state sd st c) = out' c"
    by (simp_all add: set_rm_state_def)
  have "tracer_ok (set_rm_state sd st c) p" if mem: "p \<in> set (rm_tracer' (set_rm_state sd st c))" for p
  proof -
    obtain a b where ab: "(a, b) \<in> set (rm_tracer' c)" "p = (a, if a = sd then b\<lparr>rm_state' := st\<rparr> else b)"
      using mem unfolding m by auto
    then show ?thesis using assms(1) by (auto simp: tm_wf_def tracer_ok_def f)
  qed
  then show "tm_wf (set_rm_state sd st c)"
    using assms(1) unfolding tm_wf_def request_ok_def k f by blast
  show "tm_grows c (set_rm_state sd st c)" by (simp add: tm_grows_def f k)
qed

lemma send_requests_tracers:
  assumes "\<forall>p \<in> set (rm_tracer' c). tracer_ok c p" "\<forall>p \<in> set trs. tracer_ok c p"
    and "fst ` set trs \<subseteq> fst ` set (rm_tracer' c)"
    and d: "d = snd (send_requests sent trs c)"
  shows "(\<forall>p \<in> set (rm_tracer' d). tracer_ok d p) \<and> fst ` set (rm_tracer' d) = fst ` set (rm_tracer' c) \<and>
    xid' d = xid' c \<and> node_id' d = node_id' c \<and> lead_node' d = lead_node' c"
  unfolding d using assms(1-3)
proof (induction trs arbitrary: c)
  case (Cons p trs)
  obtain sd tr where p: "p = (sd, tr)" by (cases p)
  define m where "m = (message' tr)\<lparr>rq_xid := xid' c, rq_client_request := False\<rparr>"
  define c1 where "c1 = c\<lparr>rm_tracer' := AList.update sd (tr\<lparr>message' := m\<rparr>) (rm_tracer' c)\<rparr>"
  define c2 where "c2 = tm_emit (Send_TX_TM_REQUEST (lead' tr) m) c1"
  have k: "fst ` set (rm_tracer' c1) = fst ` set (rm_tracer' c)"
    using Cons.prems(3) p by (auto simp: c1_def dom_update)
  have sub: "set (AList.update sd v xs) \<subseteq> insert (sd, v) (set xs)" for v and xs :: "(shard_id_t \<times> tx_rm_tracer) list"
    by (induction xs) auto
  have ok1: "\<forall>q \<in> set (rm_tracer' c1). tracer_ok c1 q"
  proof
    fix q assume "q \<in> set (rm_tracer' c1)"
    then have "q = (sd, tr\<lparr>message' := m\<rparr>) \<or> q \<in> set (rm_tracer' c)" using sub by (auto simp: c1_def)
    then show "tracer_ok c1 q"
      using Cons.prems(1,2) p by (auto simp: tracer_ok_def c1_def m_def)
  qed
  have same: "tracer_ok c2 q = tracer_ok c q" "tracer_ok c1 q = tracer_ok c q" "rm_tracer' c2 = rm_tracer' c1" for q
    by (simp_all add: tracer_ok_def c2_def c1_def tm_emit_def)
  have f: "xid' c2 = xid' c" "node_id' c2 = node_id' c" "lead_node' c2 = lead_node' c"
    by (simp_all add: c2_def c1_def tm_emit_def)
  show ?case
  proof (cases "sent (lead' tr)")
    case True
    then have "send_requests sent (p # trs) c = send_requests sent trs c2"
      by (simp add: p Let_def m_def c1_def c2_def)
    then show ?thesis
      using Cons.IH[of c2] Cons.prems ok1 by (simp add: same k f)
  next
    case False
    then have "send_requests sent (p # trs) c = (False, c1)" by (simp add: p Let_def m_def c1_def)
    then show ?thesis using ok1 k by (simp add: c1_def)
  qed
qed simp

lemma on_begin_wf:
  assumes wf: "tm_wf c" and inv: "tm_inv V c"
  shows "tm_wf (on_begin sent c)" "tm_grows c (on_begin sent c)"
proof -
  define d where "d = snd (send_rm_request sent c)"
  have t: "\<forall>p \<in> set (rm_tracer' d). tracer_ok d p" "fst ` set (rm_tracer' d) = fst ` set (rm_tracer' c)"
    "xid' d = xid' c" "node_id' d = node_id' c" "lead_node' d = lead_node' c"
    using send_requests_tracers[of c "rm_tracer' c" d sent] wf by (simp_all add: d_def send_rm_request_def tm_wf_def)
  obtain es where es: "out' d = out' c @ es" "\<forall>e \<in> set es. \<exists>sd tr. (sd, tr) \<in> set (rm_tracer' c) \<and>
      e = Send_TX_TM_REQUEST (lead' tr) ((message' tr)\<lparr>rq_xid := xid' c, rq_client_request := False\<rparr>)"
    using send_rm_request_frame[OF inv, of sent] unfolding d_def by blast
  have req: "request_ok d e = request_ok c e" for e
    by (simp add: request_ok_def t)
  have new: "request_ok c e" if e: "e \<in> set es" for e
  proof -
    obtain sd tr where mem: "(sd, tr) \<in> set (rm_tracer' c)" and
      ee: "e = Send_TX_TM_REQUEST (lead' tr) ((message' tr)\<lparr>rq_xid := xid' c, rq_client_request := False\<rparr>)"
      using es(2) e by blast
    have "tracer_ok c (sd, tr)" using wf mem unfolding tm_wf_def by blast
    moreover have "sd \<in> fst ` set (rm_tracer' c)" using mem by force
    ultimately show ?thesis
      unfolding request_ok_def tracer_ok_def ee by auto
  qed
  have d: "tm_wf d" "tm_grows c d"
    using t es new wf by (auto simp: tm_wf_def req tm_grows_def)
  have q: "tm_quiet d (on_begin sent c)"
    using tm_quiet_trans[OF _ tm_quiet_send(3), of d "d\<lparr>error_code' := EC_TX_ABORT\<rparr>"]
    by (auto simp: on_begin_def d_def tm_quiet_refl split: prod.split)
  show "tm_wf (on_begin sent c)" "tm_grows c (on_begin sent c)"
    using tm_quiet_wf[OF q d(1)] tm_grows_trans[OF d(2)] by blast+
qed

text \<open>The shape of a handler that changes one participant's state.\<close>

lemma tm_prepare_shape:
  assumes "tm_step (Tm_prepare m) c = Some c'"
  shows "c' = c \<or> (\<exists>st d g. c' = step_tm_state_advance d \<and>
    (d = set_rm_state (pr_source_rg m) st c \<or> d = (set_rm_state (pr_source_rg m) st c)\<lparr>stats' := g\<rparr>))"
  using assms unfolding tm_step_def handle_tx_rm_prepare_def Let_def
  by (auto split: option.splits if_splits)

lemma tm_ack_shape:
  assumes "tm_step (Tm_ack m) c = Some c'"
  shows "c' = c \<or> c' = step_tm_state_advance c \<or>
    (\<exists>st. c' = step_tm_state_advance (set_rm_state (ak_source_rg m) st c))"
  using assms unfolding tm_step_def handle_tx_rm_ack_def
  by (auto split: option.splits if_splits)

lemma tm_step_wf:
  assumes wf: "tm_wf c" and inv: "tm_inv V c" and run: "tm_step e c = Some c'"
  shows "tm_wf c' \<and> tm_grows c c'"
proof -
  have quiet: "tm_wf d \<and> tm_grows c d" if "tm_quiet c d" for d
    using tm_quiet_wf[OF that wf] by blast
  have adv: "tm_wf (step_tm_state_advance d) \<and> tm_grows c (step_tm_state_advance d)"
    if "d = set_rm_state sd st c \<or> d = (set_rm_state sd st c)\<lparr>stats' := g\<rparr>" for d sd st g
  proof -
    note sw = set_rm_state_wf[OF wf inv, of sd st]
    have "tm_quiet (set_rm_state sd st c) (step_tm_state_advance d)"
      using that tm_quiet_trans[OF _ step_tm_state_advance_quiet, of "set_rm_state sd st c" d]
      by (auto simp: tm_quiet_refl)
    then show ?thesis
      using tm_quiet_wf[OF _ sw(1)] tm_grows_trans[OF sw(2)] by blast
  qed
  show ?thesis
  proof (cases e)
    case (Tm_log_commit sent t)
    have c': "c' = on_log_entry_commit sent t c"
      using run Tm_log_commit by (simp add: tm_step_def)
    show ?thesis
      using quiet tm_quiet_handlers tm_quiet_send(7) on_begin_wf[OF wf inv, of sent] tm_quiet_refl
      unfolding c' on_log_entry_commit_def by (cases t) simp_all
  next
    case (Tm_prepare m)
    from tm_prepare_shape[OF run[unfolded Tm_prepare]]
    show ?thesis using adv quiet tm_quiet_refl by blast
  next
    case (Tm_ack m)
    from tm_ack_shape[OF run[unfolded Tm_ack]]
    show ?thesis using adv quiet tm_quiet_refl step_tm_state_advance_quiet by blast
  next
    case (Tm_abort ec)
    then show ?thesis using quiet tm_quiet_handlers(3) run by (auto simp: tm_step_def)
  qed
qed

lemma started_wf: "started (new_tx_coordinator x n leads) c0 \<Longrightarrow> tm_wf c0"
  using started_fields(11) unfolding tm_wf_def started_def traced_def request_ok_def by fastforce

lemma tm_run_grows:
  "tm_inv V c \<Longrightarrow> tm_wf c \<Longrightarrow> disciplined tm_step (tm_ok V) evs c \<Longrightarrow> run tm_step evs c = Some c' \<Longrightarrow> tm_grows c c'"
proof (induction evs arbitrary: c)
  case (Cons e evs)
  then obtain c1 where c1: "tm_step e c = Some c1" "run tm_step evs c1 = Some c'" by (auto split: option.splits)
  then have "tm_inv V c1" "tm_wf c1" "tm_grows c c1"
    using Cons.prems tm_step_inv[of V c e c1] tm_step_wf[of c V e c1] by auto
  then show ?case using Cons.IH[of c1] Cons.prems c1 tm_grows_trans[of c c1 c'] by simp
qed (simp add: tm_grows_refl)

text \<open>
  (C16) A coordinator that answered a client's request and was then driven by
  votes, acknowledgements, aborts and entries the log reported, in any order and
  any number, never sends both a commit and an abort.  If it sends a commit, or
  has even written the commit entry, then every shard the transaction touches
  voted to commit and no abort was sent.
\<close>

theorem coordinator_decides_once:
  assumes "handle_tx_request req (new_tx_coordinator x n leads) = Some (Inr (), c0)"
    and "disciplined tm_step (tm_ok (commit_votes evs)) evs c0"
    and "run tm_step evs c0 = Some c"
  shows "\<not> (commit_sent c \<and> abort_sent c) \<and>
    (commit_sent c \<or> appended TX_CMD_TM_COMMIT c \<longrightarrow>
      \<not> abort_sent c \<and> to_sd_id ` set (rq_operations req) \<subseteq> commit_votes evs)"
proof -
  note st = handle_tx_request_started[OF assms(1)]
  have inv: "tm_inv (commit_votes evs) c"
    by (rule tm_run_inv[OF started_inv[OF st(1)] assms(2,3)])
  have "fst ` set (rm_tracer' c) = to_sd_id ` set (rq_operations req)"
    using tm_run_grows[OF started_inv[OF st(1)] started_wf[OF st(1)] assms(2,3)] st(2)
    by (simp add: tm_grows_def)
  moreover have "fst ` set (roster c) = fst ` set (rm_tracer' c)"
    using map_fst_roster[of c] by (metis list.set_map)
  ultimately show ?thesis
    using tm_invD(2,4,5,9)[OF inv] by auto
qed

definition demo_op :: "shard_id_t \<Rightarrow> tx_operation" where
  "demo_op sd = no_operation\<lparr>to_op_type := TX_OP_READ, to_sd_id := sd\<rparr>"

definition demo_leads :: "shard_id_t \<Rightarrow> node_id_t option" where
  "demo_leads = [1 \<mapsto> 65793, 2 \<mapsto> 131329]"

definition demo_request :: tx_request where
  "demo_request = no_request\<lparr>rq_oneshot := True, rq_distributed := True,
     rq_operations := [demo_op 1, demo_op 2, demo_op 1]\<rparr>"

definition demo_tm :: tx_coordinator where
  "demo_tm = snd (the (handle_tx_request demo_request (new_tx_coordinator 7 65793 demo_leads)))"

definition demo_prepare :: "shard_id_t \<Rightarrow> tx_rm_prepare" where
  "demo_prepare sd = \<lparr>pr_xid = 7, pr_source_node = 0, pr_dest_node = 65793, pr_source_rg = sd,
     pr_dest_rg = 1, pr_commit = True, pr_stats = no_stats\<rparr>"

definition demo_ack :: "shard_id_t \<Rightarrow> tx_rm_ack" where
  "demo_ack sd = \<lparr>ak_xid = 7, ak_source_node = 0, ak_dest_node = 65793, ak_source_rg = sd,
     ak_dest_rg = 1, ak_commit = True\<rparr>"

definition demo_round :: "tm_event list" where
  "demo_round = [Tm_log_commit (\<lambda>_. True) TX_CMD_TM_BEGIN, Tm_prepare (demo_prepare 2), Tm_prepare (demo_prepare 1), Tm_abort EC_VICTIM,
     Tm_log_commit (\<lambda>_. True) TX_CMD_TM_COMMIT]"

definition demo_decided :: tx_coordinator where
  "demo_decided = the (run tm_step demo_round demo_tm)"

lemma demo_tm_request:
  "handle_tx_request demo_request (new_tx_coordinator 7 65793 demo_leads) = Some (Inr (), demo_tm)"
  by code_simp

lemma demo_round_run:
  "run tm_step demo_round demo_tm = Some demo_decided"
  by code_simp

lemma demo_round_ok: "disciplined tm_step (tm_ok (commit_votes demo_round)) demo_round demo_tm"
  by code_simp

theorem coordinator_decides_once_witness:
  "commit_sent demo_decided \<and> \<not> abort_sent demo_decided \<and>
   to_sd_id ` set (rq_operations demo_request) \<subseteq> commit_votes demo_round"
proof -
  have "commit_sent demo_decided" by code_simp
  then show ?thesis
    using coordinator_decides_once[OF demo_tm_request demo_round_ok demo_round_run] by blast
qed



end
