(* ===== verification/Tx_Round.thy ===== *)
theory Tx_Round
  imports Tx_Coordinator
begin

text \<open>
  Progress of the coordinator of \<^verbatim>\<open>src/concurrency/tx_coordinator.cpp\<close>: a round in which
  every participant agrees runs to its end.
\<close>

section \<open>A round in which everybody agrees\<close>

text \<open>The participants with their states, as a function of the shard.\<close>

definition states :: "(shard_id_t \<Rightarrow> tx_rm_state) \<Rightarrow> tx_coordinator \<Rightarrow> bool" where
  "states f c \<longleftrightarrow> (\<forall>p \<in> set (rm_tracer' c). rm_state' (snd p) = f (fst p))"

definition keys :: "tx_coordinator \<Rightarrow> shard_id_t set" where
  "keys c = fst ` set (rm_tracer' c)"

lemma states_map_of: "states f c \<Longrightarrow> sd \<in> keys c \<Longrightarrow> \<exists>tr. map_of (rm_tracer' c) sd = Some tr \<and> rm_state' tr = f sd"
proof -
  assume f: "states f c" and "sd \<in> keys c"
  then obtain tr where tr: "map_of (rm_tracer' c) sd = Some tr"
    unfolding keys_def by (metis map_of_eq_None_iff not_Some_eq)
  then show ?thesis using f map_of_SomeD[OF tr] by (force simp: states_def)
qed

lemma count_rm_states:
  assumes "states f c"
  shows "count_rm st c = length (filter (\<lambda>p. f (fst p) = st) (rm_tracer' c))"
  unfolding count_rm_def
  by (rule arg_cong[where f = length], rule filter_cong) (use assms in \<open>auto simp: states_def\<close>)

lemma count_rm_0: "states f c \<Longrightarrow> count_rm st c = 0 \<longleftrightarrow> (\<forall>sd \<in> keys c. f sd \<noteq> st)"
  by (auto simp: count_rm_states filter_empty_conv keys_def)

lemma count_rm_all: "states f c \<Longrightarrow> count_rm st c = length (rm_tracer' c) \<longleftrightarrow> (\<forall>sd \<in> keys c. f sd = st)"
proof -
  assume f: "states f c"
  have "length (filter P xs) = length xs \<longleftrightarrow> (\<forall>x \<in> set xs. P x)" for P and xs :: "(shard_id_t \<times> tx_rm_tracer) list"
    using filter_full[of P xs] by (auto simp: filter_id_conv)
  then show ?thesis by (simp add: count_rm_states[OF f] keys_def)
qed

lemma set_rm_state_states:
  assumes "states f c" "distinct (map fst (rm_tracer' c))"
  shows "states (f(sd := st)) (set_rm_state sd st c)" "keys (set_rm_state sd st c) = keys c"
    "map fst (rm_tracer' (set_rm_state sd st c)) = map fst (rm_tracer' c)"
  using assms by (auto simp: states_def keys_def set_rm_state_def map_entry_distinct image_image case_prod_unfold)

definition members :: "tx_coordinator \<Rightarrow> (shard_id_t \<times> node_id_t) list" where
  "members c = map (\<lambda>(sd, tr). (sd, lead' tr)) (rm_tracer' c)"

text \<open>Nothing is answered to the client and nothing ends between the vote and the last acknowledgement.\<close>

definition same_round :: "tx_coordinator \<Rightarrow> tx_coordinator \<Rightarrow> bool" where
  "same_round c c' \<longleftrightarrow> members c' = members c \<and> error_code' c' = error_code' c \<and>
     responsed' c' = responsed' c \<and> write_end_done' c' = write_end_done' c"

lemma same_round_refl: "same_round c c" and
  same_round_trans: "same_round a b \<Longrightarrow> same_round b c \<Longrightarrow> same_round a c"
  by (simp_all add: same_round_def)

lemma members_keys: "map fst (rm_tracer' c) = map fst (members c)" "keys c = fst ` set (members c)"
  by (simp_all add: members_def keys_def comp_def case_prod_unfold image_image)

lemma same_round_keys: "same_round c c' \<Longrightarrow> keys c' = keys c \<and> map fst (rm_tracer' c') = map fst (rm_tracer' c)"
  by (simp add: same_round_def members_keys)

lemma members_set_rm_state:
  "distinct (map fst (rm_tracer' c)) \<Longrightarrow> members (set_rm_state sd st c) = members c"
  by (auto simp: members_def set_rm_state_def map_entry_distinct)

definition voting :: "tx_coordinator \<Rightarrow> bool" where
  "voting c \<longleftrightarrow> tm_state' c = TM_IDLE \<and> \<not> victim' c \<and> \<not> write_commit_log' c \<and> distinct (map fst (rm_tracer' c))"

lemma vote_step:
  assumes v: "voting c" and f: "states f c" and sd: "pr_source_rg m \<in> keys c" "f (pr_source_rg m) = RM_IDLE"
    and m: "pr_commit m"
  shows "\<exists>c1. states (f(pr_source_rg m := RM_PREPARE_COMMIT)) c1 \<and> voting c1 \<and> same_round c c1 \<and>
    tm_step (Tm_prepare m) c = Some (step_tm_state_advance c1)"
proof -
  obtain tr where tr: "map_of (rm_tracer' c) (pr_source_rg m) = Some tr" "rm_state' tr = RM_IDLE"
    using states_map_of[OF f sd(1)] sd(2) by auto
  have d: "distinct (map fst (rm_tracer' c))" using v by (simp add: voting_def)
  define c0 where "c0 = set_rm_state (pr_source_rg m) RM_PREPARE_COMMIT c"
  define c1 where "c1 = c0\<lparr>stats' := add_stats (pr_stats m) (stats' c0)\<rparr>"
  note s = set_rm_state_states[OF f d, of "pr_source_rg m" RM_PREPARE_COMMIT]
  have "states (f(pr_source_rg m := RM_PREPARE_COMMIT)) c1" using s(1) by (simp add: c1_def c0_def states_def)
  moreover have "voting c1"
    using v s(3) unfolding c1_def c0_def by (simp add: voting_def) (simp add: set_rm_state_def)
  moreover have "same_round c c1"
    unfolding same_round_def using members_set_rm_state[OF d, of "pr_source_rg m" RM_PREPARE_COMMIT]
    by (simp add: c1_def c0_def members_def) (simp add: set_rm_state_def)
  moreover have "tm_step (Tm_prepare m) c = Some (step_tm_state_advance c1)"
    using tr m by (simp add: tm_step_def handle_tx_rm_prepare_def c1_def c0_def Let_def)
  ultimately show ?thesis by blast
qed

lemma votes_run:
  assumes "ms \<noteq> []" "distinct (map pr_source_rg ms)" "\<forall>m \<in> set ms. pr_commit m"
    and "states f c" "\<forall>sd \<in> keys c. f sd = (if sd \<in> pr_source_rg ` set ms then RM_IDLE else RM_PREPARE_COMMIT)"
    and "pr_source_rg ` set ms \<subseteq> keys c" "voting c"
  shows "\<exists>c1. states (\<lambda>_. RM_PREPARE_COMMIT) c1 \<and> voting c1 \<and> same_round c c1 \<and>
    run tm_step (map Tm_prepare ms) c = Some (write_commit_log c1)"
  using assms
proof (induction ms arbitrary: c f)
  case (Cons m ms)
  obtain c1 where c1: "states (f(pr_source_rg m := RM_PREPARE_COMMIT)) c1" "voting c1" "same_round c c1"
    "tm_step (Tm_prepare m) c = Some (step_tm_state_advance c1)"
    using vote_step[OF Cons.prems(7,4), of m] Cons.prems by auto
  let ?f = "f(pr_source_rg m := RM_PREPARE_COMMIT)"
  have k: "keys c1 = keys c" using same_round_keys[OF c1(3)] by simp
  have f1: "\<forall>sd \<in> keys c1. ?f sd = (if sd \<in> pr_source_rg ` set ms then RM_IDLE else RM_PREPARE_COMMIT)"
    using Cons.prems(2,5) unfolding k by auto
  show ?case
  proof (cases "ms = []")
    case True
    then have all: "\<forall>sd \<in> keys c1. ?f sd = RM_PREPARE_COMMIT" using f1 by simp
    have ne: "pr_source_rg m \<in> keys c1" using Cons.prems(6) k by simp
    have "count_rm RM_IDLE c1 = 0" "count_rm RM_COMMITTED c1 \<noteq> length (rm_tracer' c1)"
      "count_rm RM_ABORTED c1 \<noteq> length (rm_tracer' c1)" "count_rm RM_PREPARE_COMMIT c1 = length (rm_tracer' c1)"
      "count_rm RM_PREPARE_ABORT c1 = 0"
      using all ne unfolding count_rm_0[OF c1(1)] count_rm_all[OF c1(1)] by auto
    then have "step_tm_state_advance c1 = write_commit_log c1"
      by (simp add: step_tm_state_advance_def)
    moreover have "states (\<lambda>_. RM_PREPARE_COMMIT) c1"
      using c1(1) all unfolding states_def keys_def by auto
    ultimately show ?thesis using c1 True by auto
  next
    case False
    then obtain m' where m': "m' \<in> set ms" by (cases ms) auto
    have "count_rm RM_IDLE c1 \<noteq> 0"
      using f1 m' Cons.prems(6) unfolding count_rm_0[OF c1(1)] k by force
    then have adv: "step_tm_state_advance c1 = c1" by (simp add: step_tm_state_advance_def)
    obtain c2 where c2: "states (\<lambda>_. RM_PREPARE_COMMIT) c2" "voting c2" "same_round c1 c2"
      "run tm_step (map Tm_prepare ms) c1 = Some (write_commit_log c2)"
      using Cons.IH[OF False _ _ c1(1) f1 _ c1(2)] Cons.prems(2,3,6) k by auto
    then show ?thesis using c1 adv same_round_trans[OF c1(3) c2(3)] by auto
  qed
qed simp

lemma ack_step:
  assumes d: "distinct (map fst (rm_tracer' c))" and f: "states f c" and sd: "ak_source_rg m \<in> keys c"
    "f (ak_source_rg m) = RM_PREPARE_COMMIT" and m: "ak_commit m"
  shows "\<exists>c1. states (f(ak_source_rg m := RM_COMMITTED)) c1 \<and> same_round c c1 \<and> tm_state' c1 = tm_state' c \<and>
    tm_step (Tm_ack m) c = Some (step_tm_state_advance c1)"
proof -
  obtain tr where tr: "map_of (rm_tracer' c) (ak_source_rg m) = Some tr" "rm_state' tr = RM_PREPARE_COMMIT"
    using states_map_of[OF f sd(1)] sd(2) by auto
  define c1 where "c1 = set_rm_state (ak_source_rg m) RM_COMMITTED c"
  have "states (f(ak_source_rg m := RM_COMMITTED)) c1"
    using set_rm_state_states(1)[OF f d] by (simp add: c1_def)
  moreover have "same_round c c1" "tm_state' c1 = tm_state' c"
    using members_set_rm_state[OF d, of "ak_source_rg m" RM_COMMITTED]
    unfolding same_round_def c1_def by simp_all (simp_all add: set_rm_state_def)
  moreover have "tm_step (Tm_ack m) c = Some (step_tm_state_advance c1)"
    using tr m by (simp add: tm_step_def handle_tx_rm_ack_def c1_def)
  ultimately show ?thesis by blast
qed

lemma acks_run:
  assumes "ms \<noteq> []" "distinct (map ak_source_rg ms)" "\<forall>m \<in> set ms. ak_commit m"
    and "states f c" "\<forall>sd \<in> keys c. f sd = (if sd \<in> ak_source_rg ` set ms then RM_PREPARE_COMMIT else RM_COMMITTED)"
    and "ak_source_rg ` set ms \<subseteq> keys c" "distinct (map fst (rm_tracer' c))"
  shows "\<exists>c1. same_round c c1 \<and> tm_state' c1 = tm_state' c \<and>
    run tm_step (map Tm_ack ms) c = Some (write_end_log (send_tx_response c1))"
  using assms
proof (induction ms arbitrary: c f)
  case (Cons m ms)
  obtain c1 where c1: "states (f(ak_source_rg m := RM_COMMITTED)) c1" "same_round c c1" "tm_state' c1 = tm_state' c"
    "tm_step (Tm_ack m) c = Some (step_tm_state_advance c1)"
    using ack_step[OF Cons.prems(7,4), of m] Cons.prems by auto
  let ?f = "f(ak_source_rg m := RM_COMMITTED)"
  have k: "keys c1 = keys c" "map fst (rm_tracer' c1) = map fst (rm_tracer' c)" using same_round_keys[OF c1(2)] by simp_all
  have f1: "\<forall>sd \<in> keys c1. ?f sd = (if sd \<in> ak_source_rg ` set ms then RM_PREPARE_COMMIT else RM_COMMITTED)"
    using Cons.prems(2,5) unfolding k by auto
  have ne: "ak_source_rg m \<in> keys c1" "?f (ak_source_rg m) = RM_COMMITTED" using Cons.prems(6) k by simp_all
  have idle: "count_rm RM_IDLE c1 = 0" "count_rm RM_PREPARE_ABORT c1 = 0"
    using f1 unfolding count_rm_0[OF c1(1)] by auto
  show ?case
  proof (cases "ms = []")
    case True
    then have "count_rm RM_COMMITTED c1 = length (rm_tracer' c1)"
      using f1 unfolding count_rm_all[OF c1(1)] by simp
    then have "step_tm_state_advance c1 = write_end_log (send_tx_response c1)"
      using idle by (simp add: step_tm_state_advance_def)
    then show ?thesis using c1 True by auto
  next
    case False
    then obtain m' where m': "m' \<in> set ms" by (cases ms) auto
    then have key: "ak_source_rg m' \<in> keys c1" using Cons.prems(6) k by auto
    have "?f (ak_source_rg m') = RM_PREPARE_COMMIT" using bspec[OF f1 key] m' by (simp only: image_eqI if_True)
    with key have "count_rm RM_COMMITTED c1 \<noteq> length (rm_tracer' c1)" "count_rm RM_ABORTED c1 \<noteq> length (rm_tracer' c1)"
      "count_rm RM_PREPARE_COMMIT c1 \<noteq> length (rm_tracer' c1)"
      using ne unfolding count_rm_all[OF c1(1)] by (metis tx_rm_state.distinct)+
    then have adv: "step_tm_state_advance c1 = c1" using idle by (simp add: step_tm_state_advance_def)
    obtain c2 where c2: "same_round c1 c2" "tm_state' c2 = tm_state' c1"
      "run tm_step (map Tm_ack ms) c1 = Some (write_end_log (send_tx_response c2))"
      using Cons.IH[OF False _ _ c1(1) f1] Cons.prems(2,3,6,7) k by auto
    then show ?thesis using c1 adv same_round_trans[OF c1(2) c2(1)] by auto
  qed
qed simp

lemma send_requests_out: "set (out' c) \<subseteq> set (out' (snd (send_requests sent trs c)))"
proof (induction sent trs c rule: send_requests.induct)
  case (2 sent sd tr trs c)
  then show ?case by (fastforce simp: Let_def tm_emit_def)
qed simp

lemma send_requests_rest:
  "\<exists>ts os. snd (send_requests sent trs c) = c\<lparr>rm_tracer' := ts, out' := os\<rparr>"
proof (induction trs arbitrary: c)
  case Nil
  show ?case by (rule exI[of _ "rm_tracer' c"], rule exI[of _ "out' c"]) simp
next
  case (Cons p trs)
  obtain sd tr where p: "p = (sd, tr)" by (cases p)
  define m where "m = (message' tr)\<lparr>rq_xid := xid' c, rq_client_request := False\<rparr>"
  define c1 where "c1 = c\<lparr>rm_tracer' := AList.update sd (tr\<lparr>message' := m\<rparr>) (rm_tracer' c)\<rparr>"
  define c2 where "c2 = tm_emit (Send_TX_TM_REQUEST (lead' tr) m) c1"
  have run: "snd (send_requests sent (p # trs) c) = (if sent (lead' tr) then snd (send_requests sent trs c2) else c1)"
    by (simp add: p Let_def m_def c1_def c2_def)
  obtain ts os where "snd (send_requests sent trs c2) = c2\<lparr>rm_tracer' := ts, out' := os\<rparr>"
    using Cons.IH[of c2] by blast
  then have "snd (send_requests sent trs c2) = c\<lparr>rm_tracer' := ts, out' := os\<rparr>"
    by (simp add: c2_def c1_def tm_emit_def)
  moreover have "c1 = c\<lparr>rm_tracer' := rm_tracer' c1, out' := out' c\<rparr>" by (simp add: c1_def)
  ultimately show ?case unfolding run by metis
qed

lemma send_requests_all: "fst (send_requests (\<lambda>_. True) trs c)"
  by (induction "\<lambda>_::node_id_t. True" trs c rule: send_requests.induct) (simp_all add: Let_def)

lemma tm_step_out: "tm_step e c = Some c' \<Longrightarrow> set (out' c) \<subseteq> set (out' c')"
proof -
  assume run: "tm_step e c = Some c'"
  have q: "set (out' a) \<subseteq> set (out' b)" if "tm_quiet a b" for a b
    using that by (auto simp: tm_quiet_def)
  have adv: "set (out' c) \<subseteq> set (out' (step_tm_state_advance d))" if "out' d = out' c" for d
    using q[OF step_tm_state_advance_quiet, of d] that by simp
  show ?thesis
  proof (cases e)
    case (Tm_log_commit sent t)
    have b: "set (out' c) \<subseteq> set (out' (on_begin sent c))"
    proof -
      obtain ok d where d: "send_rm_request sent c = (ok, d)" by (cases "send_rm_request sent c")
      then have "set (out' c) \<subseteq> set (out' d)"
        using send_requests_out[of c sent "rm_tracer' c"] by (simp add: send_rm_request_def)
      then show ?thesis
        using q[OF tm_quiet_send(3), of "d\<lparr>error_code' := EC_TX_ABORT\<rparr>"] by (auto simp: on_begin_def d)
    qed
    have c': "c' = on_log_entry_commit sent t c" using run Tm_log_commit by (simp add: tm_step_def)
    show ?thesis
      unfolding c' on_log_entry_commit_def
      using b q[OF tm_quiet_handlers(1), of c] q[OF tm_quiet_handlers(2), of c] q[OF tm_quiet_send(7), of c]
      by (cases t) simp_all
  next
    case (Tm_prepare m)
    have keep: "out' (set_rm_state sd st c) = out' c" "out' ((set_rm_state sd st c)\<lparr>stats' := g\<rparr>) = out' c" for sd st g
      by (simp_all add: set_rm_state_def)
    from tm_prepare_shape[OF run[unfolded Tm_prepare]] show ?thesis
      using adv[OF keep(1)] adv[OF keep(2)] by blast
  next
    case (Tm_ack m)
    have keep: "out' (set_rm_state sd st c) = out' c" for sd st by (simp add: set_rm_state_def)
    from tm_ack_shape[OF run[unfolded Tm_ack]] show ?thesis using adv[OF keep] adv[OF refl] by blast
  next
    case (Tm_abort ec)
    then show ?thesis using run q[OF tm_quiet_handlers(3)] by (auto simp: tm_step_def)
  qed
qed

lemma tm_run_out: "run tm_step evs c = Some c' \<Longrightarrow> set (out' c) \<subseteq> set (out' c')"
proof (induction evs arbitrary: c)
  case (Cons e evs)
  then obtain c1 where "tm_step e c = Some c1" "run tm_step evs c1 = Some c'" by (auto split: option.splits)
  then show ?case using Cons.IH[of c1] tm_step_out[of e c c1] by blast
qed simp

lemma begin_round:
  assumes "started (new_tx_coordinator x n leads) c0"
  shows "\<exists>c. tm_step (Tm_log_commit (\<lambda>_. True) TX_CMD_TM_BEGIN) c0 = Some c \<and> states (\<lambda>_. RM_IDLE) c \<and>
    voting c \<and> same_round c0 c"
proof -
  define c where "c = snd (send_rm_request (\<lambda>_. True) c0)"
  have step: "tm_step (Tm_log_commit (\<lambda>_. True) TX_CMD_TM_BEGIN) c0 = Some c"
    using send_requests_all[of "rm_tracer' c0" c0]
    by (simp add: tm_step_def on_log_entry_commit_def on_begin_def send_rm_request_def c_def case_prod_unfold)
  have "tm_same c0 c" using send_rm_request_frame[OF started_inv[OF assms, of UNIV]] unfolding c_def by blast
  then have r: "roster c = roster c0" by (simp add: tm_same_def)
  obtain ts os where e: "c = c0\<lparr>rm_tracer' := ts, out' := os\<rparr>"
    using send_requests_rest[of "\<lambda>_. True" "rm_tracer' c0" c0] by (auto simp: c_def send_rm_request_def)
  have t: "traced c0" using assms by (simp add: started_def)
  have st: "states (\<lambda>_. RM_IDLE) d \<longleftrightarrow> (\<forall>r \<in> set (roster d). snd (snd r) = RM_IDLE)" for d
    by (auto simp: states_def roster_def)
  have "states (\<lambda>_. RM_IDLE) c0" using t by (simp add: states_def traced_def)
  then have "states (\<lambda>_. RM_IDLE) c" by (simp add: st r)
  moreover have "members d = map (\<lambda>r. (fst r, fst (snd r))) (roster d)" for d
    by (simp add: members_def roster_def case_prod_unfold)
  then have m: "members c = members c0" by (simp add: r)
  then have "same_round c0 c" by (simp add: same_round_def e)
  moreover have "distinct (map fst (rm_tracer' c))"
    using t unfolding traced_def members_keys m by blast
  then have "voting c"
    using started_fields[OF assms] by (simp add: voting_def) (simp add: e)
  ultimately show ?thesis using step by blast
qed

lemma started_members:
  assumes "started (new_tx_coordinator x n leads) c0" "sd \<in> fst ` set (rm_tracer' c0)"
  shows "\<exists>lead. leads sd = Some lead \<and> (sd, lead) \<in> set (members c0)"
proof -
  obtain tr where tr: "(sd, tr) \<in> set (rm_tracer' c0)" using assms(2) by auto
  have "tracer_ok c0 (sd, tr)" using assms(1) tr unfolding started_def traced_def by blast
  then show ?thesis
    using tr started_fields(3)[OF assms(1)] by (force simp: tracer_ok_def members_def)
qed

lemma on_committed_sends:
  assumes "(sd, lead) \<in> set (members c)"
  shows "\<exists>d. Send_TX_TM_COMMIT lead d \<in> set (out' (on_committed c))"
proof -
  obtain tr where "(sd, tr) \<in> set (rm_tracer' c)" "lead' tr = lead" using assms by (auto simp: members_def)
  then show ?thesis unfolding on_committed_def send_commit_eq by force
qed

text \<open>
  (C17) A round in which every participant agrees ends with a commit.  For any
  client request that was accepted, when the begin entry is reported and its
  requests go out, every shard votes to commit, the commit entry is reported,
  every shard acknowledges and the end entry is reported, with votes and
  acknowledgements in any order, no assertion fails, the coordinator is done, the
  client is answered with \<^verbatim>\<open>EC_OK\<close> and the lead of every shard was sent the commit.
\<close>

theorem agreed_round_commits:
  assumes req: "handle_tx_request req (new_tx_coordinator x n leads) = Some (Inr (), c0)"
    and ne: "rq_operations req \<noteq> []"
    and votes: "distinct (map pr_source_rg ps)" "list_all pr_commit ps"
      "pr_source_rg ` set ps = to_sd_id ` set (rq_operations req)"
    and acks: "distinct (map ak_source_rg as)" "list_all ak_commit as"
      "ak_source_rg ` set as = to_sd_id ` set (rq_operations req)"
  shows "\<exists>c. run tm_step (Tm_log_commit (\<lambda>_. True) TX_CMD_TM_BEGIN # map Tm_prepare ps @
        Tm_log_commit sent TX_CMD_TM_COMMIT # map Tm_ack as @ [Tm_log_commit sent' TX_CMD_TM_END]) c0 = Some c \<and>
      tm_state' c = TM_DONE \<and>
      (\<exists>r. Tm_respond r \<in> set (out' c) \<and> rs_error_code r = EC_OK) \<and>
      (\<forall>sd. sd \<in> to_sd_id ` set (rq_operations req) \<longrightarrow>
        (\<exists>lead d. leads sd = Some lead \<and> Send_TX_TM_COMMIT lead d \<in> set (out' c)))"
proof -
  note st = handle_tx_request_started[OF req] and f = started_fields[OF handle_tx_request_started(1)[OF req]]
  let ?K = "to_sd_id ` set (rq_operations req)"
  obtain c1 where c1: "tm_step (Tm_log_commit (\<lambda>_. True) TX_CMD_TM_BEGIN) c0 = Some c1" "states (\<lambda>_. RM_IDLE) c1"
    "voting c1" "same_round c0 c1"
    using begin_round[OF st(1)] by blast
  have k1: "keys c1 = ?K" using same_round_keys[OF c1(4)] st(2) by (simp add: keys_def)
  have ps: "ps \<noteq> []" using votes(3) ne by auto
  obtain c2 where c2: "states (\<lambda>_. RM_PREPARE_COMMIT) c2" "voting c2" "same_round c1 c2"
    "run tm_step (map Tm_prepare ps) c1 = Some (write_commit_log c2)"
    using votes_run[OF ps votes(1) _ c1(2) _ _ c1(3)] votes(2,3) k1 by (auto simp: list_all_iff)
  define c3 where "c3 = write_commit_log c2"
  define c4 where "c4 = on_committed c3"
  have c4: "rm_tracer' c4 = rm_tracer' c2" "tm_state' c4 = TM_COMMITTED" "same_round c2 c4" "lead_node' c4 = lead_node' c2"
    by (simp_all add: c4_def c3_def on_committed_def write_commit_log_def send_commit_eq tm_emit_def same_round_def members_def)
  have r4: "same_round c0 c4" using same_round_trans[OF same_round_trans[OF c1(4) c2(3)] c4(3)] .
  have k4: "keys c4 = ?K" "distinct (map fst (rm_tracer' c4))"
    using same_round_keys[OF r4] st(2) c2(2) by (simp_all add: keys_def c4 voting_def)
  have as: "as \<noteq> []" using acks(3) ne by auto
  have st4: "states (\<lambda>_. RM_PREPARE_COMMIT) c4" using c2(1) by (simp add: states_def c4)
  obtain c5 where c5: "same_round c4 c5" "tm_state' c5 = TM_COMMITTED"
    "run tm_step (map Tm_ack as) c4 = Some (write_end_log (send_tx_response c5))"
    using acks_run[OF as acks(1) _ st4 _ _ k4(2)] acks(2,3) k4(1) c4(2) by (auto simp: list_all_iff)
  define c6 where "c6 = write_end_log (send_tx_response c5)"
  define c where "c = on_ended c6"
  have "error_code' c5 = EC_OK" "responsed' c5 = False"
    using c5(1) r4 f by (simp_all add: same_round_def)
  then have "Tm_respond (no_response\<lparr>rs_error_code := EC_OK, rs_stats := stats' c5,
      rs_access_part := of_nat (length (rm_tracer' c5))\<rparr>) \<in> set (out' c)"
    by (simp add: c_def c6_def on_ended_def write_end_log_def send_tx_response_def tm_emit_def)
  then have resp: "\<exists>r. Tm_respond r \<in> set (out' c) \<and> rs_error_code r = EC_OK" by force
  have run6: "run tm_step (map Tm_ack as @ [Tm_log_commit sent' TX_CMD_TM_END]) c4 = Some c"
    using c5(3) by (simp add: run_append c6_def c_def tm_step_def on_log_entry_commit_def)
  have "tm_step (Tm_log_commit sent TX_CMD_TM_COMMIT) c3 = Some c4"
    by (simp add: tm_step_def on_log_entry_commit_def c4_def)
  then have run: "run tm_step (Tm_log_commit (\<lambda>_. True) TX_CMD_TM_BEGIN # map Tm_prepare ps @
        Tm_log_commit sent TX_CMD_TM_COMMIT # map Tm_ack as @ [Tm_log_commit sent' TX_CMD_TM_END]) c0 = Some c"
    using c1(1) c2(4) run6 by (simp add: run_append c3_def)
  have m3: "members c3 = members c0"
    using r4 by (simp add: same_round_def c4_def on_committed_def send_commit_eq members_def)
  have "\<exists>lead d. leads sd = Some lead \<and> Send_TX_TM_COMMIT lead d \<in> set (out' c)" if sd: "sd \<in> ?K" for sd
  proof -
    obtain lead where "leads sd = Some lead" "(sd, lead) \<in> set (members c0)"
      using started_members[OF st(1), of sd] sd st(2) by blast
    moreover from this(2) obtain d where "Send_TX_TM_COMMIT lead d \<in> set (out' c4)"
      unfolding c4_def m3[symmetric] using on_committed_sends by blast
    ultimately show ?thesis using tm_run_out[OF run6] by blast
  qed
  moreover have "tm_state' c = TM_DONE" by (simp add: c_def on_ended_def tm_emit_def)
  ultimately show ?thesis using run resp by blast
qed

theorem agreed_round_commits_witness:
  "\<exists>c. run tm_step (Tm_log_commit (\<lambda>_. True) TX_CMD_TM_BEGIN # map Tm_prepare [demo_prepare 2, demo_prepare 1] @
        Tm_log_commit (\<lambda>_. True) TX_CMD_TM_COMMIT # map Tm_ack [demo_ack 1, demo_ack 2] @
        [Tm_log_commit (\<lambda>_. True) TX_CMD_TM_END]) demo_tm = Some c \<and>
      tm_state' c = TM_DONE"
proof -
  have "rq_operations demo_request \<noteq> []"
    "distinct (map pr_source_rg [demo_prepare 2, demo_prepare 1])" "list_all pr_commit [demo_prepare 2, demo_prepare 1]"
    "pr_source_rg ` set [demo_prepare 2, demo_prepare 1] = to_sd_id ` set (rq_operations demo_request)"
    "distinct (map ak_source_rg [demo_ack 1, demo_ack 2])" "list_all ak_commit [demo_ack 1, demo_ack 2]"
    "ak_source_rg ` set [demo_ack 1, demo_ack 2] = to_sd_id ` set (rq_operations demo_request)"
    by code_simp+
  from agreed_round_commits[OF demo_tm_request this] show ?thesis by blast
qed

end
