(* ===== verification/Tx_Context.thy ===== *)
theory Tx_Context
  imports Tx_Proto
begin

text \<open>
  A transaction at one CC block, \<^verbatim>\<open>src/concurrency/tx_context.cpp\<close> and
  \<^verbatim>\<open>include/concurrency/tx_context.h\<close>: a local transaction, or the part of a
  distributed one that runs at the lead of a shard.

  Members \<^verbatim>\<open>x_\<close> are fields \<open>x'\<close>.  Calls of the lock manager, the network, the
  write ahead log, the deadlock detector and \<^verbatim>\<open>fn_tx_state_\<close> are appended to
  \<open>out'\<close>; the closures that \<^verbatim>\<open>invoke_done\<close> posts to the strand are queued in
  \<open>posted'\<close>.  A closure stored in \<^verbatim>\<open>lock_acquire_\<close> or
  \<^verbatim>\<open>ds_read_handler_\<close> is a constructor applied to what it captures.
  \<open>now'\<close> is the steady clock as the running handler reads it, and
  \<open>shared_nothing'\<close> the value of \<^verbatim>\<open>is_shared_nothing()\<close>.  Identifiers of
  operations are issued in increasing order, so the maps keyed by them are lists
  in the order of insertion.  Trace strings are left out, and so is the code of
  the geo-replication build.
\<close>

section \<open>State\<close>

datatype rm_state =
    RM_IDLE | RM_COMMITTING | RM_ABORTING | RM_PREPARE_COMMITTING | RM_PREPARE_ABORTING | RM_ENDED

text \<open>The closure that waits for a lock, and the one that waits for a tuple from the store.\<close>

datatype lock_cont =
    Read_locked table_id_t shard_id_t tuple_id_t oid_t
  | Update_locked table_id_t shard_id_t tuple_id_t oid_t tx_operation
  | Insert_locked table_id_t shard_id_t tuple_id_t oid_t tx_operation
  | Remove_locked table_id_t shard_id_t tuple_id_t

datatype dsb_cont =
    Read_dsb
  | Update_dsb tx_operation
  | Insert_dsb tx_operation

record lock_item =
  li_xid :: xid_t
  li_oid :: oid_t
  li_type :: lock_mode
  li_table_id :: table_id_t
  li_shard_id :: shard_id_t
  li_key :: tuple_id_t

datatype rm_effect =
    Lock_row lock_item
  | Unlock_row lock_item
  | Send_C2D_READ node_id_t ccb_read_request
  | Rm_append "tx_log list"
  | Send_TX_RM_PREPARE node_id_t tx_rm_prepare
  | Send_TX_RM_ACK node_id_t tx_rm_ack
  | Send_TX_VICTIM node_id_t tx_victim
  | Rm_respond tx_response
  | Tx_finish xid_t
  | Fn_tx_state xid_t rm_state
  | Fn_removed EC tuple_pb

record tx_context =
  cno' :: u64
  node_id' :: node_id_t
  ctx_opt_dsb_node_id' :: "node_id_t option"
  shard_id_2_node_id' :: "shard_id_t \<Rightarrow> node_id_t option"
  xid' :: xid_t
  distributed' :: bool
  coord_node_id' :: node_id_t
  oid' :: oid_t
  max_ops' :: u32
  ops' :: "tx_operation list"
  response' :: tx_response
  cli_conn' :: bool
  error_code' :: EC
  state' :: rm_state
  ds_read_handler' :: "(oid_t \<times> dsb_cont) list"
  lock_acquire' :: "lock_cont option"
  locks' :: "(oid_t \<times> lock_item) list"
  log_entry' :: "tx_log list"
  start' :: u64
  has_respond' :: bool
  prepare_commit_log_synced' :: bool
  commit_log_synced' :: bool
  dl' :: bool
  victim' :: bool
  read_time_tracer' :: time_tracer
  append_time_tracer' :: time_tracer
  lock_wait_time_tracer' :: time_tracer
  part_time_tracer' :: time_tracer
  log_rep_delay' :: u64
  latency_read_dsb' :: u64
  num_read_violate' :: u32
  num_write_violate' :: u32
  num_lock' :: u32
  read_only' :: bool
  end' :: bool
  shared_nothing' :: bool
  now' :: int
  posted' :: "EC list"
  out' :: "rm_effect list"

definition new_tx_context ::
  "int \<Rightarrow> u64 \<Rightarrow> bool \<Rightarrow> xid_t \<Rightarrow> node_id_t \<Rightarrow> node_id_t option \<Rightarrow> (shard_id_t \<Rightarrow> node_id_t option) \<Rightarrow> u64 \<Rightarrow>
     bool \<Rightarrow> bool \<Rightarrow> bool \<Rightarrow> tx_context option" where
  "new_tx_context now ms sn xid node_id dsb_node_id shard2node cno distributed conn dl = do {
     boost_assert (node_id \<noteq> 0);
     boost_assert (dsb_node_id \<noteq> Some 0);
     Some \<lparr>cno' = cno, node_id' = node_id, ctx_opt_dsb_node_id' = dsb_node_id,
       shard_id_2_node_id' = shard2node, xid' = xid, distributed' = distributed, coord_node_id' = 0,
       oid' = 1, max_ops' = 0, ops' = [], response' = no_response, cli_conn' = conn, error_code' = EC_OK,
       state' = RM_IDLE, ds_read_handler' = [], lock_acquire' = None, locks' = [], log_entry' = [],
       start' = ms, has_respond' = False, prepare_commit_log_synced' = False, commit_log_synced' = False,
       dl' = dl, victim' = False, read_time_tracer' = new_time_tracer, append_time_tracer' = new_time_tracer,
       lock_wait_time_tracer' = new_time_tracer, part_time_tracer' = tt_begin now new_time_tracer,
       log_rep_delay' = 0, latency_read_dsb' = 0, num_read_violate' = 0, num_write_violate' = 0,
       num_lock' = 0, read_only' = False, end' = False, shared_nothing' = sn, now' = now, posted' = [],
       out' = []\<rparr> }"

definition rm_emit :: "rm_effect \<Rightarrow> tx_context \<Rightarrow> tx_context" where
  "rm_emit e s = s\<lparr>out' := out' s @ [e]\<rparr>"

definition invoke_done :: "EC \<Rightarrow> tx_context \<Rightarrow> tx_context" where
  "invoke_done ec s = s\<lparr>posted' := posted' s @ [ec]\<rparr>"

section \<open>The log of the transaction\<close>

definition no_log :: tx_log where
  "no_log = \<lparr>tl_log_type = TX_CMD_RM_READ, tl_xid = 0, tl_operations = []\<rparr>"

definition on_last_log :: "(tx_log \<Rightarrow> tx_log) \<Rightarrow> tx_context \<Rightarrow> tx_context" where
  "on_last_log f s =
     (let ls = (if log_entry' s = [] then [no_log] else log_entry' s)
      in s\<lparr>log_entry' := butlast ls @ [f (last ls)]\<rparr>)"

definition append_operation :: "tx_operation \<Rightarrow> tx_context \<Rightarrow> tx_context option" where
  "append_operation op s = do {
     boost_assert (to_op_type op = TX_OP_INSERT \<or> to_op_type op = TX_OP_UPDATE \<longrightarrow>
       to_tuple_row op \<noteq> None \<and> \<not> is_tuple_nil (tr_tuple (op_row op)));
     Some (on_last_log (\<lambda>l. l\<lparr>tl_operations := tl_operations l @
        [op\<lparr>to_xid := xid' s, to_sd_id := TO_RG_ID (node_id' s)\<rparr>]\<rparr>) s) }"

definition set_tx_cmd_type :: "tx_cmd_type \<Rightarrow> tx_context \<Rightarrow> tx_context" where
  "set_tx_cmd_type t s = on_last_log (\<lambda>l. l\<lparr>tl_xid := xid' s, tl_log_type := t\<rparr>) s"

definition async_force_log :: "tx_context \<Rightarrow> tx_context" where
  "async_force_log s =
     (rm_emit (Rm_append (log_entry' s)) s)
       \<lparr>log_entry' := [], append_time_tracer' := tt_begin (now' s) (append_time_tracer' s)\<rparr>"

section \<open>Messages\<close>

definition send_tx_response :: "tx_context \<Rightarrow> tx_context option" where
  "send_tx_response s =
     (if has_respond' s then Some s
      else do {
        let s = s\<lparr>has_respond' := True\<rparr>;
        part \<leftarrow> tt_end (now' s) (part_time_tracer' s);
        let s = s\<lparr>part_time_tracer' := part\<rparr>;
        boost_assert (cli_conn' s);
        let st = \<lparr>latency_append = tt_microseconds (append_time_tracer' s),
                  latency_replicate = log_rep_delay' s,
                  latency_read = tt_microseconds (read_time_tracer' s),
                  latency_read_dsb = latency_read_dsb' s,
                  latency_lock_wait = tt_microseconds (lock_wait_time_tracer' s),
                  latency_part = tt_microseconds (part_time_tracer' s),
                  num_read_violate = num_read_violate' s, num_write_violate = num_write_violate' s,
                  num_lock = num_lock' s\<rparr>;
        boost_assert (latency_read_dsb st \<le> latency_read st);
        Some (rm_emit (Rm_respond (no_response\<lparr>rs_error_code := error_code' s, rs_stats := st,
                rs_access_part := 1\<rparr>)) s) })"

definition send_prepare_message :: "bool \<Rightarrow> tx_context \<Rightarrow> tx_context option" where
  "send_prepare_message commit s = do {
     part \<leftarrow> tt_end (now' s) (part_time_tracer' s);
     let s = s\<lparr>part_time_tracer' := part\<rparr>;
     let st = (if commit then
                 \<lparr>latency_append = tt_microseconds (append_time_tracer' s),
                  latency_replicate = log_rep_delay' s,
                  latency_read = tt_microseconds (read_time_tracer' s),
                  latency_read_dsb = 0,
                  latency_lock_wait = tt_microseconds (lock_wait_time_tracer' s),
                  latency_part = tt_microseconds (part_time_tracer' s),
                  num_read_violate = num_read_violate' s, num_write_violate = num_write_violate' s,
                  num_lock = num_lock' s\<rparr>
               else no_stats);
     Some (rm_emit (Send_TX_RM_PREPARE (coord_node_id' s)
       \<lparr>pr_xid = xid' s, pr_source_node = node_id' s, pr_dest_node = coord_node_id' s,
        pr_source_rg = TO_RG_ID (node_id' s), pr_dest_rg = TO_RG_ID (coord_node_id' s),
        pr_commit = commit, pr_stats = st\<rparr>) s) }"

definition send_ack_message :: "bool \<Rightarrow> tx_context \<Rightarrow> tx_context" where
  "send_ack_message commit s =
     rm_emit (Send_TX_RM_ACK (coord_node_id' s)
       \<lparr>ak_xid = xid' s, ak_source_node = node_id' s, ak_dest_node = coord_node_id' s,
        ak_source_rg = TO_RG_ID (node_id' s), ak_dest_rg = TO_RG_ID (coord_node_id' s),
        ak_commit = commit\<rparr>) s"

section \<open>Ends of a transaction\<close>

definition tx_ended :: "tx_context \<Rightarrow> tx_context" where
  "tx_ended s = rm_emit (Fn_tx_state (xid' s) RM_ENDED) (s\<lparr>state' := RM_ENDED\<rparr>)"

definition release_lock :: "tx_context \<Rightarrow> tx_context" where
  "release_lock s =
     (let s = s\<lparr>end' := True\<rparr>;
          s = (if read_only' s then s else fold (\<lambda>(oid, l) s. rm_emit (Unlock_row l) s) (locks' s) s);
          s = (if dl' s then rm_emit (Tx_finish (xid' s)) s else s)
      in (tx_ended s)\<lparr>locks' := []\<rparr>)"

definition tx_committed :: "tx_context \<Rightarrow> tx_context option" where
  "tx_committed s =
     (if \<not> distributed' s then map_option release_lock (send_tx_response s)
      else if shared_nothing' s then Some (release_lock (send_ack_message True s))
      else Some s)"

definition tx_aborted :: "tx_context \<Rightarrow> tx_context option" where
  "tx_aborted s =
     (if \<not> distributed' s then
        map_option release_lock
          (send_tx_response (if error_code' s = EC_OK then s\<lparr>error_code' := EC_TX_ABORT\<rparr> else s))
      else if shared_nothing' s then Some (release_lock (send_ack_message False s))
      else Some s)"

definition on_committed_log_commit :: "tx_context \<Rightarrow> tx_context option" where
  "on_committed_log_commit s = tx_committed (s\<lparr>commit_log_synced' := True\<rparr>)"

definition on_aborted_log_commit :: "tx_context \<Rightarrow> tx_context option" where
  "on_aborted_log_commit s = tx_aborted s"

definition on_prepare_committed_log_commit :: "tx_context \<Rightarrow> tx_context option" where
  "on_prepare_committed_log_commit s = send_prepare_message True (s\<lparr>prepare_commit_log_synced' := True\<rparr>)"

definition on_prepare_aborted_log_commit :: "tx_context \<Rightarrow> tx_context option" where
  "on_prepare_aborted_log_commit s = send_prepare_message False s"

definition on_log_entry_commit :: "tx_cmd_type \<Rightarrow> int \<Rightarrow> tx_context \<Rightarrow> tx_context option" where
  "on_log_entry_commit t end_ts s =
     (let s = s\<lparr>log_entry' := []\<rparr>
      in case t of
           TX_CMD_RM_COMMIT \<Rightarrow> do {
             tt \<leftarrow> tt_end end_ts (append_time_tracer' s);
             on_committed_log_commit (s\<lparr>append_time_tracer' := tt\<rparr>) }
         | TX_CMD_RM_ABORT \<Rightarrow> on_aborted_log_commit s
         | TX_CMD_RM_PREPARE_ABORT \<Rightarrow> on_prepare_aborted_log_commit s
         | TX_CMD_RM_PREPARE_COMMIT \<Rightarrow> do {
             tt \<leftarrow> tt_end end_ts (append_time_tracer' s);
             on_prepare_committed_log_commit (s\<lparr>append_time_tracer' := tt\<rparr>) }
         | _ \<Rightarrow> Some s)"

section \<open>Decisions\<close>

definition abort_tx_1p :: "tx_context \<Rightarrow> tx_context option" where
  "abort_tx_1p s =
     (if state' s = RM_IDLE
      then Some (async_force_log (set_tx_cmd_type TX_CMD_RM_ABORT (s\<lparr>state' := RM_ABORTING\<rparr>)))
      else if state' s = RM_ABORTING then send_tx_response s
      else None)"

definition handle_finish_tx_phase1_commit :: "tx_context \<Rightarrow> tx_context option" where
  "handle_finish_tx_phase1_commit s =
     (if state' s = RM_IDLE \<or> state' s = RM_PREPARE_COMMITTING then
        (let s = set_tx_cmd_type TX_CMD_RM_COMMIT (s\<lparr>state' := RM_COMMITTING\<rparr>)
         in if read_only' s then on_committed_log_commit s else Some (async_force_log s))
      else if state' s = RM_COMMITTING then send_tx_response s
      else None)"

definition prepare_commit_tx :: "tx_context \<Rightarrow> tx_context" where
  "prepare_commit_tx s =
     (if state' s = RM_IDLE
      then set_tx_cmd_type TX_CMD_RM_PREPARE_COMMIT (s\<lparr>state' := RM_PREPARE_COMMITTING\<rparr>) else s)"

definition prepare_abort_tx :: "tx_context \<Rightarrow> tx_context" where
  "prepare_abort_tx s = set_tx_cmd_type TX_CMD_RM_PREPARE_ABORT (s\<lparr>state' := RM_PREPARE_ABORTING\<rparr>)"

definition handle_finish_tx_phase1_prepare_commit :: "tx_context \<Rightarrow> tx_context" where
  "handle_finish_tx_phase1_prepare_commit s = async_force_log (prepare_commit_tx s)"

definition handle_finish_tx_phase1_prepare_abort :: "tx_context \<Rightarrow> tx_context" where
  "handle_finish_tx_phase1_prepare_abort s = async_force_log (prepare_abort_tx s)"

definition abort_tx_2p :: "tx_context \<Rightarrow> tx_context option" where
  "abort_tx_2p s =
     (if state' s = RM_IDLE \<or> state' s = RM_PREPARE_ABORTING \<or> state' s = RM_PREPARE_COMMITTING
      then Some (async_force_log (set_tx_cmd_type TX_CMD_RM_ABORT (s\<lparr>state' := RM_ABORTING\<rparr>)))
      else if state' s = RM_ABORTING \<or> state' s = RM_ENDED then Some (send_ack_message False s)
      else None)"

definition handle_finish_tx_phase2_commit :: "tx_context \<Rightarrow> tx_context option" where
  "handle_finish_tx_phase2_commit s =
     (if state' s = RM_PREPARE_COMMITTING
      then Some (async_force_log (set_tx_cmd_type TX_CMD_RM_COMMIT (s\<lparr>state' := RM_COMMITTING\<rparr>)))
      else if state' s = RM_COMMITTING then Some (send_ack_message True s)
      else None)"

definition handle_tx_tm_commit :: "tx_tm_decision \<Rightarrow> tx_context \<Rightarrow> tx_context option" where
  "handle_tx_tm_commit msg s = do { boost_assert (td_xid msg = xid' s); handle_finish_tx_phase2_commit s }"

definition handle_tx_tm_abort :: "tx_tm_decision \<Rightarrow> tx_context \<Rightarrow> tx_context option" where
  "handle_tx_tm_abort msg s = do { boost_assert (td_xid msg = xid' s); abort_tx_2p s }"

text \<open>\<^verbatim>\<open>tx_context::abort\<close>\<close>

definition rm_abort :: "EC \<Rightarrow> tx_context \<Rightarrow> tx_context option" where
  "rm_abort ec s =
     (let s = (if ec = EC_VICTIM \<and> \<not> victim' s \<and> \<not> distributed' s then s\<lparr>victim' := True\<rparr> else s)
      in if \<not> distributed' s then
           (if state' s = RM_IDLE then abort_tx_1p (s\<lparr>error_code' := ec\<rparr>) else Some s)
         else Some (rm_emit (Send_TX_VICTIM (coord_node_id' s)
            \<lparr>tv_source = node_id' s, tv_dest = coord_node_id' s, tv_xid = xid' s\<rparr>) s))"

definition rm_timeout_clean_up :: "u64 \<Rightarrow> tx_context \<Rightarrow> tx_context option" where
  "rm_timeout_clean_up ms s =
     (if ms + 1000 < start' s then Some s
      else if state' s = RM_PREPARE_COMMITTING \<or> state' s = RM_COMMITTING then Some s
      else if \<not> distributed' s then Option.bind (abort_tx_1p s) send_tx_response
      else if shared_nothing' s then abort_tx_2p s
      else Some s)"

section \<open>Operations\<close>

text \<open>\<^verbatim>\<open>read_done\<close>, \<^verbatim>\<open>update_done\<close> and \<^verbatim>\<open>insert_done\<close> of \<^verbatim>\<open>handle_operation\<close>.\<close>

definition read_done :: "EC \<Rightarrow> tuple_pb \<Rightarrow> tx_context \<Rightarrow> tx_context option" where
  "read_done ec tuple s = do {
     boost_assert (\<not> (ec = EC_OK \<and> is_tuple_nil tuple));
     let r = response' s;
     let op = no_operation\<lparr>to_tuple_row := Some (no_row\<lparr>tr_tuple := tuple\<rparr>)\<rparr>;
     Some (invoke_done ec (s\<lparr>response' := r\<lparr>rs_operations := rs_operations r @ [op]\<rparr>\<rparr>)) }"

definition write_done :: "tx_operation \<Rightarrow> EC \<Rightarrow> tx_context \<Rightarrow> tx_context option" where
  "write_done op ec s = map_option (invoke_done ec) (append_operation op s)"

definition read_data_from_dsb ::
  "table_id_t \<Rightarrow> shard_id_t \<Rightarrow> tuple_id_t \<Rightarrow> oid_t \<Rightarrow> dsb_cont \<Rightarrow> tx_context \<Rightarrow> tx_context option" where
  "read_data_from_dsb table_id shard_id key oid fn s = do {
     dest \<leftarrow> node_id_of_shard shard_id (ctx_opt_dsb_node_id' s) (shard_id_2_node_id' s);
     let s = s\<lparr>ds_read_handler' := AList.update oid fn (ds_read_handler' s)\<rparr>;
     boost_assert (dest \<noteq> 0);
     let s = s\<lparr>read_time_tracer' := tt_begin (now' s) (read_time_tracer' s)\<rparr>;
     Some (rm_emit (Send_C2D_READ dest
       \<lparr>rd_source = node_id' s, rd_dest = dest, rd_cno = cno' s, rd_xid = xid' s, rd_oid = oid,
        rd_table_id = ucast table_id, rd_shard_id = ucast shard_id, rd_tuple_id = key,
        rd_debug_send_ts = 0\<rparr>) s) }"

text \<open>What the closure in \<^verbatim>\<open>lock_acquire_\<close> does when the lock manager calls it.\<close>

definition run_lock_cont :: "access_mgr \<Rightarrow> lock_cont \<Rightarrow> EC \<Rightarrow> tx_context \<Rightarrow> tx_context option" where
  "run_lock_cont a k ec s = do {
     tt \<leftarrow> tt_end (now' s) (lock_wait_time_tracer' s);
     let s = s\<lparr>lock_wait_time_tracer' := tt\<rparr>;
     (case k of
        Read_locked table_id shard_id key oid \<Rightarrow>
          if ec = EC_OK then do {
            r \<leftarrow> access_get table_id shard_id key a;
            (case r of
               Some tuple \<Rightarrow> do { boost_assert (\<not> is_tuple_nil tuple); read_done ec tuple s }
             | None \<Rightarrow> read_data_from_dsb table_id shard_id key oid Read_dsb s) }
          else read_done ec [] s
      | Update_locked table_id shard_id key oid op \<Rightarrow>
          if ec = EC_OK then do {
            r \<leftarrow> access_get table_id shard_id key a;
            (case r of
               Some tuple \<Rightarrow> write_done op EC_OK s
             | None \<Rightarrow> read_data_from_dsb table_id shard_id key oid (Update_dsb op) s) }
          else write_done op ec s
      | Insert_locked table_id shard_id key oid op \<Rightarrow>
          if ec = EC_OK then do {
            r \<leftarrow> access_get table_id shard_id key a;
            (case r of
               Some tuple \<Rightarrow> write_done op EC_DUPLICATION_ERROR s
             | None \<Rightarrow> read_data_from_dsb table_id shard_id key oid (Insert_dsb op) s) }
          else write_done op ec s
      | Remove_locked table_id shard_id key \<Rightarrow> do {
          r \<leftarrow> access_get table_id shard_id key a;
          Some (case r of
             Some tuple \<Rightarrow> rm_emit (Fn_removed ec tuple) s
           | None \<Rightarrow> rm_emit (Fn_removed EC_NOT_FOUND_ERROR []) s) }) }"

text \<open>The handler registered by \<^verbatim>\<open>read_data_from_dsb\<close>.\<close>

definition run_dsb_cont :: "dsb_cont \<Rightarrow> EC \<Rightarrow> tuple_pb \<Rightarrow> tx_context \<Rightarrow> tx_context option" where
  "run_dsb_cont k ec tuple s =
     (case k of
        Read_dsb \<Rightarrow> do { boost_assert (\<not> (ec = EC_OK \<and> is_tuple_nil tuple)); read_done ec tuple s }
      | Update_dsb op \<Rightarrow> write_done op ec s
      | Insert_dsb op \<Rightarrow>
          write_done op (if ec = EC_OK then EC_DUPLICATION_ERROR
                         else if ec = EC_NOT_FOUND_ERROR then EC_OK else ec) s)"

definition add_lock :: "lock_mode \<Rightarrow> table_id_t \<Rightarrow> shard_id_t \<Rightarrow> tuple_id_t \<Rightarrow> tx_context \<Rightarrow> lock_item \<times> tx_context" where
  "add_lock lt table_id shard_id key s =
     (let oid = oid' s;
          l = \<lparr>li_xid = xid' s, li_oid = oid, li_type = lt, li_table_id = table_id,
               li_shard_id = shard_id, li_key = key\<rparr>;
          s = s\<lparr>oid' := oid + 1\<rparr>
      in (l, if map_of (locks' s) oid = None
             then s\<lparr>locks' := locks' s @ [(oid, l)], num_lock' := num_lock' s + 1\<rparr> else s))"

definition wait_lock :: "lock_item \<Rightarrow> lock_cont \<Rightarrow> tx_context \<Rightarrow> tx_context" where
  "wait_lock l k s =
     rm_emit (Lock_row l) (s\<lparr>lock_acquire' := Some k,
       lock_wait_time_tracer' := tt_begin (now' s) (lock_wait_time_tracer' s)\<rparr>)"

definition async_read ::
  "access_mgr \<Rightarrow> table_id_t \<Rightarrow> shard_id_t \<Rightarrow> tuple_id_t \<Rightarrow> bool \<Rightarrow> tx_context \<Rightarrow> tx_context option" where
  "async_read a table_id shard_id key read_for_write s = do {
     boost_assert (lock_acquire' s = None);
     let (l, s) = add_lock (if read_for_write then LOCK_WRITE_ROW else LOCK_READ_ROW) table_id shard_id key s;
     let k = Read_locked table_id shard_id key (li_oid l);
     (if read_only' s then
        map_option (\<lambda>s. s\<lparr>lock_acquire' := None\<rparr>)
          (run_lock_cont a k EC_OK (s\<lparr>lock_acquire' := Some k,
             lock_wait_time_tracer' := tt_begin (now' s) (lock_wait_time_tracer' s)\<rparr>))
      else Some (wait_lock l k s)) }"

definition async_update ::
  "table_id_t \<Rightarrow> shard_id_t \<Rightarrow> tuple_id_t \<Rightarrow> tx_operation \<Rightarrow> tx_context \<Rightarrow> tx_context option" where
  "async_update table_id shard_id key op s = do {
     boost_assert (lock_acquire' s = None);
     let (l, s) = add_lock LOCK_WRITE_ROW table_id shard_id key s;
     Some (wait_lock l (Update_locked table_id shard_id key (li_oid l) op) s) }"

definition async_insert ::
  "table_id_t \<Rightarrow> shard_id_t \<Rightarrow> tuple_id_t \<Rightarrow> tx_operation \<Rightarrow> tx_context \<Rightarrow> tx_context option" where
  "async_insert table_id shard_id key op s = do {
     boost_assert (lock_acquire' s = None);
     let (l, s) = add_lock LOCK_WRITE_ROW table_id shard_id key s;
     Some (wait_lock l (Insert_locked table_id shard_id key (li_oid l) op) s) }"

definition async_remove :: "table_id_t \<Rightarrow> shard_id_t \<Rightarrow> tuple_id_t \<Rightarrow> tx_context \<Rightarrow> tx_context option" where
  "async_remove table_id shard_id key s = do {
     let (l, s) = add_lock LOCK_WRITE_ROW table_id shard_id key s;
     boost_assert (lock_acquire' s = None);
     Some (wait_lock l (Remove_locked table_id shard_id key) s) }"

text \<open>The operation at the front gives its tuple away; the closure holds a copy made before.\<close>

definition take_tuple :: "tx_context \<Rightarrow> tx_context" where
  "take_tuple s =
     (case ops' s of
        [] \<Rightarrow> s
      | op # ops \<Rightarrow> s\<lparr>ops' := op\<lparr>to_tuple_row := Some ((op_row op)\<lparr>tr_tuple := []\<rparr>)\<rparr> # ops\<rparr>)"

definition handle_operation :: "access_mgr \<Rightarrow> tx_operation \<Rightarrow> tx_context \<Rightarrow> tx_context option" where
  "handle_operation a op s =
     (let table_id = op_table_id op; shard_id = op_shard_id op; key = op_key op
      in case to_op_type op of
           TX_OP_READ \<Rightarrow> async_read a table_id shard_id key False s
         | TX_OP_READ_FOR_WRITE \<Rightarrow> async_read a table_id shard_id key True s
         | TX_OP_UPDATE \<Rightarrow> async_update table_id shard_id key op (take_tuple s)
         | TX_OP_INSERT \<Rightarrow> async_insert table_id shard_id key op (take_tuple s)
         | _ \<Rightarrow> None)"

definition handle_next_operation :: "access_mgr \<Rightarrow> tx_context \<Rightarrow> tx_context option" where
  "handle_next_operation a s =
     (if state' s \<noteq> RM_IDLE then Some s
      else if error_code' s = EC_OK then
        (case ops' s of
           op # _ \<Rightarrow> handle_operation a op s
         | [] \<Rightarrow> do {
             boost_assert (oid' s = max_ops' s + 1);
             (if distributed' s then
                Some (if shared_nothing' s then handle_finish_tx_phase1_prepare_commit s else s)
              else handle_finish_tx_phase1_commit s) })
      else if distributed' s then
        Some (if shared_nothing' s then handle_finish_tx_phase1_prepare_abort s else s)
      else abort_tx_1p s)"

definition op_done :: "access_mgr \<Rightarrow> EC \<Rightarrow> tx_context \<Rightarrow> tx_context option" where
  "op_done a ec s = do {
     boost_assert (ops' s \<noteq> []);
     handle_next_operation a (s\<lparr>ops' := tl (ops' s),
       error_code' := (if read_only' s \<and> ec = EC_NOT_FOUND_ERROR then EC_OK else ec)\<rparr>) }"

definition process_tx_request :: "access_mgr \<Rightarrow> tx_request \<Rightarrow> tx_context \<Rightarrow> tx_context option" where
  "process_tx_request a req s =
     (let s = s\<lparr>read_only' := rq_read_only req\<rparr>;
          s = (if rq_distributed req then s\<lparr>coord_node_id' := rq_source req\<rparr> else s);
          s = s\<lparr>max_ops' := of_nat (length (rq_operations req))\<rparr>
      in if rq_oneshot req then handle_next_operation a (s\<lparr>ops' := ops' s @ rq_operations req\<rparr>)
         else Some s)"

text \<open>The closure that \<^verbatim>\<open>notify_lock_acquire\<close> posts to the strand.\<close>

definition ctx_lock_acquired :: "access_mgr \<Rightarrow> EC \<Rightarrow> tx_context \<Rightarrow> tx_context option" where
  "ctx_lock_acquired a ec s =
     (case lock_acquire' s of
        Some k \<Rightarrow> run_lock_cont a k ec (s\<lparr>lock_acquire' := None\<rparr>)
      | None \<Rightarrow> None)"

definition read_data_from_dsb_response ::
  "dsb_read_response \<Rightarrow> int \<Rightarrow> access_mgr \<times> tx_context \<Rightarrow> (access_mgr \<times> tx_context) option" where
  "read_data_from_dsb_response r ts w = do {
     let (a, s) = w;
     let row = (case dr_tuple_row r of Some row \<Rightarrow> row | None \<Rightarrow> no_row);
     let ec = dr_error_code r;
     let has_tuple = (dr_tuple_row r \<noteq> None \<and> tr_tuple row \<noteq> []);
     let tuple = (if has_tuple then tr_tuple row else []);
     let s = s\<lparr>latency_read_dsb' := latency_read_dsb' s + dr_latency_read_dsb r\<rparr>;
     tt \<leftarrow> tt_end ts (read_time_tracer' s);
     let s = s\<lparr>read_time_tracer' := tt\<rparr>;
     boost_assert (dr_oid r \<noteq> 0);
     fn \<leftarrow> map_of (ds_read_handler' s) (dr_oid r);
     s \<leftarrow> run_dsb_cont fn ec tuple s;
     let s = s\<lparr>ds_read_handler' := AList.delete (dr_oid r) (ds_read_handler' s)\<rparr>;
     a \<leftarrow> (if ec = EC_OK \<and> has_tuple
          then access_put (ucast (tr_table_id row)) (ucast (tr_shard_id row)) (tr_tuple_id row) tuple a
          else Some a);
     Some (a, s) }"

definition log_rep_delay :: "u64 \<Rightarrow> tx_context \<Rightarrow> tx_context" where
  "log_rep_delay us s = s\<lparr>log_rep_delay' := log_rep_delay' s + us\<rparr>"

section \<open>The strand of a transaction\<close>

datatype ctx_event =
    Ctx_request tx_request
  | Ctx_locked EC
  | Ctx_op_done
  | Ctx_dsb dsb_read_response int
  | Ctx_log tx_cmd_type int u64
  | Ctx_tm_commit tx_tm_decision
  | Ctx_tm_abort tx_tm_decision
  | Ctx_tm_end
  | Ctx_abort EC
  | Ctx_timeout u64

definition ctx_handle :: "ctx_event \<Rightarrow> access_mgr \<Rightarrow> tx_context \<Rightarrow> tx_context option" where
  "ctx_handle e a s =
     (case e of
        Ctx_request req \<Rightarrow> process_tx_request a req s
      | Ctx_locked ec \<Rightarrow> ctx_lock_acquired a ec s
      | Ctx_op_done \<Rightarrow>
          (case posted' s of [] \<Rightarrow> Some s | ec # ecs \<Rightarrow> op_done a ec (s\<lparr>posted' := ecs\<rparr>))
      | Ctx_dsb r ts \<Rightarrow> map_option snd (read_data_from_dsb_response r ts (a, s))
      | Ctx_log t ts latency \<Rightarrow> on_log_entry_commit t ts (log_rep_delay latency s)
      | Ctx_tm_commit m \<Rightarrow> handle_tx_tm_commit m s
      | Ctx_tm_abort m \<Rightarrow> handle_tx_tm_abort m s
      | Ctx_tm_end \<Rightarrow> Some (tx_ended s)
      | Ctx_abort ec \<Rightarrow> rm_abort ec s
      | Ctx_timeout ms \<Rightarrow> rm_timeout_clean_up ms s)"

text \<open>One turn of the strand at the time \<^term>\<open>now\<close>, with the cache of the block.\<close>

definition ctx_step :: "int \<times> ctx_event \<Rightarrow> access_mgr \<times> tx_context \<Rightarrow> (access_mgr \<times> tx_context) option" where
  "ctx_step ne w =
     (let (now, e) = ne; (a, s) = w; s = s\<lparr>now' := now\<rparr>
      in case e of
           Ctx_dsb r ts \<Rightarrow> read_data_from_dsb_response r ts (a, s)
         | _ \<Rightarrow> map_option (Pair a) (ctx_handle e a s))"

end
