(* ===== verification/Tx_Context_Inv.thy ===== *)
theory Tx_Context_Inv
  imports Tx_Context
begin

text \<open>
  Invariants of a transaction at one block (\<^verbatim>\<open>src/concurrency/tx_context.cpp\<close>): what the
  handlers of operations leave alone, the part of the state the commit
  protocol rests on, and strict two-phase locking.
\<close>

section \<open>Frames\<close>

text \<open>What no handler of an operation touches.\<close>

definition rm_core :: "tx_context \<Rightarrow> bool \<times> bool \<times> node_id_t \<times> xid_t \<times> rm_state \<times> bool \<times> bool" where
  "rm_core s = (distributed' s, shared_nothing' s, node_id' s, xid' s, state' s, read_only' s, end' s)"

text \<open>A log under construction is still untyped: it holds only operations.\<close>

definition log_ok :: "tx_context \<Rightarrow> bool" where
  "log_ok s \<longleftrightarrow> (case log_entry' s of [] \<Rightarrow> True | [l] \<Rightarrow> tl_log_type l = TX_CMD_RM_READ | _ \<Rightarrow> False)"

text \<open>Effects that neither lock, log nor vote.\<close>

definition plain_effect :: "rm_effect \<Rightarrow> bool" where
  "plain_effect e \<longleftrightarrow> (case e of Lock_row l \<Rightarrow> False | Unlock_row l \<Rightarrow> False | Rm_append ls \<Rightarrow> False
     | Send_TX_RM_PREPARE n m \<Rightarrow> False | _ \<Rightarrow> True)"

text \<open>Handlers that ask for no lock, and those that ask for one.\<close>

definition still :: "tx_context \<Rightarrow> tx_context \<Rightarrow> bool" where
  "still s s' \<longleftrightarrow> rm_core s' = rm_core s \<and> (log_ok s \<longrightarrow> log_ok s') \<and> locks' s' = locks' s \<and> oid' s' = oid' s \<and>
     (\<exists>es. out' s' = out' s @ es \<and> list_all plain_effect es)"

definition locking :: "tx_context \<Rightarrow> tx_context \<Rightarrow> bool" where
  "locking s s' \<longleftrightarrow> rm_core s' = rm_core s \<and> (log_ok s \<longrightarrow> log_ok s') \<and> oid' s' = oid' s + 1 \<and>
     (\<exists>l es. li_oid l = oid' s \<and>
       locks' s' = (if map_of (locks' s) (oid' s) = None then locks' s @ [(oid' s, l)] else locks' s) \<and>
       out' s' = out' s @ es \<and> list_all (\<lambda>e. e = Lock_row l \<or> plain_effect e) es)"

lemma lockingI:
  assumes "rm_core s' = rm_core s" "log_ok s \<longrightarrow> log_ok s'" "oid' s' = oid' s + 1" "li_oid l = oid' s"
    "locks' s' = (if map_of (locks' s) (oid' s) = None then locks' s @ [(oid' s, l)] else locks' s)"
    "out' s' = out' s @ es" "list_all (\<lambda>e. e = Lock_row l \<or> plain_effect e) es"
  shows "locking s s'"
  unfolding locking_def using assms by blast

lemma lockingE:
  assumes "locking s s'"
  obtains l es where "rm_core s' = rm_core s" "log_ok s \<longrightarrow> log_ok s'" "oid' s' = oid' s + 1" "li_oid l = oid' s"
    "locks' s' = (if map_of (locks' s) (oid' s) = None then locks' s @ [(oid' s, l)] else locks' s)"
    "out' s' = out' s @ es" "list_all (\<lambda>e. e = Lock_row l \<or> plain_effect e) es"
  using assms unfolding locking_def by blast

lemma stillE:
  assumes "still s s'"
  obtains es where "rm_core s' = rm_core s" "log_ok s \<longrightarrow> log_ok s'" "locks' s' = locks' s" "oid' s' = oid' s"
    "out' s' = out' s @ es" "list_all plain_effect es"
  using assms unfolding still_def by blast

lemma still_refl: "still s s"
  by (simp add: still_def)

lemma still_trans: "still a b \<Longrightarrow> still b c \<Longrightarrow> still a c"
  unfolding still_def by (metis append.assoc list_all_append)

lemma still_locking: "still a b \<Longrightarrow> locking b c \<Longrightarrow> locking a c"
proof -
  assume ab: "still a b" and bc: "locking b c"
  obtain es where x: "rm_core b = rm_core a" "log_ok a \<longrightarrow> log_ok b" "locks' b = locks' a" "oid' b = oid' a"
    "out' b = out' a @ es" "list_all plain_effect es" using ab by (rule stillE)
  obtain l fs where y: "rm_core c = rm_core b" "log_ok b \<longrightarrow> log_ok c" "oid' c = oid' b + 1" "li_oid l = oid' b"
    "locks' c = (if map_of (locks' b) (oid' b) = None then locks' b @ [(oid' b, l)] else locks' b)"
    "out' c = out' b @ fs" "list_all (\<lambda>e. e = Lock_row l \<or> plain_effect e) fs" using bc by (rule lockingE)
  show ?thesis
    by (rule lockingI[of _ _ l "es @ fs"]) (use x y in \<open>auto simp: list_all_iff\<close>)
qed

lemma locking_still: "locking a b \<Longrightarrow> still b c \<Longrightarrow> locking a c"
proof -
  assume ab: "locking a b" and bc: "still b c"
  obtain es where x: "rm_core c = rm_core b" "log_ok b \<longrightarrow> log_ok c" "locks' c = locks' b" "oid' c = oid' b"
    "out' c = out' b @ es" "list_all plain_effect es" using bc by (rule stillE)
  obtain l fs where y: "rm_core b = rm_core a" "log_ok a \<longrightarrow> log_ok b" "oid' b = oid' a + 1" "li_oid l = oid' a"
    "locks' b = (if map_of (locks' a) (oid' a) = None then locks' a @ [(oid' a, l)] else locks' a)"
    "out' b = out' a @ fs" "list_all (\<lambda>e. e = Lock_row l \<or> plain_effect e) fs" using ab by (rule lockingE)
  show ?thesis
    by (rule lockingI[of _ _ l "fs @ es"]) (use x y in \<open>auto simp: list_all_iff\<close>)
qed

text \<open>Fields outside the frame.\<close>

lemma still_fields [simp]:
  "still s (t\<lparr>ops' := a\<rparr>) = still s t" "still s (t\<lparr>error_code' := b\<rparr>) = still s t"
  "still s (t\<lparr>posted' := c\<rparr>) = still s t" "still s (t\<lparr>response' := d\<rparr>) = still s t"
  "still s (t\<lparr>lock_acquire' := f\<rparr>) = still s t" "still s (t\<lparr>ds_read_handler' := g\<rparr>) = still s t"
  "still s (t\<lparr>lock_wait_time_tracer' := h\<rparr>) = still s t" "still s (t\<lparr>read_time_tracer' := h\<rparr>) = still s t"
  "still s (t\<lparr>latency_read_dsb' := i\<rparr>) = still s t" "still s (t\<lparr>log_rep_delay' := i\<rparr>) = still s t"
  "still s (t\<lparr>now' := j\<rparr>) = still s t" "still s (t\<lparr>max_ops' := k\<rparr>) = still s t"
  "still s (t\<lparr>coord_node_id' := m\<rparr>) = still s t" "still s (t\<lparr>victim' := n\<rparr>) = still s t"
  by (simp_all add: still_def rm_core_def log_ok_def)

lemma still_emit: "plain_effect e \<Longrightarrow> still s (rm_emit e s)"
  by (simp add: still_def rm_core_def log_ok_def rm_emit_def)

lemma still_invoke_done [simp]: "still s (invoke_done ec t) = still s t"
  by (simp add: invoke_done_def)

lemma log_ok_last: "log_ok s \<Longrightarrow> (\<And>l. tl_log_type (f l) = tl_log_type l) \<Longrightarrow> log_ok (on_last_log f s)"
  by (auto simp: log_ok_def on_last_log_def no_log_def split: list.splits)

lemma still_append_operation: "append_operation op s = Some s' \<Longrightarrow> still s s'"
proof -
  assume "append_operation op s = Some s'"
  then have s': "s' = on_last_log (\<lambda>l. l\<lparr>tl_operations := tl_operations l @
        [op\<lparr>to_xid := xid' s, to_sd_id := TO_RG_ID (node_id' s)\<rparr>]\<rparr>) s"
    by (auto simp: append_operation_def split: if_splits)
  then have "log_ok s \<longrightarrow> log_ok s'" using log_ok_last by simp
  then show ?thesis unfolding still_def s' by (simp add: on_last_log_def rm_core_def Let_def)
qed

lemma still_done:
  "read_done ec tuple s = Some s' \<Longrightarrow> still s s'"
  "write_done op ec s = Some s' \<Longrightarrow> still s s'"
proof -
  show "read_done ec tuple s = Some s' \<Longrightarrow> still s s'"
    by (auto simp: read_done_def Let_def still_refl split: if_splits)
  assume "write_done op ec s = Some s'"
  then show "still s s'" using still_append_operation by (auto simp: write_done_def)
qed

lemma still_read_data_from_dsb: "read_data_from_dsb t sd key oid fn s = Some s' \<Longrightarrow> still s s'"
  unfolding read_data_from_dsb_def Let_def
  by (auto dest!: bind_SomeD split: if_splits intro!: still_trans[OF _ still_emit] simp: plain_effect_def still_refl)

lemma still_run_lock_cont: "run_lock_cont a k ec s = Some s' \<Longrightarrow> still s s'"
proof -
  assume run: "run_lock_cont a k ec s = Some s'"
  then obtain tt where tt: "tt_end (now' s) (lock_wait_time_tracer' s) = Some tt"
    by (auto simp: run_lock_cont_def dest!: bind_SomeD)
  define s1 where "s1 = s\<lparr>lock_wait_time_tracer' := tt\<rparr>"
  have s1: "still s s1" by (simp add: s1_def still_refl)
  have removed: "still s1 (rm_emit (Fn_removed ec' t) s1)" for ec' t
    by (rule still_emit) (simp add: plain_effect_def)
  have "still s1 s'"
    using run tt still_done still_read_data_from_dsb removed
    by (auto simp: run_lock_cont_def s1_def[symmetric] dest!: bind_SomeD split: lock_cont.splits if_splits option.splits)
  then show ?thesis using still_trans[OF s1] by blast
qed

lemma still_run_dsb_cont: "run_dsb_cont k ec t s = Some s' \<Longrightarrow> still s s'"
  using still_done by (auto simp: run_dsb_cont_def split: dsb_cont.splits if_splits)

lemma locking_add_lock:
  assumes "add_lock lt t sd key s = (l, s1)"
  shows "li_oid l = oid' s" "locking s s1" "locking s (wait_lock l k s1)"
proof -
  have e: "li_oid l = oid' s" "rm_core s1 = rm_core s" "log_ok s1 = log_ok s" "oid' s1 = oid' s + 1" "out' s1 = out' s"
    "locks' s1 = (if map_of (locks' s) (oid' s) = None then locks' s @ [(oid' s, l)] else locks' s)"
    using assms by (auto simp: add_lock_def Let_def rm_core_def log_ok_def split: if_splits)
  show "li_oid l = oid' s" by (rule e(1))
  show "locking s s1" by (rule lockingI[of _ _ l "[]"]) (use e in auto)
  have w: "rm_core (wait_lock l k s1) = rm_core s1" "log_ok (wait_lock l k s1) = log_ok s1"
    "oid' (wait_lock l k s1) = oid' s1" "locks' (wait_lock l k s1) = locks' s1"
    "out' (wait_lock l k s1) = out' s1 @ [Lock_row l]"
    by (simp_all add: wait_lock_def rm_emit_def rm_core_def log_ok_def)
  show "locking s (wait_lock l k s1)"
    by (rule lockingI[of _ _ l "[Lock_row l]"]) (use e w in auto)
qed

lemma locking_async_read: "async_read a t sd key rfw s = Some s' \<Longrightarrow> locking s s'"
proof -
  assume run: "async_read a t sd key rfw s = Some s'"
  obtain l s1 where add: "add_lock (if rfw then LOCK_WRITE_ROW else LOCK_READ_ROW) t sd key s = (l, s1)"
    by (cases "add_lock (if rfw then LOCK_WRITE_ROW else LOCK_READ_ROW) t sd key s")
  let ?k = "Read_locked t sd key (li_oid l)"
  let ?s2 = "s1\<lparr>lock_acquire' := Some ?k, lock_wait_time_tracer' := tt_begin (now' s1) (lock_wait_time_tracer' s1)\<rparr>"
  show ?thesis
  proof (cases "read_only' s1")
    case True
    then obtain s3 where s3: "run_lock_cont a ?k EC_OK ?s2 = Some s3" "s' = s3\<lparr>lock_acquire' := None\<rparr>"
      using run add by (auto simp: async_read_def Let_def split: if_splits)
    have "still s1 ?s2" by (simp add: still_refl)
    then have "still s1 s'" using still_trans[OF _ still_run_lock_cont[OF s3(1)]] s3(2) by simp
    then show ?thesis using locking_still[OF locking_add_lock(2)[OF add]] by blast
  next
    case False
    then have "s' = wait_lock l ?k s1" using run add by (auto simp: async_read_def Let_def split: if_splits)
    then show ?thesis using locking_add_lock(3)[OF add] by simp
  qed
qed

lemma locking_async_write:
  "async_update t sd key op s = Some s' \<Longrightarrow> locking s s'"
  "async_insert t sd key op s = Some s' \<Longrightarrow> locking s s'"
  "async_remove t sd key s = Some s' \<Longrightarrow> locking s s'"
  using locking_add_lock(3)
  by (auto simp: async_update_def async_insert_def async_remove_def Let_def split: prod.splits if_splits)

lemma locking_handle_operation: "handle_operation a op s = Some s' \<Longrightarrow> locking s s'"
proof -
  have t: "still s (take_tuple s)"
    by (simp add: take_tuple_def still_refl split: list.split)
  assume "handle_operation a op s = Some s'"
  then show ?thesis
    using locking_async_read locking_async_write(1,2) still_locking[OF t]
    by (auto simp: handle_operation_def Let_def split: tx_op_type.splits)
qed

section \<open>Forced entries\<close>

text \<open>A decision: the state changes and one log entry of the given type is appended.\<close>

definition forced :: "tx_cmd_type \<Rightarrow> rm_state \<Rightarrow> tx_context \<Rightarrow> tx_context \<Rightarrow> bool" where
  "forced t st s s' \<longleftrightarrow> rm_core s' = rm_core (s\<lparr>state' := st\<rparr>) \<and> locks' s' = locks' s \<and> oid' s' = oid' s \<and> log_ok s' \<and>
     (\<exists>ls. out' s' = out' s @ [Rm_append ls] \<and> (log_ok s \<longrightarrow> (\<exists>l. ls = [l] \<and> tl_log_type l = t)))"

lemma forced_log: "forced t st s (async_force_log (set_tx_cmd_type t (s\<lparr>state' := st\<rparr>)))"
  unfolding forced_def
  by (auto simp: async_force_log_def set_tx_cmd_type_def on_last_log_def Let_def rm_emit_def rm_core_def log_ok_def
      split: list.splits)

lemma forced_prepare:
  "state' s = RM_IDLE \<Longrightarrow> forced TX_CMD_RM_PREPARE_COMMIT RM_PREPARE_COMMITTING s (handle_finish_tx_phase1_prepare_commit s)"
  "forced TX_CMD_RM_PREPARE_ABORT RM_PREPARE_ABORTING s (handle_finish_tx_phase1_prepare_abort s)"
  using forced_log
  by (simp_all add: handle_finish_tx_phase1_prepare_commit_def handle_finish_tx_phase1_prepare_abort_def
      prepare_commit_tx_def prepare_abort_tx_def)

lemma still_forced: "still a b \<Longrightarrow> forced t st b c \<Longrightarrow> \<exists>es ls. rm_core c = rm_core (a\<lparr>state' := st\<rparr>) \<and> locks' c = locks' a \<and>
    oid' c = oid' a \<and> log_ok c \<and> out' c = out' a @ es @ [Rm_append ls] \<and> list_all plain_effect es \<and>
    (log_ok a \<longrightarrow> (\<exists>l. ls = [l] \<and> tl_log_type l = t))"
proof -
  assume ab: "still a b" and bc: "forced t st b c"
  obtain es where x: "rm_core b = rm_core a" "log_ok a \<longrightarrow> log_ok b" "locks' b = locks' a" "oid' b = oid' a"
    "out' b = out' a @ es" "list_all plain_effect es" using ab by (rule stillE)
  obtain ls where y: "rm_core c = rm_core (b\<lparr>state' := st\<rparr>)" "locks' c = locks' b" "oid' c = oid' b" "log_ok c"
    "out' c = out' b @ [Rm_append ls]" "log_ok b \<longrightarrow> (\<exists>l. ls = [l] \<and> tl_log_type l = t)"
    using bc unfolding forced_def by blast
  have "rm_core (b\<lparr>state' := st\<rparr>) = rm_core (a\<lparr>state' := st\<rparr>)" using x(1) by (simp add: rm_core_def)
  then show ?thesis using x y by (intro exI[of _ es] exI[of _ ls]) simp
qed

section \<open>The next operation\<close>

lemma handle_next_operation_cases:
  assumes "handle_next_operation a s = Some s'"
  obtains (skip) "s' = s"
  | (lock) "state' s = RM_IDLE" "locking s s'"
  | (prepare) "state' s = RM_IDLE" "distributed' s" "s' = handle_finish_tx_phase1_prepare_commit s"
  | (refuse) "state' s = RM_IDLE" "distributed' s" "s' = handle_finish_tx_phase1_prepare_abort s"
  | (commit) "state' s = RM_IDLE" "\<not> distributed' s" "handle_finish_tx_phase1_commit s = Some s'"
  | (abort) "state' s = RM_IDLE" "\<not> distributed' s" "abort_tx_1p s = Some s'"
proof (cases "state' s = RM_IDLE")
  case False
  then show thesis using skip assms by (simp add: handle_next_operation_def)
next
  case idle: True
  show thesis
  proof (cases "error_code' s = EC_OK")
    case False
    then show thesis
      using idle assms skip refuse abort by (simp add: handle_next_operation_def split: if_splits)
  next
    case True
    show thesis
    proof (cases "ops' s")
      case Nil
      then show thesis
        using idle True assms skip prepare commit by (simp add: handle_next_operation_def split: if_splits)
    next
      case (Cons op ops)
      then have "handle_operation a op s = Some s'" using idle True assms by (simp add: handle_next_operation_def)
      then show thesis using lock[OF idle] locking_handle_operation by blast
    qed
  qed
qed

section \<open>Moves of a participant\<close>

definition outcome :: "tx_cmd_type \<Rightarrow> bool" where
  "outcome t \<longleftrightarrow> t = TX_CMD_RM_COMMIT \<or> t = TX_CMD_RM_ABORT"

definition released :: "tx_context \<Rightarrow> tx_context \<Rightarrow> bool" where
  "released s s' \<longleftrightarrow> rm_core s' = rm_core (s\<lparr>state' := RM_ENDED, end' := True\<rparr>) \<and> locks' s' = [] \<and> oid' s' = oid' s \<and>
     (\<exists>es. out' s' = out' s @ es \<and> list_all (\<lambda>e. plain_effect e \<or> (\<exists>l. e = Unlock_row l \<and> \<not> read_only' s)) es \<and>
       (\<not> read_only' s \<longrightarrow> (\<forall>l \<in> snd ` set (locks' s). Unlock_row l \<in> set es)))"

definition voted :: "bool \<Rightarrow> tx_context \<Rightarrow> tx_context \<Rightarrow> bool" where
  "voted commit s s' \<longleftrightarrow> rm_core s' = rm_core s \<and> locks' s' = locks' s \<and> oid' s' = oid' s \<and> log_ok s' \<and>
     (\<exists>n m. out' s' = out' s @ [Send_TX_RM_PREPARE n m] \<and> pr_commit m = commit \<and>
       pr_source_rg m = TO_RG_ID (node_id' s))"

text \<open>
  The abstract moves.  Every turn of the strand is one of them; the invariants
  below are proved over them.
\<close>

inductive rm_move :: "ctx_event \<Rightarrow> tx_context \<Rightarrow> tx_context \<Rightarrow> bool" where
  quiet: "still s s' \<Longrightarrow> rm_move e s s'"
| lock: "state' s = RM_IDLE \<Longrightarrow> locking s s' \<Longrightarrow> rm_move e s s'"
| prepare: "state' s = RM_IDLE \<Longrightarrow> distributed' s \<Longrightarrow> still s t \<Longrightarrow>
    forced TX_CMD_RM_PREPARE_COMMIT RM_PREPARE_COMMITTING t s' \<Longrightarrow> rm_move e s s'"
| refuse: "state' s = RM_IDLE \<Longrightarrow> distributed' s \<Longrightarrow> still s t \<Longrightarrow>
    forced TX_CMD_RM_PREPARE_ABORT RM_PREPARE_ABORTING t s' \<Longrightarrow> rm_move e s s'"
| commit: "state' s = RM_IDLE \<Longrightarrow> \<not> distributed' s \<Longrightarrow> still s t \<Longrightarrow>
    forced TX_CMD_RM_COMMIT RM_COMMITTING t s' \<Longrightarrow> rm_move e s s'"
| commit2: "state' s = RM_PREPARE_COMMITTING \<Longrightarrow> forced TX_CMD_RM_COMMIT RM_COMMITTING s s' \<Longrightarrow>
    rm_move (Ctx_tm_commit m) s s'"
| abort: "state' s = RM_IDLE \<or> state' s = RM_PREPARE_ABORTING \<Longrightarrow> still s t \<Longrightarrow>
    forced TX_CMD_RM_ABORT RM_ABORTING t s' \<Longrightarrow> rm_move e s s'"
| abort2: "state' s = RM_PREPARE_COMMITTING \<Longrightarrow> forced TX_CMD_RM_ABORT RM_ABORTING s s' \<Longrightarrow>
    rm_move (Ctx_tm_abort m) s s'"
| vote: "t = (if commit then TX_CMD_RM_PREPARE_COMMIT else TX_CMD_RM_PREPARE_ABORT) \<Longrightarrow> voted commit s s' \<Longrightarrow>
    rm_move (Ctx_log t ts us) s s'"
| release: "outcome t \<Longrightarrow> released s s' \<Longrightarrow> log_ok s' \<Longrightarrow> rm_move (Ctx_log t ts us) s s'"
| read_only: "state' s = RM_IDLE \<Longrightarrow> read_only' s \<Longrightarrow> \<not> distributed' s \<Longrightarrow> still s t \<Longrightarrow> released t s' \<Longrightarrow> rm_move e s s'"
| ended: "rm_move Ctx_tm_end s (tx_ended s)"

lemma fold_unlock:
  "fold (\<lambda>(oid, l) s. rm_emit (Unlock_row l) s) ls s = s\<lparr>out' := out' s @ map (\<lambda>(oid, l). Unlock_row l) ls\<rparr>"
  by (induction ls arbitrary: s) (auto simp: rm_emit_def)

lemma release_lock_out:
  "\<exists>es. out' (release_lock s) = out' s @ (if read_only' s then [] else map (\<lambda>(oid, l). Unlock_row l) (locks' s)) @ es \<and>
     list_all plain_effect es"
  unfolding release_lock_def Let_def fold_unlock tx_ended_def rm_emit_def
  by (auto simp: plain_effect_def)

lemma release_lock_fields:
  "rm_core (release_lock s) = rm_core (s\<lparr>state' := RM_ENDED, end' := True\<rparr>)" "locks' (release_lock s) = []"
  "oid' (release_lock s) = oid' s" "log_entry' (release_lock s) = log_entry' s"
  unfolding release_lock_def Let_def fold_unlock tx_ended_def rm_emit_def
  by (simp_all add: rm_core_def)

text \<open>Releasing after plain effects that leave the locks.\<close>

lemma released_after:
  assumes "rm_core (t\<lparr>state' := RM_ENDED\<rparr>) = rm_core (s\<lparr>state' := RM_ENDED\<rparr>)" "locks' t = locks' s" "oid' t = oid' s"
    "out' t = out' s @ es" "list_all plain_effect es"
  shows "released s (release_lock t)"
proof -
  obtain fs where fs: "out' (release_lock t) = out' t @ (if read_only' t then [] else map (\<lambda>(oid, l). Unlock_row l) (locks' t)) @ fs"
    "list_all plain_effect fs" using release_lock_out by blast
  let ?gs = "es @ (if read_only' t then [] else map (\<lambda>(oid, l). Unlock_row l) (locks' t)) @ fs"
  have ro: "read_only' t = read_only' s" using assms(1) by (simp add: rm_core_def)
  have "list_all (\<lambda>e. plain_effect e \<or> (\<exists>l. e = Unlock_row l \<and> \<not> read_only' s)) ?gs"
    using assms(5) fs(2) ro by (auto simp: list_all_iff)
  moreover have "\<not> read_only' s \<longrightarrow> (\<forall>l \<in> snd ` set (locks' s). Unlock_row l \<in> set ?gs)"
    using ro assms(2) by force
  moreover have "rm_core (t\<lparr>state' := RM_ENDED, end' := True\<rparr>) = rm_core (s\<lparr>state' := RM_ENDED, end' := True\<rparr>)"
    using assms(1) by (simp add: rm_core_def)
  ultimately show ?thesis
    unfolding released_def release_lock_fields fs(1) assms(4) using assms(3) by auto
qed

lemma still_send_ack: "still s (send_ack_message c s)"
  unfolding send_ack_message_def by (rule still_emit) (simp add: plain_effect_def)

lemma send_tx_response_still:
  assumes "send_tx_response s = Some s'"
  shows "still s s'" "log_entry' s' = log_entry' s"
proof -
  have "still s s' \<and> log_entry' s' = log_entry' s"
    using assms unfolding send_tx_response_def Let_def
    by (auto dest!: bind_SomeD split: if_splits simp: still_def rm_core_def log_ok_def rm_emit_def plain_effect_def)
  then show "still s s'" "log_entry' s' = log_entry' s" by simp_all
qed

lemma released_still:
  assumes "still s t" shows "released s (release_lock t)"
proof -
  obtain es where x: "rm_core t = rm_core s" "log_ok s \<longrightarrow> log_ok t" "locks' t = locks' s" "oid' t = oid' s"
    "out' t = out' s @ es" "list_all plain_effect es" using assms by (rule stillE)
  show ?thesis by (rule released_after[OF _ x(3,4,5,6)]) (use x(1) in \<open>simp add: rm_core_def\<close>)
qed

lemma tx_outcome_released:
  assumes "tx_committed s = Some s' \<or> tx_aborted s = Some s'"
  shows "(released s s' \<or> s' = s) \<and> log_entry' s' = log_entry' s"
proof -
  define e where "e = (if error_code' s = EC_OK then s\<lparr>error_code' := EC_TX_ABORT\<rparr> else s)"
  have e: "still s e" "log_entry' e = log_entry' s" by (simp_all add: e_def still_refl)
  have "s' = s \<or> (\<exists>t. still s t \<and> log_entry' t = log_entry' s \<and> s' = release_lock t)"
    using assms
  proof
    assume "tx_committed s = Some s'"
    then show ?thesis
      using send_tx_response_still[of s] still_send_ack[of s True]
      by (auto simp: tx_committed_def send_ack_message_def rm_emit_def split: if_splits)
  next
    assume run: "tx_aborted s = Some s'"
    have "still s t \<and> log_entry' t = log_entry' s" if "send_tx_response e = Some t" for t
      using send_tx_response_still[OF that] still_trans[OF e(1)] e(2) by auto
    then show ?thesis
      using run still_send_ack[of s False]
      by (auto simp: tx_aborted_def e_def[symmetric] send_ack_message_def rm_emit_def split: if_splits)
  qed
  then show ?thesis using released_still release_lock_fields(4) by auto
qed

lemma released_synced: "released (s\<lparr>commit_log_synced' := x\<rparr>) s' = released s s'"
  "released (s\<lparr>append_time_tracer' := y\<rparr>) s' = released s s'" "released (s\<lparr>log_entry' := z\<rparr>) s' = released s s'"
  "released (log_rep_delay us s) s' = released s s'"
  by (simp_all add: released_def rm_core_def log_rep_delay_def)

lemma still_log_reset: "still s (s\<lparr>commit_log_synced' := x, append_time_tracer' := y, log_entry' := [], log_rep_delay' := z\<rparr>)"
  by (simp add: still_def rm_core_def log_ok_def)

lemma send_prepare_voted:
  assumes "send_prepare_message c s = Some s'" "log_entry' s = []"
  shows "voted c s s'"
proof -
  obtain p st where "s' = rm_emit (Send_TX_RM_PREPARE (coord_node_id' s)
       \<lparr>pr_xid = xid' s, pr_source_node = node_id' s, pr_dest_node = coord_node_id' s,
        pr_source_rg = TO_RG_ID (node_id' s), pr_dest_rg = TO_RG_ID (coord_node_id' s),
        pr_commit = c, pr_stats = st\<rparr>) (s\<lparr>part_time_tracer' := p\<rparr>)"
    using assms(1) unfolding send_prepare_message_def Let_def by (auto dest!: bind_SomeD)
  then show ?thesis using assms(2) by (simp add: voted_def rm_core_def log_ok_def rm_emit_def)
qed

lemma voted_reset: "voted c (s\<lparr>log_entry' := z\<rparr>) s' = voted c s s'" "voted c (s\<lparr>append_time_tracer' := y\<rparr>) s' = voted c s s'"
  "voted c (s\<lparr>prepare_commit_log_synced' := x\<rparr>) s' = voted c s s'" "voted c (log_rep_delay us s) s' = voted c s s'"
  by (simp_all add: voted_def rm_core_def log_rep_delay_def)

lemma log_commit_move:
  assumes "ctx_handle (Ctx_log t ts us) a s = Some s'"
  shows "rm_move (Ctx_log t ts us) s s'"
proof -
  define s0 where "s0 = (log_rep_delay us s)\<lparr>log_entry' := []\<rparr>"
  have run: "on_log_entry_commit t ts (log_rep_delay us s) = Some s'" using assms by (simp add: ctx_handle_def)
  have rel: "rm_move (Ctx_log t ts us) s s'"
    if "tx_committed s1 = Some s' \<or> tx_aborted s1 = Some s'" "outcome t"
      "s1 = s0 \<or> (\<exists>tt. s1 = s0\<lparr>append_time_tracer' := tt, commit_log_synced' := True\<rparr>)" for s1
  proof -
    have "released s s' \<or> s' = s1" "log_entry' s' = []"
      using tx_outcome_released[OF that(1)] that(3) by (auto simp: s0_def released_synced)
    moreover have "still s s1"
      using that(3) by (auto simp: s0_def log_rep_delay_def still_def rm_core_def log_ok_def)
    ultimately show ?thesis
      using rm_move.release[OF that(2)] rm_move.quiet by (auto simp: log_ok_def)
  qed
  have vt: "rm_move (Ctx_log t ts us) s s'"
    if "send_prepare_message c s1 = Some s'" "t = (if c then TX_CMD_RM_PREPARE_COMMIT else TX_CMD_RM_PREPARE_ABORT)"
      "s1 = s0 \<or> (\<exists>tt. s1 = s0\<lparr>append_time_tracer' := tt, prepare_commit_log_synced' := True\<rparr>)" for s1 c
  proof -
    have "voted c s1 s'" using send_prepare_voted[OF that(1)] that(3) by (auto simp: s0_def)
    then show ?thesis using that(2,3) by (intro rm_move.vote) (auto simp: s0_def voted_reset)
  qed
  have qt: "still s s0" by (simp add: s0_def log_rep_delay_def still_def rm_core_def log_ok_def)
  show ?thesis
  proof (cases t)
    case TX_CMD_RM_COMMIT
    then show ?thesis
      using run rel by (auto simp: on_log_entry_commit_def s0_def[symmetric] on_committed_log_commit_def outcome_def dest!: bind_SomeD)
  next
    case TX_CMD_RM_ABORT
    then show ?thesis
      using run rel by (auto simp: on_log_entry_commit_def s0_def[symmetric] on_aborted_log_commit_def outcome_def)
  next
    case TX_CMD_RM_PREPARE_COMMIT
    then show ?thesis
      using run vt[of True] by (auto simp: on_log_entry_commit_def s0_def[symmetric] on_prepare_committed_log_commit_def dest!: bind_SomeD)
  next
    case TX_CMD_RM_PREPARE_ABORT
    then show ?thesis
      using run vt[of False] by (auto simp: on_log_entry_commit_def s0_def[symmetric] on_prepare_aborted_log_commit_def)
  qed (use run qt rm_move.quiet in \<open>auto simp: on_log_entry_commit_def s0_def[symmetric]\<close>)
qed

lemma still_core: "still s t \<Longrightarrow> state' t = state' s \<and> distributed' t = distributed' s \<and> read_only' t = read_only' s"
  by (simp add: still_def rm_core_def)

lemma phase1_commit_move:
  assumes "handle_finish_tx_phase1_commit t = Some s'" "state' s = RM_IDLE" "\<not> distributed' s" "still s t"
  shows "rm_move e s s'"
proof -
  have idle: "state' t = RM_IDLE" and loc: "\<not> distributed' t" and ro: "read_only' t = read_only' s"
    using still_core[OF assms(4)] assms(2,3) by auto
  define u where "u = (set_tx_cmd_type TX_CMD_RM_COMMIT (t\<lparr>state' := RM_COMMITTING\<rparr>))"
  have u: "read_only' u = read_only' t" "distributed' u = distributed' t"
    by (simp_all add: u_def set_tx_cmd_type_def on_last_log_def Let_def)
  show ?thesis
  proof (cases "read_only' t")
    case True
    then have "tx_committed (u\<lparr>commit_log_synced' := True\<rparr>) = Some s'"
      using assms(1) idle u by (simp add: handle_finish_tx_phase1_commit_def u_def Let_def on_committed_log_commit_def)
    then obtain v where v: "send_tx_response (u\<lparr>commit_log_synced' := True\<rparr>) = Some v" "s' = release_lock v"
      using loc u by (auto simp: tx_committed_def)
    obtain es where x: "rm_core v = rm_core (u\<lparr>commit_log_synced' := True\<rparr>)" "locks' v = locks' (u\<lparr>commit_log_synced' := True\<rparr>)"
      "oid' v = oid' (u\<lparr>commit_log_synced' := True\<rparr>)" "out' v = out' (u\<lparr>commit_log_synced' := True\<rparr>) @ es" "list_all plain_effect es"
      using send_tx_response_still(1)[OF v(1)] by (auto elim: stillE)
    have "released t s'" unfolding v(2)
      by (rule released_after[OF _ _ _ _ x(5)])
        (use x in \<open>simp_all add: u_def set_tx_cmd_type_def on_last_log_def Let_def rm_core_def\<close>)
    then show ?thesis using rm_move.read_only[OF assms(2) _ assms(3,4)] True ro by blast
  next
    case False
    then have "s' = async_force_log u"
      using assms(1) idle u by (simp add: handle_finish_tx_phase1_commit_def u_def Let_def)
    then show ?thesis
      using rm_move.commit[OF assms(2,3,4)] forced_log by (simp add: u_def)
  qed
qed

lemma handle_next_move:
  assumes run: "handle_next_operation a t = Some s'" and st: "still s t"
  shows "rm_move e s s'"
proof -
  note c = still_core[OF st]
  from run show ?thesis
  proof (cases rule: handle_next_operation_cases)
    case skip
    then show ?thesis using rm_move.quiet[OF st] by simp
  next
    case lock
    then show ?thesis using rm_move.lock still_locking[OF st] c by simp
  next
    case prepare
    then show ?thesis using rm_move.prepare[OF _ _ st] forced_prepare(1) c by simp
  next
    case refuse
    then show ?thesis using rm_move.refuse[OF _ _ st] forced_prepare(2) c by simp
  next
    case commit
    then show ?thesis using phase1_commit_move[OF commit(3) _ _ st] c by simp
  next
    case abort
    then have "s' = async_force_log (set_tx_cmd_type TX_CMD_RM_ABORT (t\<lparr>state' := RM_ABORTING\<rparr>))"
      by (simp add: abort_tx_1p_def)
    then show ?thesis using rm_move.abort[OF _ st] forced_log abort(1) c by simp
  qed
qed

lemma abort_tx_1p_move:
  assumes run: "abort_tx_1p t = Some s'" and st: "still s t"
  shows "rm_move e s s'"
proof (cases "state' t = RM_IDLE")
  case True
  then have "s' = async_force_log (set_tx_cmd_type TX_CMD_RM_ABORT (t\<lparr>state' := RM_ABORTING\<rparr>))"
    using run by (simp add: abort_tx_1p_def)
  then show ?thesis using rm_move.abort[OF _ st] forced_log True still_core[OF st] by simp
next
  case False
  then have "send_tx_response t = Some s'" using run by (simp add: abort_tx_1p_def split: if_splits)
  then show ?thesis using rm_move.quiet still_trans[OF st] send_tx_response_still(1) by blast
qed

lemma abort_tx_2p_move:
  assumes "abort_tx_2p s = Some s'" "state' s = RM_PREPARE_COMMITTING \<longrightarrow> (\<exists>m. e = Ctx_tm_abort m)"
  shows "rm_move e s s'"
proof (cases "state' s = RM_IDLE \<or> state' s = RM_PREPARE_ABORTING \<or> state' s = RM_PREPARE_COMMITTING")
  case True
  then have f: "forced TX_CMD_RM_ABORT RM_ABORTING s s'"
    using assms(1) forced_log[of TX_CMD_RM_ABORT RM_ABORTING s] by (simp add: abort_tx_2p_def)
  show ?thesis
  proof (cases "state' s = RM_PREPARE_COMMITTING")
    case True
    then show ?thesis using rm_move.abort2[OF _ f] assms(2) by auto
  next
    case False
    then show ?thesis using rm_move.abort[OF _ still_refl f] True by auto
  qed
next
  case False
  then have "s' = send_ack_message False s" using assms(1) by (simp add: abort_tx_2p_def split: if_splits)
  then show ?thesis using rm_move.quiet still_send_ack by simp
qed

text \<open>
  \<^verbatim>\<open>timeout_clean_up\<close> of a local transaction both forces the abort entry and answers; no code
  calls it, and it is not a move.
\<close>

definition is_turn :: "ctx_event \<Rightarrow> bool" where
  "is_turn e \<longleftrightarrow> (case e of Ctx_request r \<Rightarrow> False | Ctx_timeout ms \<Rightarrow> False | _ \<Rightarrow> True)"

lemma still_now: "still (s\<lparr>now' := n\<rparr>) s' = still s s'" "released (s\<lparr>now' := n\<rparr>) s' = released s s'"
  by (simp_all add: still_def released_def rm_core_def log_ok_def)

lemma dsb_response_still:
  assumes "read_data_from_dsb_response r ts (a, s) = Some (a', s')"
  shows "still s s'"
proof -
  define s0 where "s0 = s\<lparr>latency_read_dsb' := latency_read_dsb' s + dr_latency_read_dsb r\<rparr>"
  obtain tt k tuple s1 where "run_dsb_cont k (dr_error_code r) tuple (s0\<lparr>read_time_tracer' := tt\<rparr>) = Some s1"
    and s': "s' = s1\<lparr>ds_read_handler' := AList.delete (dr_oid r) (ds_read_handler' s1)\<rparr>"
    using assms unfolding read_data_from_dsb_response_def Let_def s0_def
    by (auto dest!: bind_SomeD split: if_splits)
  then have "still (s0\<lparr>read_time_tracer' := tt\<rparr>) s1" using still_run_dsb_cont by blast
  moreover have "still s (s0\<lparr>read_time_tracer' := tt\<rparr>)" by (simp add: s0_def still_refl)
  ultimately have "still s s1" using still_trans by blast
  then show ?thesis using s' by simp
qed

lemma ctx_handle_move:
  assumes run: "ctx_handle e a s = Some s'" and e: "is_turn e"
  shows "rm_move e s s'"
proof (cases e)
  case (Ctx_locked ec)
  then obtain k where "run_lock_cont a k ec (s\<lparr>lock_acquire' := None\<rparr>) = Some s'"
    using run by (auto simp: ctx_handle_def ctx_lock_acquired_def split: option.splits)
  then have "still (s\<lparr>lock_acquire' := None\<rparr>) s'" by (rule still_run_lock_cont)
  then show ?thesis using rm_move.quiet[OF still_trans[OF _ \<open>still (s\<lparr>lock_acquire' := None\<rparr>) s'\<close>]] by (simp add: still_refl)
next
  case Ctx_op_done
  show ?thesis
  proof (cases "posted' s")
    case Nil
    then show ?thesis using run Ctx_op_done rm_move.quiet still_refl by (auto simp: ctx_handle_def)
  next
    case (Cons ec ecs)
    then obtain t where "handle_next_operation a t = Some s'" "still s t"
      using run Ctx_op_done by (auto simp: ctx_handle_def op_done_def still_refl split: if_splits)
    then show ?thesis by (rule handle_next_move)
  qed
next
  case (Ctx_dsb r ts)
  then show ?thesis using run dsb_response_still rm_move.quiet by (auto simp: ctx_handle_def)
next
  case (Ctx_log t ts us)
  then show ?thesis using log_commit_move run by simp
next
  case (Ctx_tm_commit m)
  then have c: "handle_finish_tx_phase2_commit s = Some s'"
    using run by (auto simp: ctx_handle_def handle_tx_tm_commit_def split: if_splits)
  show ?thesis
  proof (cases "state' s = RM_PREPARE_COMMITTING")
    case True
    then show ?thesis
      using c rm_move.commit2[OF True] forced_log[of TX_CMD_RM_COMMIT RM_COMMITTING s] Ctx_tm_commit by (simp add: handle_finish_tx_phase2_commit_def)
  next
    case False
    then have "s' = send_ack_message True s"
      using c by (simp add: handle_finish_tx_phase2_commit_def split: if_splits)
    then show ?thesis using rm_move.quiet still_send_ack by simp
  qed
next
  case (Ctx_tm_abort m)
  then show ?thesis
    using run abort_tx_2p_move[of s s' e] by (auto simp: ctx_handle_def handle_tx_tm_abort_def split: if_splits)
next
  case Ctx_tm_end
  then show ?thesis using run rm_move.ended by (auto simp: ctx_handle_def)
next
  case (Ctx_abort ec)
  define s0 where "s0 = (if ec = EC_VICTIM \<and> \<not> victim' s \<and> \<not> distributed' s then s\<lparr>victim' := True\<rparr> else s)"
  have s0: "still s s0" by (simp add: s0_def still_refl)
  have "s' = s0 \<or> abort_tx_1p (s0\<lparr>error_code' := ec\<rparr>) = Some s' \<or> (\<exists>n v. s' = rm_emit (Send_TX_VICTIM n v) s0)"
  proof -
    have "rm_abort ec s = (if \<not> distributed' s0 then
           (if state' s0 = RM_IDLE then abort_tx_1p (s0\<lparr>error_code' := ec\<rparr>) else Some s0)
         else Some (rm_emit (Send_TX_VICTIM (coord_node_id' s0)
            \<lparr>tv_source = node_id' s0, tv_dest = coord_node_id' s0, tv_xid = xid' s0\<rparr>) s0))"
      by (simp only: rm_abort_def Let_def s0_def)
    moreover have "rm_abort ec s = Some s'" using run Ctx_abort by (simp add: ctx_handle_def)
    ultimately show ?thesis by (metis option.inject)
  qed
  then show ?thesis
  proof (elim disjE exE)
    assume "abort_tx_1p (s0\<lparr>error_code' := ec\<rparr>) = Some s'"
    then show ?thesis by (rule abort_tx_1p_move) (simp add: s0)
  next
    fix n v assume "s' = rm_emit (Send_TX_VICTIM n v) s0"
    then show ?thesis
      using rm_move.quiet[OF still_trans[OF s0 still_emit]] by (simp add: plain_effect_def)
  qed (use rm_move.quiet s0 in simp)
qed (use e in \<open>simp_all add: is_turn_def\<close>)

section \<open>The request\<close>

lemma process_tx_request_start:
  assumes "process_tx_request a req s = Some s'"
  shows "\<exists>t. (handle_next_operation a t = Some s' \<or> s' = t) \<and> out' t = out' s \<and> locks' t = locks' s \<and> oid' t = oid' s \<and>
    end' t = end' s \<and> state' t = state' s \<and> distributed' t = distributed' s \<and> shared_nothing' t = shared_nothing' s \<and>
    node_id' t = node_id' s \<and> xid' t = xid' s \<and> log_entry' t = log_entry' s"
proof -
  define u where "u = s\<lparr>read_only' := rq_read_only req,
    coord_node_id' := (if rq_distributed req then rq_source req else coord_node_id' s),
    max_ops' := of_nat (length (rq_operations req))\<rparr>"
  define t where "t = (if rq_oneshot req then u\<lparr>ops' := ops' u @ rq_operations req\<rparr> else u)"
  have "process_tx_request a req s = (if rq_oneshot req then handle_next_operation a t else Some t)"
    by (simp add: process_tx_request_def Let_def t_def u_def)
  then have "handle_next_operation a t = Some s' \<or> s' = t" using assms by (auto split: if_splits)
  then show ?thesis by (rule exI[of _ t, OF conjI]) (simp add: t_def u_def)
qed

end
