(* ===== verification/Tx_Locking.thy ===== *)
theory Tx_Locking
  imports Tx_Context_Inv
begin

text \<open>
  Strict two-phase locking of a transaction at one block
  (\<^verbatim>\<open>src/concurrency/tx_context.cpp\<close>), and the tuples it reads from the cache
  of the block (\<^verbatim>\<open>src/access/access_mgr.cpp\<close>).
\<close>

section \<open>Turns of the strand\<close>

text \<open>One turn with the time and the content of the cache, which other transactions also fill.\<close>

definition ctx_turn :: "int \<times> access_mgr \<times> ctx_event \<Rightarrow> tx_context \<Rightarrow> tx_context option" where
  "ctx_turn = (\<lambda>(now, a, e) s. ctx_handle e a (s\<lparr>now' := now\<rparr>))"

definition two_phase :: "rm_effect list \<Rightarrow> bool" where
  "two_phase es \<longleftrightarrow> (\<exists>xs ys. es = xs @ ys \<and> (\<forall>l. Unlock_row l \<notin> set xs) \<and> (\<forall>l. Lock_row l \<notin> set ys))"

definition outcome_reported :: "ctx_event \<Rightarrow> bool" where
  "outcome_reported e \<longleftrightarrow> (case e of Ctx_log t ts us \<Rightarrow> outcome t | _ \<Rightarrow> False)"

lemma two_phase_append: "two_phase es \<Longrightarrow> (\<And>l. Lock_row l \<notin> set fs) \<Longrightarrow> two_phase (es @ fs)"
proof -
  assume tp: "two_phase es" and fs: "\<And>l. Lock_row l \<notin> set fs"
  then obtain xs ys where "es = xs @ ys" "\<forall>l. Unlock_row l \<notin> set xs" "\<forall>l. Lock_row l \<notin> set ys"
    by (auto simp: two_phase_def)
  then have "es @ fs = xs @ (ys @ fs)" "\<forall>l. Unlock_row l \<notin> set xs" "\<forall>l. Lock_row l \<notin> set (ys @ fs)" using fs by auto
  then show ?thesis unfolding two_phase_def by blast
qed

lemma two_phase_locks: "(\<And>l. Unlock_row l \<notin> set es) \<Longrightarrow> two_phase es"
  unfolding two_phase_def by (rule exI[of _ es], rule exI[of _ "[]"]) simp

lemma unlocked_iff:
  "list_ex (\<lambda>e. case e of Unlock_row l \<Rightarrow> True | _ \<Rightarrow> False) es \<longleftrightarrow> (\<exists>l. Unlock_row l \<in> set es)"
  by (induction es) (auto split: rm_effect.split)

lemma plain_no_lock:
  "list_all plain_effect es \<Longrightarrow> Lock_row l \<notin> set es" "list_all plain_effect es \<Longrightarrow> Unlock_row l \<notin> set es"
  by (auto simp: list_all_iff plain_effect_def)

section \<open>The invariant\<close>

text \<open>\<^term>\<open>L\<close>: the log has reported the outcome; \<^term>\<open>k\<close>: the number of turns so far.\<close>

definition lock_inv :: "bool \<Rightarrow> nat \<Rightarrow> tx_context \<Rightarrow> bool" where
  "lock_inv L k s \<longleftrightarrow>
     two_phase (out' s) \<and>
     (\<forall>l. Unlock_row l \<in> set (out' s) \<longrightarrow> state' s \<noteq> RM_IDLE \<and> L) \<and>
     (\<forall>l. Lock_row l \<in> set (out' s) \<longrightarrow>
       l \<in> snd ` set (locks' s) \<or> (end' s \<and> (Unlock_row l \<in> set (out' s) \<or> read_only' s))) \<and>
     (end' s \<longrightarrow> state' s \<noteq> RM_IDLE \<and> locks' s = []) \<and>
     (\<forall>p \<in> set (locks' s). unat (fst p) < unat (oid' s)) \<and>
     unat (oid' s) \<le> k + 1"

lemma lock_invD:
  assumes "lock_inv L k s"
  shows "two_phase (out' s)" "Unlock_row l \<in> set (out' s) \<Longrightarrow> state' s \<noteq> RM_IDLE \<and> L"
    "Lock_row l \<in> set (out' s) \<Longrightarrow> l \<in> snd ` set (locks' s) \<or> (end' s \<and> (Unlock_row l \<in> set (out' s) \<or> read_only' s))"
    "end' s \<Longrightarrow> state' s \<noteq> RM_IDLE" "end' s \<Longrightarrow> locks' s = []"
    "p \<in> set (locks' s) \<Longrightarrow> unat (fst p) < unat (oid' s)" "unat (oid' s) \<le> k + 1"
  using assms unfolding lock_inv_def by blast+

text \<open>Turns that neither lock nor unlock.\<close>

lemma lock_inv_frame:
  assumes inv: "lock_inv L k s" and out: "out' s' = out' s @ es"
    and es: "\<And>l. Lock_row l \<notin> set es" "\<And>l. Unlock_row l \<notin> set es"
    and same: "locks' s' = locks' s" "oid' s' = oid' s" "end' s' = end' s" "read_only' s' = read_only' s"
    and st: "state' s' = RM_IDLE \<Longrightarrow> state' s = RM_IDLE"
  shows "lock_inv L (Suc k) s'"
proof -
  have "two_phase (out' s')" unfolding out by (rule two_phase_append[OF lock_invD(1)[OF inv] es(1)])
  then show ?thesis
    using inv es st unfolding lock_inv_def out same by (auto simp: le_Suc_eq)
qed

lemma lock_inv_still: "lock_inv L k s \<Longrightarrow> still s s' \<Longrightarrow> lock_inv L (Suc k) s'"
proof -
  assume inv: "lock_inv L k s" and st: "still s s'"
  obtain es where x: "rm_core s' = rm_core s" "log_ok s \<longrightarrow> log_ok s'" "locks' s' = locks' s" "oid' s' = oid' s"
    "out' s' = out' s @ es" "list_all plain_effect es" using st by (rule stillE)
  show ?thesis
    by (rule lock_inv_frame[OF inv x(5) plain_no_lock[OF x(6)]])
      (use x in \<open>simp_all add: rm_core_def\<close>)
qed

lemma lock_inv_forced:
  assumes inv: "lock_inv L k s" and st: "still s t" and f: "forced ty r t s'" and r: "r \<noteq> RM_IDLE"
  shows "lock_inv L (Suc k) s'"
proof -
  obtain es ls where x: "rm_core s' = rm_core (s\<lparr>state' := r\<rparr>)" "locks' s' = locks' s" "oid' s' = oid' s"
    "out' s' = out' s @ es @ [Rm_append ls]" "list_all plain_effect es"
    using still_forced[OF st f] by blast
  show ?thesis
    by (rule lock_inv_frame[OF inv x(4)]) (use x r plain_no_lock[OF x(5)] in \<open>auto simp: rm_core_def\<close>)
qed

lemma lock_inv_voted: "lock_inv L k s \<Longrightarrow> voted c s s' \<Longrightarrow> lock_inv L (Suc k) s'"
proof -
  assume inv: "lock_inv L k s" and v: "voted c s s'"
  then obtain n m where x: "rm_core s' = rm_core s" "locks' s' = locks' s" "oid' s' = oid' s"
    "out' s' = out' s @ [Send_TX_RM_PREPARE n m]" by (auto simp: voted_def)
  show ?thesis
    by (rule lock_inv_frame[OF inv x(4)]) (use x in \<open>simp_all add: rm_core_def\<close>)
qed

lemma lock_inv_locking:
  assumes inv: "lock_inv L k s" and idle: "state' s = RM_IDLE" and lk: "locking s s'" and k: "Suc (Suc k) < 2 ^ 32"
  shows "lock_inv L (Suc k) s'"
proof -
  obtain l es where x: "rm_core s' = rm_core s" "oid' s' = oid' s + 1" "li_oid l = oid' s"
    "locks' s' = (if map_of (locks' s) (oid' s) = None then locks' s @ [(oid' s, l)] else locks' s)"
    "out' s' = out' s @ es" "list_all (\<lambda>e. e = Lock_row l \<or> plain_effect e) es"
    using lk by (rule lockingE)
  have core: "state' s' = state' s" "end' s' = end' s" "read_only' s' = read_only' s"
    using x(1) by (simp_all add: rm_core_def)
  have fresh: "map_of (locks' s) (oid' s) = None"
    using lock_invD(6)[OF inv] by (force simp: map_of_eq_None_iff)
  then have locks: "locks' s' = locks' s @ [(oid' s, l)]" using x(4) by simp
  have bound: "unat (oid' s) \<le> k + 1" by (rule lock_invD(7)[OF inv])
  then have oid: "unat (oid' s') = unat (oid' s) + 1"
    using k unfolding x(2) by (subst unat_add_lem[THEN iffD1]) auto
  have no: "Unlock_row m \<notin> set (out' s)" for m using lock_invD(2)[OF inv] idle by blast
  have es: "Unlock_row m \<notin> set es" "Lock_row m \<in> set es \<Longrightarrow> m = l" for m
    using x(6) by (auto simp: list_all_iff plain_effect_def)
  have tp: "two_phase (out' s')" by (rule two_phase_locks) (use no es x(5) in auto)
  have ne: "\<not> end' s" using lock_invD(4)[OF inv] idle by blast
  show ?thesis unfolding lock_inv_def
  proof (intro conjI)
    show "two_phase (out' s')" by (rule tp)
    show "\<forall>m. Unlock_row m \<in> set (out' s') \<longrightarrow> state' s' \<noteq> RM_IDLE \<and> L" using no es x(5) by auto
    show "\<forall>m. Lock_row m \<in> set (out' s') \<longrightarrow>
       m \<in> snd ` set (locks' s') \<or> (end' s' \<and> (Unlock_row m \<in> set (out' s') \<or> read_only' s'))"
      using lock_invD(3)[OF inv] ne es(2) unfolding x(5) locks by auto
    show "end' s' \<longrightarrow> state' s' \<noteq> RM_IDLE \<and> locks' s' = []" using ne core by simp
    show "\<forall>p \<in> set (locks' s'). unat (fst p) < unat (oid' s')"
      using lock_invD(6)[OF inv] unfolding locks oid by (auto intro: less_SucI)
    show "unat (oid' s') \<le> Suc k + 1" using bound oid by simp
  qed
qed

lemma lock_inv_released:
  assumes inv: "lock_inv L k s" and st: "still s t" and rel: "released t s'" and L: "read_only' s \<or> L"
  shows "lock_inv L (Suc k) s'"
proof -
  have t: "lock_inv L (Suc k) t" by (rule lock_inv_still[OF inv st])
  have ro: "read_only' t = read_only' s" using still_core[OF st] by simp
  obtain es where x: "rm_core s' = rm_core (t\<lparr>state' := RM_ENDED, end' := True\<rparr>)" "locks' s' = []" "oid' s' = oid' t"
    "out' s' = out' t @ es" "list_all (\<lambda>e. plain_effect e \<or> (\<exists>l. e = Unlock_row l \<and> \<not> read_only' t)) es"
    "\<not> read_only' t \<longrightarrow> (\<forall>l \<in> snd ` set (locks' t). Unlock_row l \<in> set es)"
    using rel unfolding released_def by blast
  have core: "state' s' = RM_ENDED" "end' s'" "read_only' s' = read_only' t" using x(1) by (simp_all add: rm_core_def)
  have es: "Lock_row l \<notin> set es" "Unlock_row l \<in> set es \<Longrightarrow> \<not> read_only' t" for l
    using x(5) by (auto simp: list_all_iff plain_effect_def)
  have "\<forall>l. Unlock_row l \<in> set (out' s') \<longrightarrow> L"
    using lock_invD(2)[OF t] es(2) L ro unfolding x(4) by auto
  moreover have "\<forall>l. Lock_row l \<in> set (out' s') \<longrightarrow> Unlock_row l \<in> set (out' s') \<or> read_only' s'"
    using lock_invD(3)[OF t] es(1) x(6) core(3) unfolding x(4) by auto
  moreover have "two_phase (out' s')" unfolding x(4) by (rule two_phase_append[OF lock_invD(1)[OF t] es(1)])
  moreover have "unat (oid' s') \<le> Suc k + 1" using lock_invD(7)[OF inv] st x(3) by (simp add: still_def)
  ultimately show ?thesis using core x(2) unfolding lock_inv_def by simp
qed

lemma rm_move_lock_inv:
  assumes "rm_move e s s'" "lock_inv L k s" "Suc (Suc k) < 2 ^ 32" "outcome_reported e \<longrightarrow> L"
  shows "lock_inv L (Suc k) s'"
  using assms
proof (induction rule: rm_move.induct)
  case (release t s s' ts us)
  then show ?case using lock_inv_released[OF _ still_refl] by (simp add: outcome_reported_def)
next
  case (ended s)
  have e: "out' (tx_ended s) = out' s @ [Fn_tx_state (xid' s) RM_ENDED]" by (simp add: tx_ended_def rm_emit_def)
  show ?case by (rule lock_inv_frame[OF ended(1) e]) (simp_all add: tx_ended_def rm_emit_def)
qed (auto intro: lock_inv_still lock_inv_locking lock_inv_voted lock_inv_forced[OF _ still_refl]
      lock_inv_released elim: lock_inv_forced)

section \<open>Runs\<close>

lemma lock_inv_now [simp]: "lock_inv L k (s\<lparr>now' := n\<rparr>) = lock_inv L k s"
  by (simp add: lock_inv_def)

lemma ctx_turns_lock_inv:
  assumes "run ctx_turn evs s = Some s'" "list_all (\<lambda>(n, a, e). is_turn e) evs" "lock_inv L k s"
    "Suc (k + length evs) < 2 ^ 32" "list_ex (\<lambda>(n, a, e). outcome_reported e) evs \<longrightarrow> L"
  shows "lock_inv L (k + length evs) s'"
  using assms
proof (induction evs arbitrary: s k)
  case (Cons ev evs)
  obtain n a e where ev: "ev = (n, a, e)" by (cases ev)
  obtain s1 where s1: "ctx_handle e a (s\<lparr>now' := n\<rparr>) = Some s1" "run ctx_turn evs s1 = Some s'"
    using Cons.prems(1) by (auto simp: ev ctx_turn_def split: option.splits)
  have "rm_move e (s\<lparr>now' := n\<rparr>) s1" by (rule ctx_handle_move[OF s1(1)]) (use Cons.prems(2) ev in simp)
  then have "lock_inv L (Suc k) s1"
    by (rule rm_move_lock_inv) (use Cons.prems ev in auto)
  then show ?case using Cons.IH[OF s1(2), of "Suc k"] Cons.prems by simp
qed simp

lemma request_lock_inv:
  assumes "new_tx_context now ms sn x node dsb shard2node cno dist conn dl = Some s0"
    and "ctx_turn (n, a, Ctx_request req) s0 = Some s"
  shows "lock_inv L 1 s"
proof -
  have s0: "out' s0 = []" "locks' s0 = []" "oid' s0 = 1" "end' s0 = False" "state' s0 = RM_IDLE"
    using assms(1) by (auto simp: new_tx_context_def split: if_splits)
  have inv: "lock_inv L 0 t" if "out' t = out' s0" "locks' t = locks' s0" "oid' t = oid' s0" "end' t = end' s0" for t
    using that s0 by (simp add: lock_inv_def two_phase_locks)
  obtain t where t: "out' t = out' s0" "locks' t = locks' s0" "oid' t = oid' s0" "end' t = end' s0"
    and next_op: "handle_next_operation a t = Some s \<or> s = t"
    using process_tx_request_start[of a req "s0\<lparr>now' := n\<rparr>" s] assms(2) by (auto simp: ctx_turn_def ctx_handle_def)
  have "rm_move (Ctx_request req) t s"
    using next_op handle_next_move[OF _ still_refl] rm_move.quiet[OF still_refl] by auto
  then show ?thesis
    using rm_move_lock_inv[OF _ inv[OF t]] by (auto simp: outcome_reported_def)
qed

text \<open>
  (C12) Strict two-phase locking.  In every run of a transaction at a block, whatever
  the locks, the store, the log and the coordinator answer and in whatever order:
  no row is locked after one was released; nothing is released before the log has
  reported the commit or abort entry of the transaction; and when the transaction
  has ended, every row it asked for is released, unless the request is marked read
  only: \<^verbatim>\<open>release_lock\<close> skips the unlocks of such a request.
\<close>

theorem strict_two_phase_locking:
  assumes "new_tx_context now ms sn x node dsb shard2node cno dist conn dl = Some s0"
    and "run ctx_turn ((n, a, Ctx_request req) # evs) s0 = Some s"
    and "list_all (\<lambda>(n, a, e). is_turn e) evs" and "length evs < 2 ^ 32 - 2"
  shows "two_phase (out' s) \<and>
    (list_ex (\<lambda>e. case e of Unlock_row l \<Rightarrow> True | _ \<Rightarrow> False) (out' s) \<longrightarrow>
      list_ex (\<lambda>(n, a, e). outcome_reported e) evs) \<and>
    (end' s \<and> \<not> read_only' s \<longrightarrow> (\<forall>l. Lock_row l \<in> set (out' s) \<longrightarrow> Unlock_row l \<in> set (out' s)))"
proof -
  let ?L = "list_ex (\<lambda>(n, a, e). outcome_reported e) evs"
  obtain s1 where s1: "ctx_turn (n, a, Ctx_request req) s0 = Some s1" "run ctx_turn evs s1 = Some s"
    using assms(2) by (auto split: option.splits)
  have "lock_inv ?L (1 + length evs) s"
    by (rule ctx_turns_lock_inv[OF s1(2) assms(3) request_lock_inv[OF assms(1) s1(1)]]) (use assms(4) in simp_all)
  note inv = lock_invD[OF this]
  have "?L" if "list_ex (\<lambda>e. case e of Unlock_row l \<Rightarrow> True | _ \<Rightarrow> False) (out' s)"
    using that inv(2) unfolding unlocked_iff by blast
  moreover have "Unlock_row l \<in> set (out' s)" if "end' s" "\<not> read_only' s" "Lock_row l \<in> set (out' s)" for l
    using inv(3)[OF that(3)] inv(5)[OF that(1)] that(2) by simp
  ultimately show ?thesis using inv(1) by blast
qed

definition demo_row :: "tuple_pb \<Rightarrow> tuple_row" where
  "demo_row t = \<lparr>tr_table_id = 1, tr_shard_id = 1, tr_tuple_id = 5, tr_tuple = t\<rparr>"

definition demo_access :: "tx_op_type \<Rightarrow> tuple_pb \<Rightarrow> tx_operation" where
  "demo_access ty t = no_operation\<lparr>to_op_type := ty, to_sd_id := 1, to_tuple_row := Some (demo_row t)\<rparr>"

definition demo_local :: "tx_operation list \<Rightarrow> tx_request" where
  "demo_local ops = no_request\<lparr>rq_oneshot := True, rq_operations := ops\<rparr>"

definition demo_ctx :: tx_context where
  "demo_ctx = the (new_tx_context 0 0 True 7 65793 (Some 65796) Map.empty 1 False True True)"

definition demo_cache :: access_mgr where
  "demo_cache = the (access_put 1 1 5 [1] (new_access_mgr [1] 2))"

definition demo_turns :: "(int \<times> access_mgr \<times> ctx_event) list" where
  "demo_turns = [(1000, demo_cache, Ctx_locked EC_OK), (2000, demo_cache, Ctx_op_done),
     (3000, demo_cache, Ctx_locked EC_OK), (4000, demo_cache, Ctx_op_done),
     (5000, demo_cache, Ctx_log TX_CMD_RM_COMMIT 4500 0)]"

definition demo_after :: tx_context where
  "demo_after = the (run ctx_turn ((0, demo_cache, Ctx_request (demo_local
     [demo_access TX_OP_READ [], demo_access TX_OP_UPDATE [2]])) # demo_turns) demo_ctx)"

lemma demo_ctx_new: "new_tx_context 0 0 True 7 65793 (Some 65796) Map.empty 1 False True True = Some demo_ctx"
  by (simp add: demo_ctx_def new_tx_context_def)

lemma demo_after_run:
  "run ctx_turn ((0, demo_cache, Ctx_request (demo_local
     [demo_access TX_OP_READ [], demo_access TX_OP_UPDATE [2]])) # demo_turns) demo_ctx = Some demo_after"
  by code_simp

theorem strict_two_phase_locking_witness:
  "end' demo_after \<and> \<not> read_only' demo_after \<and> two_phase (out' demo_after) \<and>
   list_ex (\<lambda>e. case e of Unlock_row l \<Rightarrow> True | _ \<Rightarrow> False) (out' demo_after)"
proof -
  have "list_all (\<lambda>(n, a, e). is_turn e) demo_turns" "length demo_turns < 2 ^ 32 - 2"
    by (simp_all add: demo_turns_def is_turn_def)
  from strict_two_phase_locking[OF demo_ctx_new demo_after_run this]
  have "two_phase (out' demo_after)" by blast
  moreover have "end' demo_after" "\<not> read_only' demo_after"
    "list_ex (\<lambda>e. case e of Unlock_row l \<Rightarrow> True | _ \<Rightarrow> False) (out' demo_after)"
    by code_simp+
  ultimately show ?thesis by blast
qed

section \<open>What a reader finds in the cache\<close>

definition not_store :: "ctx_event \<Rightarrow> bool" where
  "not_store e \<longleftrightarrow> (case e of Ctx_dsb r ts \<Rightarrow> False | _ \<Rightarrow> True)"

lemma ctx_step_cache:
  "ctx_step (n, e) (a, s) = Some (a', s') \<Longrightarrow> not_store e \<Longrightarrow> a' = a"
  by (cases e) (auto simp: ctx_step_def not_store_def)

lemma ctx_steps_cache:
  "run ctx_step evs (a, s) = Some (a', s') \<Longrightarrow> list_all (\<lambda>(n, e). not_store e) evs \<Longrightarrow> a' = a"
proof (induction evs arbitrary: a s)
  case (Cons ev evs)
  obtain n e where ev: "ev = (n, e)" by (cases ev)
  obtain a1 s1 where x: "ctx_step (n, e) (a, s) = Some (a1, s1)" "run ctx_step evs (a1, s1) = Some (a', s')"
    using Cons.prems(1) ev by (auto split: option.splits)
  then show ?case using Cons.IH[OF x(2)] Cons.prems(2) ctx_step_cache[OF x(1)] ev by simp
qed simp


definition demo_writer :: "(int \<times> ctx_event) list" where
  "demo_writer = [(0, Ctx_request (demo_local [demo_access TX_OP_UPDATE [2]])), (1000, Ctx_locked EC_OK),
     (2000, Ctx_op_done), (5000, Ctx_log TX_CMD_RM_COMMIT 4500 0)]"

definition demo_reader :: tx_context where
  "demo_reader = snd (the (ctx_step (6000, Ctx_request (demo_local [demo_access TX_OP_READ []])) (demo_cache, demo_ctx)))"


end
