(* ===== verification/Two_PC.thy ===== *)
theory Two_PC
  imports Tx_Coordinator Tx_Locking
begin

text \<open>
  Two-phase commit: the coordinator of \<^verbatim>\<open>src/concurrency/tx_coordinator.cpp\<close> and the
  participants of \<^verbatim>\<open>src/concurrency/tx_context.cpp\<close> for one distributed transaction,
  connected by a network that may lose, delay, reorder and repeat messages, each with
  its write ahead log.  A message or log entry can be delivered when it has been
  sent or appended.  Lock grants, answers of the store, deadlock victims and
  other aborts arrive at any time.
\<close>

section \<open>The system\<close>

record tpc =
  tm :: tx_coordinator
  rms :: "node_id_t \<Rightarrow> tx_context option"

definition rm_appended :: "tx_cmd_type \<Rightarrow> tx_context \<Rightarrow> bool" where
  "rm_appended t s \<longleftrightarrow>
     list_ex (\<lambda>e. case e of Rm_append ls \<Rightarrow> list_ex (\<lambda>l. tl_log_type l = t) ls | _ \<Rightarrow> False) (tx_context.out' s)"

text \<open>What may be delivered to the coordinator and to the participant at a node.\<close>

definition tm_deliverable :: "tpc \<Rightarrow> tm_event \<Rightarrow> bool" where
  "tm_deliverable w e =
     (case e of
        Tm_log_commit sent t \<Rightarrow> appended t (tm w)
      | Tm_prepare m \<Rightarrow> (\<exists>n s d. rms w n = Some s \<and> Send_TX_RM_PREPARE d m \<in> set (tx_context.out' s))
      | Tm_ack m \<Rightarrow> (\<exists>n s d. rms w n = Some s \<and> Send_TX_RM_ACK d m \<in> set (tx_context.out' s))
      | Tm_abort ec \<Rightarrow> True)"

definition rm_deliverable :: "tpc \<Rightarrow> node_id_t \<Rightarrow> tx_context \<Rightarrow> ctx_event \<Rightarrow> bool" where
  "rm_deliverable w n s e =
     (case e of
        Ctx_request req \<Rightarrow> False
      | Ctx_timeout ms \<Rightarrow> False
      | Ctx_log t ts us \<Rightarrow> rm_appended t s
      | Ctx_tm_commit m \<Rightarrow> Send_TX_TM_COMMIT n m \<in> set (tx_coordinator.out' (tm w))
      | Ctx_tm_abort m \<Rightarrow> Send_TX_TM_ABORT n m \<in> set (tx_coordinator.out' (tm w))
      | Ctx_tm_end \<Rightarrow> (\<exists>m. Send_TX_TM_END n m \<in> set (tx_coordinator.out' (tm w)))
      | _ \<Rightarrow> True)"

inductive tpc_step :: "tpc \<Rightarrow> tpc \<Rightarrow> bool" where
  coordinate: "tm_deliverable w e \<Longrightarrow> tm_step e (tm w) = Some c \<Longrightarrow> tpc_step w (w\<lparr>tm := c\<rparr>)"
| create: "Send_TX_TM_REQUEST n req \<in> set (tx_coordinator.out' (tm w)) \<Longrightarrow> rms w n = None \<Longrightarrow>
    new_tx_context t ms sn (rq_xid req) n dsb shard2node cno (rq_distributed req) False dl = Some s0 \<Longrightarrow>
    ctx_turn (t, a, Ctx_request req) s0 = Some s \<Longrightarrow> tpc_step w (w\<lparr>rms := (rms w)(n \<mapsto> s)\<rparr>)"
| participate: "rms w n = Some s \<Longrightarrow> rm_deliverable w n s e \<Longrightarrow> ctx_turn (t, a, e) s = Some s' \<Longrightarrow>
    tpc_step w (w\<lparr>rms := (rms w)(n \<mapsto> s')\<rparr>)"

definition tpc_start :: "(shard_id_t \<Rightarrow> node_id_t option) \<Rightarrow> tx_request \<Rightarrow> tpc \<Rightarrow> bool" where
  "tpc_start leads req w \<longleftrightarrow> rms w = Map.empty \<and>
     (\<exists>x n. handle_tx_request req (new_tx_coordinator x n leads) = Some (Inr (), tm w))"

section \<open>A participant\<close>

text \<open>\<^term>\<open>cs\<close> and \<^term>\<open>ab\<close>: the coordinator has sent a commit, an abort.\<close>

definition rm_inv :: "bool \<Rightarrow> bool \<Rightarrow> tx_context \<Rightarrow> bool" where
  "rm_inv cs ab s \<longleftrightarrow> distributed' s \<and> log_ok s \<and>
     (rm_appended TX_CMD_RM_COMMIT s \<longrightarrow> cs) \<and>
     (rm_appended TX_CMD_RM_PREPARE_COMMIT s \<longrightarrow> state' s \<noteq> rm_state.RM_IDLE \<and> state' s \<noteq> RM_PREPARE_ABORTING) \<and>
     (rm_appended TX_CMD_RM_ABORT s \<longrightarrow> state' s = RM_ABORTING \<or> state' s = RM_ENDED) \<and>
     (rm_appended TX_CMD_RM_PREPARE_COMMIT s \<and> rm_appended TX_CMD_RM_ABORT s \<longrightarrow> ab) \<and>
     (\<forall>d m. Send_TX_RM_PREPARE d m \<in> set (tx_context.out' s) \<longrightarrow>
       pr_source_rg m = TO_RG_ID (tx_context.node_id' s) \<and> (pr_commit m \<longrightarrow> rm_appended TX_CMD_RM_PREPARE_COMMIT s))"

lemma rm_inv_mono: "rm_inv cs ab s \<Longrightarrow> (cs \<Longrightarrow> cs') \<Longrightarrow> (ab \<Longrightarrow> ab') \<Longrightarrow> rm_inv cs' ab' s"
  unfolding rm_inv_def by blast

lemma rm_appended_append:
  assumes "tx_context.out' s' = tx_context.out' s @ es"
  shows "rm_appended t s' \<longleftrightarrow> rm_appended t s \<or>
    list_ex (\<lambda>e. case e of Rm_append ls \<Rightarrow> list_ex (\<lambda>l. tl_log_type l = t) ls | _ \<Rightarrow> False) es"
  by (simp add: rm_appended_def assms)

lemma plain_no_append:
  "list_all plain_effect es \<Longrightarrow> \<not> list_ex (\<lambda>e. case e of Rm_append ls \<Rightarrow> list_ex (\<lambda>l. tl_log_type l = t) ls | _ \<Rightarrow> False) es"
  by (induction es) (auto simp: plain_effect_def split: rm_effect.splits)

text \<open>Moves that append and vote nothing.\<close>

lemma rm_inv_frame:
  assumes inv: "rm_inv cs ab s" and out: "tx_context.out' s' = tx_context.out' s @ es"
    and es: "\<And>t. \<not> list_ex (\<lambda>e. case e of Rm_append ls \<Rightarrow> list_ex (\<lambda>l. tl_log_type l = t) ls | _ \<Rightarrow> False) es"
      "\<And>d m. Send_TX_RM_PREPARE d m \<notin> set es"
    and same: "distributed' s' = distributed' s" "tx_context.node_id' s' = tx_context.node_id' s" "log_ok s \<longrightarrow> log_ok s'"
    and st: "state' s' = state' s \<or> state' s' = RM_ENDED"
  shows "rm_inv cs ab s'"
proof -
  have "rm_appended t s' = rm_appended t s" for t using rm_appended_append[OF out] es(1) by simp
  then show ?thesis using inv es(2) same st unfolding rm_inv_def out by auto
qed

lemma rm_inv_still: "rm_inv cs ab s \<Longrightarrow> still s s' \<Longrightarrow> rm_inv cs ab s'"
proof -
  assume inv: "rm_inv cs ab s" and "still s s'"
  then obtain es where x: "rm_core s' = rm_core s" "log_ok s \<longrightarrow> log_ok s'"
    "tx_context.out' s' = tx_context.out' s @ es" "list_all plain_effect es" by (auto elim: stillE)
  show ?thesis
    by (rule rm_inv_frame[OF inv x(3) plain_no_append[OF x(4)]])
      (use x in \<open>auto simp: rm_core_def list_all_iff plain_effect_def\<close>)
qed

lemma rm_inv_locking: "rm_inv cs ab s \<Longrightarrow> locking s s' \<Longrightarrow> rm_inv cs ab s'"
proof -
  assume inv: "rm_inv cs ab s" and "locking s s'"
  then obtain l es where x: "rm_core s' = rm_core s" "log_ok s \<longrightarrow> log_ok s'"
    "tx_context.out' s' = tx_context.out' s @ es" "list_all (\<lambda>e. e = Lock_row l \<or> plain_effect e) es" by (auto elim: lockingE)
  have "\<not> list_ex (\<lambda>e. case e of Rm_append ls \<Rightarrow> list_ex (\<lambda>l. tl_log_type l = t) ls | _ \<Rightarrow> False) es" for t
    using x(4) by (induction es) (auto simp: plain_effect_def split: rm_effect.splits)
  then show ?thesis
    by (rule rm_inv_frame[OF inv x(3)]) (use x in \<open>auto simp: rm_core_def list_all_iff plain_effect_def\<close>)
qed

text \<open>A forced entry: one entry of the type is appended, nothing else changes but the state.\<close>

lemma rm_inv_forced:
  assumes inv: "rm_inv cs ab s" and st: "still s t" and f: "forced ty r t s'"
  obtains "distributed' s'" "log_ok s'" "state' s' = r" "tx_context.node_id' s' = tx_context.node_id' s"
    "\<And>t. rm_appended t s' \<longleftrightarrow> rm_appended t s \<or> t = ty"
    "\<And>d m. Send_TX_RM_PREPARE d m \<in> set (tx_context.out' s') \<longleftrightarrow> Send_TX_RM_PREPARE d m \<in> set (tx_context.out' s)"
proof -
  have lo: "log_ok s" "distributed' s" using inv by (simp_all add: rm_inv_def)
  obtain es l where x: "rm_core s' = rm_core (s\<lparr>state' := r\<rparr>)" "log_ok s'"
    "tx_context.out' s' = tx_context.out' s @ es @ [Rm_append [l]]" "list_all plain_effect es" "tl_log_type l = ty"
    using still_forced[OF st f] lo by auto
  have "rm_appended t s' \<longleftrightarrow> rm_appended t s \<or> t = ty" for t
    using rm_appended_append[OF x(3), of t] plain_no_append[OF x(4), of t] x(5) by auto
  moreover have "Send_TX_RM_PREPARE d m \<in> set (tx_context.out' s') \<longleftrightarrow> Send_TX_RM_PREPARE d m \<in> set (tx_context.out' s)" for d m
    using x(3,4) by (auto simp: list_all_iff plain_effect_def)
  ultimately show thesis using that x(1,2) lo(2) by (simp add: rm_core_def)
qed

lemma rm_move_inv:
  assumes move: "rm_move e s s'" and inv: "rm_inv cs ab s"
    and ok: "\<And>m. e = Ctx_tm_commit m \<Longrightarrow> cs" "\<And>m. e = Ctx_tm_abort m \<Longrightarrow> ab"
      "\<And>t ts us. e = Ctx_log t ts us \<Longrightarrow> rm_appended t s"
  shows "rm_inv cs ab s'"
  using move inv ok
proof (induction rule: rm_move.induct)
  case (quiet s s' e)
  then show ?case using rm_inv_still by blast
next
  case (lock s s' e)
  then show ?case using rm_inv_locking by blast
next
  case (prepare s t s' e)
  from rm_inv_forced[OF prepare(5,3,4)] show ?case
    using prepare(1,5) unfolding rm_inv_def by (metis rm_state.distinct tx_cmd_type.distinct)
next
  case (refuse s t s' e)
  from rm_inv_forced[OF refuse(5,3,4)] show ?case
    using refuse(1,5) unfolding rm_inv_def by (metis rm_state.distinct tx_cmd_type.distinct)
next
  case (commit s t s' e)
  then show ?case by (simp add: rm_inv_def)
next
  case (commit2 s s' m)
  from rm_inv_forced[OF commit2(3) still_refl commit2(2)] show ?case
    using commit2(1,3,4) unfolding rm_inv_def by (metis rm_state.distinct tx_cmd_type.distinct)
next
  case (abort s t s' e)
  from rm_inv_forced[OF abort(4,2,3)] show ?case
    using abort(1,4) unfolding rm_inv_def by (metis rm_state.distinct tx_cmd_type.distinct)
next
  case (abort2 s s' m)
  from rm_inv_forced[OF abort2(3) still_refl abort2(2)] show ?case
    using abort2(1,3,5) unfolding rm_inv_def by (metis rm_state.distinct tx_cmd_type.distinct)
next
  case (vote t c s s' ts us)
  obtain n m where x: "rm_core s' = rm_core s" "log_ok s'" "tx_context.out' s' = tx_context.out' s @ [Send_TX_RM_PREPARE n m]"
    "pr_commit m = c" "pr_source_rg m = TO_RG_ID (tx_context.node_id' s)"
    using vote(2) by (auto simp: voted_def)
  have app: "rm_appended u s' = rm_appended u s" for u by (simp add: rm_appended_def x(3))
  have "rm_appended t s" using vote(6) by blast
  then show ?case
    using vote(1,3) x unfolding rm_inv_def app by (auto simp: rm_core_def split: if_splits)
next
  case (release t s s' ts us)
  obtain es where x: "rm_core s' = rm_core (s\<lparr>state' := RM_ENDED, end' := True\<rparr>)" "tx_context.out' s' = tx_context.out' s @ es"
    "list_all (\<lambda>e. plain_effect e \<or> (\<exists>l. e = Unlock_row l \<and> \<not> read_only' s)) es"
    using release(2) unfolding released_def by blast
  have "\<not> list_ex (\<lambda>e. case e of Rm_append ls \<Rightarrow> list_ex (\<lambda>l. tl_log_type l = t) ls | _ \<Rightarrow> False) es" for t
    using x(3) by (induction es) (auto simp: plain_effect_def split: rm_effect.splits)
  then show ?case
    by (rule rm_inv_frame[OF release(4) x(2)]) (use x release(3) in \<open>auto simp: rm_core_def list_all_iff plain_effect_def\<close>)
next
  case (read_only s t s' e)
  then show ?case by (simp add: rm_inv_def)
next
  case (ended s)
  have e: "tx_context.out' (tx_ended s) = tx_context.out' s @ [Fn_tx_state (tx_context.xid' s) RM_ENDED]"
    by (simp add: tx_ended_def rm_emit_def)
  show ?case
    by (rule rm_inv_frame[OF ended(1) e]) (simp_all add: tx_ended_def rm_emit_def log_ok_def)
qed

lemma rm_move_node: "rm_move e s s' \<Longrightarrow> tx_context.node_id' s' = tx_context.node_id' s"
  by (induction rule: rm_move.induct)
    (auto simp: voted_def released_def still_def locking_def forced_def rm_core_def tx_ended_def rm_emit_def)

lemma request_rm_inv:
  assumes new: "new_tx_context t ms sn x n dsb shard2node cno dist False dl = Some s0" and dist
    and turn: "ctx_turn (t', a, Ctx_request req) s0 = Some s"
  shows "rm_inv cs ab s" "tx_context.node_id' s = n"
proof -
  have s0: "tx_context.out' s0 = []" "distributed' s0" "log_entry' s0 = []" "tx_context.node_id' s0 = n" "state' s0 = rm_state.RM_IDLE"
    using new \<open>dist\<close> by (auto simp: new_tx_context_def split: if_splits)
  obtain u where u: "handle_next_operation a u = Some s \<or> s = u" "tx_context.out' u = []" "distributed' u"
    "log_entry' u = []" "tx_context.node_id' u = n"
    using process_tx_request_start[of a req "s0\<lparr>now' := t'\<rparr>" s] turn s0 by (auto simp: ctx_turn_def ctx_handle_def)
  have inv: "rm_inv cs ab u" using u by (simp add: rm_inv_def rm_appended_def log_ok_def)
  have move: "rm_move (Ctx_request req) u s"
    using u(1) handle_next_move[OF _ still_refl] rm_move.quiet[OF still_refl] by auto
  then show "rm_inv cs ab s" using rm_move_inv[OF _ inv] by blast
  show "tx_context.node_id' s = n" using rm_move_node[OF move] u(5) by simp
qed

section \<open>The invariant of the system\<close>

text \<open>The shards whose votes to commit are on the network.\<close>

definition votes :: "tpc \<Rightarrow> shard_id_t set" where
  "votes w = {pr_source_rg m |n s d m. rms w n = Some s \<and> Send_TX_RM_PREPARE d m \<in> set (tx_context.out' s) \<and> pr_commit m}"

definition tpc_inv :: "shard_id_t set \<Rightarrow> (shard_id_t \<Rightarrow> node_id_t option) \<Rightarrow> tpc \<Rightarrow> bool" where
  "tpc_inv K leads w \<longleftrightarrow> tm_inv (votes w) (tm w) \<and> tm_wf (tm w) \<and> lead_node' (tm w) = leads \<and>
     fst ` set (rm_tracer' (tm w)) = K \<and>
     (\<forall>n s. rms w n = Some s \<longrightarrow> rm_inv (commit_sent (tm w)) (abort_sent (tm w)) s \<and> tx_context.node_id' s = n \<and>
       (\<exists>sd \<in> K. leads sd = Some n))"

lemma tm_inv_mono: "tm_inv V c \<Longrightarrow> V \<subseteq> V' \<Longrightarrow> tm_inv V' c"
  unfolding tm_inv_def by blast

lemma sent_iff:
  "commit_sent c \<longleftrightarrow> (\<exists>n m. Send_TX_TM_COMMIT n m \<in> set (tx_coordinator.out' c))"
  "abort_sent c \<longleftrightarrow> (\<exists>n m. Send_TX_TM_ABORT n m \<in> set (tx_coordinator.out' c))"
proof -
  have "list_ex (\<lambda>e. case e of Send_TX_TM_COMMIT n d \<Rightarrow> True | _ \<Rightarrow> False) es \<longleftrightarrow> (\<exists>n m. Send_TX_TM_COMMIT n m \<in> set es)"
    "list_ex (\<lambda>e. case e of Send_TX_TM_ABORT n d \<Rightarrow> True | _ \<Rightarrow> False) es \<longleftrightarrow> (\<exists>n m. Send_TX_TM_ABORT n m \<in> set es)" for es
    by (induction es) (auto split: tm_effect.split)
  then show "commit_sent c \<longleftrightarrow> (\<exists>n m. Send_TX_TM_COMMIT n m \<in> set (tx_coordinator.out' c))"
    "abort_sent c \<longleftrightarrow> (\<exists>n m. Send_TX_TM_ABORT n m \<in> set (tx_coordinator.out' c))"
    by (simp_all add: commit_sent_def abort_sent_def)
qed

lemma tpc_inv_coordinate:
  assumes inv: "tpc_inv K leads w" and del: "tm_deliverable w e" and run: "tm_step e (tm w) = Some c"
  shows "tpc_inv K leads (w\<lparr>tm := c\<rparr>)"
proof -
  have i: "tm_inv (votes w) (tm w)" "tm_wf (tm w)" "lead_node' (tm w) = leads" using inv by (simp_all add: tpc_inv_def)
  have "tm_ok (votes w) e (tm w)"
    using del by (auto simp: tm_ok_def tm_deliverable_def votes_def split: tm_event.splits)
  then have c: "tm_inv (votes w) c" by (rule tm_step_inv[OF i(1) _ run])
  have g: "tm_wf c" "tm_grows (tm w) c" using tm_step_wf[OF i(2,1) run] by simp_all
  then have mono: "commit_sent (tm w) \<Longrightarrow> commit_sent c" "abort_sent (tm w) \<Longrightarrow> abort_sent c"
    and keep: "lead_node' c = leads" "fst ` set (rm_tracer' c) = fst ` set (rm_tracer' (tm w))"
    using i(3) by (auto simp: tm_grows_def commit_sent_def abort_sent_def)
  have rms: "rm_inv (commit_sent c) (abort_sent c) s" if mem: "rms w n = Some s" for n s
    by (rule rm_inv_mono[OF _ mono]) (use inv mem in \<open>simp_all add: tpc_inv_def\<close>)
  have "votes (w\<lparr>tm := c\<rparr>) = votes w" by (simp add: votes_def)
  then show ?thesis
    using inv c g(1) keep rms unfolding tpc_inv_def by simp
qed

lemma tpc_inv_rm:
  assumes inv: "tpc_inv K leads w" and s': "rm_inv (commit_sent (tm w)) (abort_sent (tm w)) s'" "tx_context.node_id' s' = n"
    and lead: "\<exists>sd \<in> K. leads sd = Some n"
    and old: "\<And>s. rms w n = Some s \<Longrightarrow> set (tx_context.out' s) \<subseteq> set (tx_context.out' s')"
  shows "tpc_inv K leads (w\<lparr>rms := (rms w)(n \<mapsto> s')\<rparr>)"
proof -
  have "votes w \<subseteq> votes (w\<lparr>rms := (rms w)(n \<mapsto> s')\<rparr>)"
  proof
    fix v assume "v \<in> votes w"
    then obtain k s d m where v: "v = pr_source_rg m" "rms w k = Some s" "Send_TX_RM_PREPARE d m \<in> set (tx_context.out' s)" "pr_commit m"
      by (auto simp: votes_def)
    show "v \<in> votes (w\<lparr>rms := (rms w)(n \<mapsto> s')\<rparr>)"
      using v old[of s] unfolding votes_def by (cases "k = n") (simp; blast)+
  qed
  then show ?thesis
    using inv s' lead tm_inv_mono unfolding tpc_inv_def by auto
qed

lemma rm_move_out:
  assumes "rm_move e s s'"
  shows "set (tx_context.out' s) \<subseteq> set (tx_context.out' s')"
proof -
  have f: "set (tx_context.out' s) \<subseteq> set (tx_context.out' s')" if "still s t" "forced ty r t s'" for s t s' ty r
    using still_forced[OF that] by auto
  show ?thesis
    using assms by (induction rule: rm_move.induct)
      (auto simp: voted_def released_def still_def locking_def forced_def tx_ended_def rm_emit_def)
qed

lemma tpc_step_inv: "tpc_step w w' \<Longrightarrow> tpc_inv K leads w \<Longrightarrow> tpc_inv K leads w'"
proof (induction rule: tpc_step.induct)
  case (coordinate w e c)
  then show ?case using tpc_inv_coordinate by blast
next
  case (create n req w t ms sn dsb shard2node cno dl s0 a s)
  have "request_ok (tm w) (Send_TX_TM_REQUEST n req)" using create(1,5) unfolding tpc_inv_def tm_wf_def by blast
  then have req: "rq_distributed req" "\<exists>sd \<in> K. leads sd = Some n"
    using create(5) by (auto simp: request_ok_def tpc_inv_def)
  show ?case
    by (rule tpc_inv_rm[OF create(5)])
      (use req create request_rm_inv[OF create(3) _ create(4)] in \<open>auto simp: tpc_inv_def\<close>)
next
  case (participate w n s e t a s')
  have "is_turn e" using participate(2) by (auto simp: rm_deliverable_def is_turn_def split: ctx_event.splits)
  then have move: "rm_move e (s\<lparr>now' := t\<rparr>) s'"
    using ctx_handle_move participate(3) by (auto simp: ctx_turn_def)
  have s: "rm_inv (commit_sent (tm w)) (abort_sent (tm w)) s" "tx_context.node_id' s = n"
    "\<exists>sd \<in> K. leads sd = Some n"
    using participate(1,4) by (auto simp: tpc_inv_def)
  have "rm_inv (commit_sent (tm w)) (abort_sent (tm w)) (s\<lparr>now' := t\<rparr>)"
    using s(1) by (simp add: rm_inv_def rm_appended_def log_ok_def)
  then have "rm_inv (commit_sent (tm w)) (abort_sent (tm w)) s'"
    by (rule rm_move_inv[OF move])
      (use participate(2) in \<open>auto simp: rm_deliverable_def sent_iff rm_appended_def split: ctx_event.splits\<close>)
  moreover have "tx_context.node_id' s' = n" using rm_move_node[OF move] s(2) by simp
  moreover have "set (tx_context.out' s) \<subseteq> set (tx_context.out' s')" using rm_move_out[OF move] by simp
  ultimately show ?case using tpc_inv_rm[OF participate(4) _ _ s(3)] participate(1) by simp
qed

lemma tpc_start_inv: "tpc_start leads req w \<Longrightarrow> tpc_inv (to_sd_id ` set (rq_operations req)) leads w"
proof -
  assume "tpc_start leads req w"
  then obtain x n where r: "rms w = Map.empty" "handle_tx_request req (new_tx_coordinator x n leads) = Some (Inr (), tm w)"
    by (auto simp: tpc_start_def)
  note st = handle_tx_request_started(1)[OF r(2)]
  show ?thesis
    using started_inv[OF st] started_wf[OF st] started_fields(3)[OF st] handle_tx_request_started(2)[OF r(2)] r(1)
    by (simp add: tpc_inv_def)
qed

lemma tpc_steps_inv: "tpc_step\<^sup>*\<^sup>* w w' \<Longrightarrow> tpc_inv K leads w \<Longrightarrow> tpc_inv K leads w'"
  by (induction rule: rtranclp_induct) (blast intro: tpc_step_inv)+

text \<open>
  (C11) Atomic commitment.  In every run of a coordinator and the participants of a
  transaction, under any loss, delay, reordering and repetition of messages and
  any aborts: once one participant has appended its commit entry, the coordinator
  has decided to commit and sends no abort, and the lead of every shard of the
  transaction has appended its prepare entry and never appends an abort entry.
  The configuration names for each shard a lead of that shard.
\<close>

theorem two_phase_commit_atomic:
  assumes "\<forall>sd n. leads sd = Some n \<longrightarrow> TO_RG_ID n = sd"
    and "tpc_start leads req w0" "tpc_step\<^sup>*\<^sup>* w0 w"
    and "rms w n = Some s" "rm_appended TX_CMD_RM_COMMIT s"
  shows "commit_sent (tm w) \<and> \<not> abort_sent (tm w) \<and>
    (\<forall>sd. sd \<in> to_sd_id ` set (rq_operations req) \<longrightarrow>
      (\<exists>n' s'. leads sd = Some n' \<and> rms w n' = Some s' \<and> rm_appended TX_CMD_RM_PREPARE_COMMIT s' \<and>
        \<not> rm_appended TX_CMD_RM_ABORT s'))"
proof -
  have inv: "tpc_inv (to_sd_id ` set (rq_operations req)) leads w"
    by (rule tpc_steps_inv[OF assms(3) tpc_start_inv[OF assms(2)]])
  then have tm: "tm_inv (votes w) (tm w)" and rm: "\<And>n s. rms w n = Some s \<Longrightarrow>
      rm_inv (commit_sent (tm w)) (abort_sent (tm w)) s \<and> tx_context.node_id' s = n \<and> (\<exists>sd. leads sd = Some n)"
    and K: "fst ` set (rm_tracer' (tm w)) = to_sd_id ` set (rq_operations req)"
    unfolding tpc_inv_def by (simp_all, blast)
  have cs: "commit_sent (tm w)" using rm[OF assms(4)] assms(5) by (simp add: rm_inv_def)
  then have na: "\<not> abort_sent (tm w)" using tm_invD(4,5)[OF tm] by blast
  have "\<exists>n' s'. leads sd = Some n' \<and> rms w n' = Some s' \<and> rm_appended TX_CMD_RM_PREPARE_COMMIT s' \<and> \<not> rm_appended TX_CMD_RM_ABORT s'"
    if sd: "sd \<in> to_sd_id ` set (rq_operations req)" for sd
  proof -
    have "fst ` set (roster (tm w)) = fst ` set (rm_tracer' (tm w))"
      using map_fst_roster[of "tm w"] by (metis list.set_map)
    then have "sd \<in> votes w" using tm_invD(4,9)[OF tm] cs K sd by auto
    then obtain n' s' d m where v: "sd = pr_source_rg m" "rms w n' = Some s'"
      "Send_TX_RM_PREPARE d m \<in> set (tx_context.out' s')" "pr_commit m"
      by (auto simp: votes_def)
    have i: "rm_inv (commit_sent (tm w)) (abort_sent (tm w)) s'" "tx_context.node_id' s' = n'" "\<exists>sd. leads sd = Some n'"
      using rm[OF v(2)] by auto
    have "sd = TO_RG_ID n'" "rm_appended TX_CMD_RM_PREPARE_COMMIT s'"
      using i(1) v unfolding rm_inv_def i(2) by blast+
    moreover have "\<not> rm_appended TX_CMD_RM_ABORT s'" using i(1) na calculation(2) by (auto simp: rm_inv_def)
    moreover obtain sd' where "leads sd' = Some n'" using i(3) by blast
    ultimately show ?thesis using assms(1) v(2) by auto
  qed
  then show ?thesis using cs na by blast
qed

section \<open>An execution\<close>

text \<open>
  The steps as a program: \<open>From_rm n i\<close> delivers the \<open>i\<close>-th effect of the participant at \<open>n\<close> to the
  coordinator, \<open>From_tm n i\<close> the \<open>i\<close>-th effect of the coordinator to \<open>n\<close>.
\<close>

datatype tpc_action = From_rm node_id_t nat | From_tm node_id_t nat | Log_tm tx_cmd_type | At_rm node_id_t ctx_event

definition demo_caches :: access_mgr where
  "demo_caches = the (access_put 1 2 5 [1] (the (access_put 1 1 5 [1] (new_access_mgr [1, 2] 2))))"

definition tm_exec :: "tm_event \<Rightarrow> tpc \<Rightarrow> tpc option" where
  "tm_exec e w = map_option (\<lambda>c. w\<lparr>tm := c\<rparr>) (tm_step e (tm w))"

definition rm_exec :: "node_id_t \<Rightarrow> ctx_event \<Rightarrow> tpc \<Rightarrow> tpc option" where
  "rm_exec n e w = do { s \<leftarrow> rms w n; s' \<leftarrow> ctx_turn (0, demo_caches, e) s; Some (w\<lparr>rms := (rms w)(n \<mapsto> s')\<rparr>) }"

definition tpc_exec :: "tpc_action \<Rightarrow> tpc \<Rightarrow> tpc option" where
  "tpc_exec act w =
     (case act of
        From_rm n i \<Rightarrow> do {
          s \<leftarrow> rms w n;
          (if i < length (tx_context.out' s) then
             (case tx_context.out' s ! i of
                Send_TX_RM_PREPARE d m \<Rightarrow> tm_exec (Tm_prepare m) w
              | Send_TX_RM_ACK d m \<Rightarrow> tm_exec (Tm_ack m) w
              | _ \<Rightarrow> None) else None) }
      | From_tm n i \<Rightarrow>
          (if i < length (tx_coordinator.out' (tm w)) then
             (case tx_coordinator.out' (tm w) ! i of
                Send_TX_TM_REQUEST k req \<Rightarrow>
                  (if k = n \<and> rms w n = None then do {
                     s0 \<leftarrow> new_tx_context 0 0 True (rq_xid req) n (Some 65796) Map.empty 1 (rq_distributed req) False True;
                     s \<leftarrow> ctx_turn (0, demo_caches, Ctx_request req) s0;
                     Some (w\<lparr>rms := (rms w)(n \<mapsto> s)\<rparr>) } else None)
              | Send_TX_TM_COMMIT k m \<Rightarrow> (if k = n then rm_exec n (Ctx_tm_commit m) w else None)
              | Send_TX_TM_ABORT k m \<Rightarrow> (if k = n then rm_exec n (Ctx_tm_abort m) w else None)
              | _ \<Rightarrow> None) else None)
      | Log_tm t \<Rightarrow> (if appended t (tm w) then tm_exec (Tm_log_commit (\<lambda>_. True) t) w else None)
      | At_rm n e \<Rightarrow> do {
          s \<leftarrow> rms w n;
          (case e of
             Ctx_locked ec \<Rightarrow> rm_exec n e w
           | Ctx_op_done \<Rightarrow> rm_exec n e w
           | Ctx_log t ts us \<Rightarrow> (if rm_appended t s then rm_exec n e w else None)
           | _ \<Rightarrow> None) })"

lemma tm_exec_step: "tm_exec e w = Some w' \<Longrightarrow> tm_deliverable w e \<Longrightarrow> tpc_step w w'"
  using tpc_step.coordinate by (auto simp: tm_exec_def)

lemma rm_exec_step:
  assumes "rm_exec n e w = Some w'" "rms w n = Some s" "rm_deliverable w n s e"
  shows "tpc_step w w'"
proof -
  obtain s' where "ctx_turn (0, demo_caches, e) s = Some s'" "w' = w\<lparr>rms := (rms w)(n \<mapsto> s')\<rparr>"
    using assms(1,2) by (auto simp: rm_exec_def dest!: bind_SomeD)
  then show ?thesis using tpc_step.participate[OF assms(2,3)] by simp
qed

lemma tpc_exec_step: "tpc_exec act w = Some w' \<Longrightarrow> tpc_step w w'"
proof (cases act)
  case (From_rm n i)
  assume run: "tpc_exec act w = Some w'"
  then obtain s where s: "rms w n = Some s" "i < length (tx_context.out' s)"
    by (auto simp: tpc_exec_def From_rm dest!: bind_SomeD split: if_splits)
  have mem: "tx_context.out' s ! i \<in> set (tx_context.out' s)" using s(2) by simp
  show ?thesis
  proof (cases "tx_context.out' s ! i")
    case (Send_TX_RM_PREPARE d m)
    then have "tm_exec (Tm_prepare m) w = Some w'" using run s by (simp add: tpc_exec_def From_rm)
    moreover have "tm_deliverable w (Tm_prepare m)"
      using s(1) mem Send_TX_RM_PREPARE by (auto simp: tm_deliverable_def)
    ultimately show ?thesis by (rule tm_exec_step)
  next
    case (Send_TX_RM_ACK d m)
    then have "tm_exec (Tm_ack m) w = Some w'" using run s by (simp add: tpc_exec_def From_rm)
    moreover have "tm_deliverable w (Tm_ack m)"
      using s(1) mem Send_TX_RM_ACK by (auto simp: tm_deliverable_def)
    ultimately show ?thesis by (rule tm_exec_step)
  qed (use run s in \<open>auto simp: tpc_exec_def From_rm\<close>)
next
  case (From_tm n i)
  assume run: "tpc_exec act w = Some w'"
  then have i: "i < length (tx_coordinator.out' (tm w))" by (simp add: tpc_exec_def From_tm split: if_splits)
  have mem: "tx_coordinator.out' (tm w) ! i \<in> set (tx_coordinator.out' (tm w))" using i by simp
  show ?thesis
  proof (cases "tx_coordinator.out' (tm w) ! i")
    case (Send_TX_TM_REQUEST k req)
    then obtain s0 s where "k = n" "rms w n = None"
      "new_tx_context 0 0 True (rq_xid req) n (Some 65796) Map.empty 1 (rq_distributed req) False True = Some s0"
      "ctx_turn (0, demo_caches, Ctx_request req) s0 = Some s" "w' = w\<lparr>rms := (rms w)(n \<mapsto> s)\<rparr>"
      using run i by (auto simp: tpc_exec_def From_tm dest!: bind_SomeD split: if_splits)
    then show ?thesis using tpc_step.create[OF _ _ _ ] mem Send_TX_TM_REQUEST by simp
  next
    case (Send_TX_TM_COMMIT k m)
    then have "k = n" "rm_exec n (Ctx_tm_commit m) w = Some w'"
      using run i by (auto simp: tpc_exec_def From_tm split: if_splits)
    then show ?thesis
      using rm_exec_step[of n "Ctx_tm_commit m"] mem Send_TX_TM_COMMIT
      by (cases "rms w n") (auto simp: rm_deliverable_def rm_exec_def)
  next
    case (Send_TX_TM_ABORT k m)
    then have "k = n" "rm_exec n (Ctx_tm_abort m) w = Some w'"
      using run i by (auto simp: tpc_exec_def From_tm split: if_splits)
    then show ?thesis
      using rm_exec_step[of n "Ctx_tm_abort m"] mem Send_TX_TM_ABORT
      by (cases "rms w n") (auto simp: rm_deliverable_def rm_exec_def)
  qed (use run i in \<open>auto simp: tpc_exec_def From_tm\<close>)
next
  case (Log_tm t)
  assume "tpc_exec act w = Some w'"
  then show ?thesis
    using tm_exec_step[of "Tm_log_commit (\<lambda>_. True) t"] by (auto simp: tpc_exec_def Log_tm tm_deliverable_def split: if_splits)
next
  case (At_rm n e)
  assume run: "tpc_exec act w = Some w'"
  then obtain s where s: "rms w n = Some s" by (auto simp: tpc_exec_def At_rm dest!: bind_SomeD)
  then have "rm_exec n e w = Some w'" "rm_deliverable w n s e"
    using run by (auto simp: tpc_exec_def At_rm rm_deliverable_def split: ctx_event.splits if_splits)
  then show ?thesis using rm_exec_step s by blast
qed

lemma tpc_exec_steps: "run tpc_exec acts w = Some w' \<Longrightarrow> tpc_step\<^sup>*\<^sup>* w w'"
proof (induction acts arbitrary: w)
  case (Cons act acts)
  then obtain w1 where "tpc_exec act w = Some w1" "run tpc_exec acts w1 = Some w'" by (auto split: option.splits)
  then show ?case using Cons.IH[of w1] tpc_exec_step[of act w w1] by (meson converse_rtranclp_into_rtranclp)
qed simp

definition demo_update :: "shard_id_t \<Rightarrow> tx_operation" where
  "demo_update sd = no_operation\<lparr>to_op_type := TX_OP_UPDATE, to_sd_id := sd,
     to_tuple_row := Some \<lparr>tr_table_id = 1, tr_shard_id = ucast sd, tr_tuple_id = 5, tr_tuple = [2]\<rparr>\<rparr>"

definition demo_transfer :: tx_request where
  "demo_transfer = no_request\<lparr>rq_oneshot := True, rq_distributed := True, rq_operations := [demo_update 1, demo_update 2]\<rparr>"

definition demo_system :: tpc where
  "demo_system = \<lparr>tm = snd (the (handle_tx_request demo_transfer (new_tx_coordinator 7 65793 demo_leads))), rms = Map.empty\<rparr>"

lemma demo_system_start: "tpc_start demo_leads demo_transfer demo_system"
proof -
  have "handle_tx_request demo_transfer (new_tx_coordinator 7 65793 demo_leads) = Some (Inr (), tm demo_system)"
    by code_simp
  then show ?thesis unfolding tpc_start_def demo_system_def by auto
qed

definition demo_actions :: "tpc_action list" where
  "demo_actions = [Log_tm TX_CMD_TM_BEGIN, From_tm 65793 1, From_tm 131329 2,
     At_rm 65793 (Ctx_locked EC_OK), At_rm 65793 Ctx_op_done, At_rm 131329 (Ctx_locked EC_OK), At_rm 131329 Ctx_op_done,
     At_rm 65793 (Ctx_log TX_CMD_RM_PREPARE_COMMIT 0 0), At_rm 131329 (Ctx_log TX_CMD_RM_PREPARE_COMMIT 0 0),
     From_rm 131329 2, From_rm 65793 2, Log_tm TX_CMD_TM_COMMIT, From_tm 65793 4, From_tm 131329 5]"

definition demo_finished :: tpc where
  "demo_finished = the (run tpc_exec demo_actions demo_system)"

theorem two_phase_commit_atomic_witness:
  "\<exists>s. rms demo_finished 131329 = Some s \<and> rm_appended TX_CMD_RM_COMMIT s \<and>
    commit_sent (tm demo_finished) \<and> \<not> abort_sent (tm demo_finished) \<and>
    (\<forall>sd. sd \<in> {1, 2} \<longrightarrow>
      (\<exists>n' s'. demo_leads sd = Some n' \<and> rms demo_finished n' = Some s' \<and> rm_appended TX_CMD_RM_PREPARE_COMMIT s' \<and>
        \<not> rm_appended TX_CMD_RM_ABORT s'))"
proof -
  have "run tpc_exec demo_actions demo_system \<noteq> None" by code_simp
  then have steps: "tpc_step\<^sup>*\<^sup>* demo_system demo_finished"
    by (intro tpc_exec_steps[of demo_actions]) (auto simp: demo_finished_def)
  have leads: "\<forall>sd n. demo_leads sd = Some n \<longrightarrow> TO_RG_ID n = sd"
    by (simp add: demo_leads_def TO_RG_ID_def)
  have "rms demo_finished 131329 \<noteq> None" "rm_appended TX_CMD_RM_COMMIT (the (rms demo_finished 131329))" by code_simp+
  then obtain s where s: "rms demo_finished 131329 = Some s" "rm_appended TX_CMD_RM_COMMIT s" by auto
  have "to_sd_id ` set (rq_operations demo_transfer) = {1, 2}"
    by (simp add: demo_transfer_def demo_update_def)
  then show ?thesis
    using two_phase_commit_atomic[OF leads demo_system_start steps s] s by simp
qed

end
