(* ===== verification/Calvin_Sequencer.thy ===== *)
theory Calvin_Sequencer
  imports Tx_Proto
begin

text \<open>
  The sequencer of the deterministic build, \<^verbatim>\<open>src/concurrency/calvin_sequencer.cpp\<close>:
  the requests a block receives are split by shard, sent to the lead of
  every shard once per epoch, collected from all shards, sorted by
  transaction identifier and handed to the scheduler.

  A \<^verbatim>\<open>std::map\<close> that is iterated is an association list in key order; the
  lead nodes, an \<^verbatim>\<open>unordered_map\<close>, are an association list in any order.  A
  \<^verbatim>\<open>std::set\<close> is a set, iterated in increasing order.  \<^verbatim>\<open>out'\<close> lists
  the messages sent, the timers armed and the calls of the scheduler.
\<close>

section \<open>Ordered maps\<close>

fun omap_put :: "'k::linorder \<Rightarrow> 'v \<Rightarrow> ('k \<times> 'v) list \<Rightarrow> ('k \<times> 'v) list" where
  "omap_put k v [] = [(k, v)]"
| "omap_put k v ((k', v') # m) =
     (if k < k' then (k, v) # (k', v') # m
      else if k = k' then (k, v) # m
      else (k', v') # omap_put k v m)"

definition omap :: "('k::linorder \<times> 'v) list \<Rightarrow> bool" where
  "omap m \<longleftrightarrow> sorted_wrt (<) (map fst m)"

lemma set_fst_omap_put [simp]: "fst ` set (omap_put k v m) = insert k (fst ` set m)"
  by (induction k v m rule: omap_put.induct) auto

lemma omap_omap_put: "omap m \<Longrightarrow> omap (omap_put k v m)"
proof (induction k v m rule: omap_put.induct)
  case (2 k v k' v' m)
  have "\<forall>a \<in> fst ` set m. k' < a" using 2(2) by (auto simp: omap_def)
  then show ?case using 2 by (auto simp: omap_def)
qed (simp add: omap_def)

lemma map_of_omap_put: "omap m \<Longrightarrow> map_of (omap_put k v m) = (map_of m)(k \<mapsto> v)"
proof (induction k v m rule: omap_put.induct)
  case (2 k v k' v' m)
  have "k \<notin> fst ` set m" if "k < k'" using 2(2) that by (fastforce simp: omap_def)
  then show ?case using 2 by (auto simp: omap_def fun_eq_iff)
qed simp

lemma omap_distinct: "omap m \<Longrightarrow> distinct (map fst m)"
  unfolding omap_def by (simp add: strict_sorted_iff)

lemma omap_Nil [simp]: "omap []"
  by (simp add: omap_def)

section \<open>Messages and state\<close>

record calvin_epoch =
  ce_source :: node_id_t
  ce_dest :: node_id_t
  ce_epoch :: u64
  ce_request :: "tx_request list"

record calvin_epoch_ack =
  ca_source :: node_id_t
  ca_dest :: node_id_t
  ca_epoch :: u64

datatype epoch_state = EPOCH_IDLE | EPOCH_PENDING

record calvin_epoch_ops =
  eo_epoch' :: u64
  eo_shard_ids' :: "shard_id_t set"
  eo_node_ids' :: "node_id_t set"
  eo_reqs' :: "tx_request list"

record local_epoch_ctx =
  le_epoch' :: u64
  le_ack' :: "shard_id_t set"

datatype seq_effect =
    Send_CALVIN_EPOCH node_id_t calvin_epoch
  | Seq_schedule calvin_epoch_ops
  | Seq_tick u32

record calvin_sequencer =
  sq_node_id' :: node_id_t
  sq_num_rg' :: u32
  calvin_epoch_ms' :: u64
  sq_epoch' :: u64
  epoch_state' :: epoch_state
  tx_request_next_epoch' :: "shard_id_t \<Rightarrow> (xid_t \<times> tx_request) list option"
  local_epoch' :: "u64 \<Rightarrow> local_epoch_ctx option"
  sq_leads' :: "(shard_id_t \<times> node_id_t) list"
  epoch_ctx_receive' :: "u64 \<Rightarrow> calvin_epoch_ops option"
  is_lead' :: bool
  is_priority_leader' :: bool
  sq_start' :: bool
  sq_out' :: "seq_effect list"

definition new_calvin_sequencer ::
  "node_id_t \<Rightarrow> u32 \<Rightarrow> u64 \<Rightarrow> (shard_id_t \<times> node_id_t) list \<Rightarrow> calvin_sequencer option" where
  "new_calvin_sequencer node num_rg ms leads = do {
     boost_assert (of_nat (length leads) = (ucast num_rg :: u64));
     Some \<lparr>sq_node_id' = node, sq_num_rg' = num_rg, calvin_epoch_ms' = ms, sq_epoch' = 1,
       epoch_state' = EPOCH_IDLE, tx_request_next_epoch' = Map.empty, local_epoch' = Map.empty,
       sq_leads' = leads, epoch_ctx_receive' = Map.empty, is_lead' = False,
       is_priority_leader' = (map_of leads (TO_RG_ID node) = Some node), sq_start' = False, sq_out' = []\<rparr> }"

section \<open>Operations\<close>

definition seq_emit :: "seq_effect \<Rightarrow> calvin_sequencer \<Rightarrow> calvin_sequencer" where
  "seq_emit e s = s\<lparr>sq_out' := sq_out' s @ [e]\<rparr>"

definition seq_request :: "tx_request \<Rightarrow> tx_operation \<Rightarrow> calvin_sequencer \<Rightarrow> tx_request" where
  "seq_request tx op s = no_request\<lparr>rq_terminal_id := rq_terminal_id tx, rq_xid := rq_xid tx,
     rq_source := sq_node_id' s, rq_operations := [op]\<rparr>"

definition seq_add_operation :: "tx_request \<Rightarrow> tx_operation \<Rightarrow> calvin_sequencer \<Rightarrow> calvin_sequencer" where
  "seq_add_operation tx op s =
     (let next_epoch = tx_request_next_epoch' s in
      case next_epoch (to_sd_id op) of
        None \<Rightarrow> s\<lparr>tx_request_next_epoch' := next_epoch(to_sd_id op \<mapsto> [(rq_xid tx, seq_request tx op s)])\<rparr>
      | Some m \<Rightarrow>
          (case map_of m (rq_xid tx) of
             None \<Rightarrow> s\<lparr>tx_request_next_epoch' :=
               next_epoch(to_sd_id op \<mapsto> omap_put (rq_xid tx) (seq_request tx op s) m)\<rparr>
           | Some t \<Rightarrow> s\<lparr>tx_request_next_epoch' :=
               next_epoch(to_sd_id op \<mapsto> omap_put (rq_xid tx) (t\<lparr>rq_operations := rq_operations t @ [op]\<rparr>) m)\<rparr>))"

definition seq_handle_tx_request :: "tx_request \<Rightarrow> calvin_sequencer \<Rightarrow> calvin_sequencer" where
  "seq_handle_tx_request tx s = fold (seq_add_operation tx) (rq_operations tx) s"

definition seq_start :: "calvin_sequencer \<Rightarrow> calvin_sequencer" where
  "seq_start s = s\<lparr>sq_start' := True\<rparr>"

definition update_local_lead_state :: "bool \<Rightarrow> calvin_sequencer \<Rightarrow> calvin_sequencer" where
  "update_local_lead_state lead s = s\<lparr>is_lead' := lead\<rparr>"

definition epoch_message :: "u64 \<Rightarrow> node_id_t \<Rightarrow> calvin_sequencer \<Rightarrow> calvin_epoch" where
  "epoch_message epoch nid s =
     \<lparr>ce_source = sq_node_id' s, ce_dest = nid, ce_epoch = epoch,
      ce_request = (case tx_request_next_epoch' s (TO_RG_ID nid) of None \<Rightarrow> [] | Some m \<Rightarrow> map snd m)\<rparr>"

fun broadcast_loop ::
  "local_epoch_ctx \<Rightarrow> (shard_id_t \<times> node_id_t) list \<Rightarrow> calvin_sequencer \<Rightarrow> calvin_sequencer option" where
  "broadcast_loop ctx [] s = Some s"
| "broadcast_loop ctx (kv # kvs) s = do {
     boost_assert (TO_RG_ID (fst kv) \<notin> le_ack' ctx);
     broadcast_loop ctx kvs (seq_emit (Send_CALVIN_EPOCH (snd kv) (epoch_message (le_epoch' ctx) (snd kv) s)) s) }"

definition epoch_broadcast_request :: "calvin_sequencer \<Rightarrow> calvin_sequencer option" where
  "epoch_broadcast_request s =
     (if \<not> sq_start' s then Some s
      else if of_nat (length (sq_leads' s)) \<noteq> (ucast (sq_num_rg' s) :: u64) then Some s
      else if \<not> is_lead' s \<or> \<not> is_priority_leader' s then Some s
      else if epoch_state' s = EPOCH_IDLE then do {
        let epoch = \<lparr>le_epoch' = sq_epoch' s, le_ack' = {}\<rparr>;
        let s1 = s\<lparr>local_epoch' := (if local_epoch' s (sq_epoch' s) = None
                     then (local_epoch' s)(sq_epoch' s \<mapsto> epoch) else local_epoch' s),
                   epoch_state' := EPOCH_PENDING\<rparr>;
        s2 \<leftarrow> broadcast_loop epoch (sq_leads' s) s1;
        Some (s2\<lparr>tx_request_next_epoch' := Map.empty, sq_epoch' := sq_epoch' s2 + 1\<rparr>) }
      else Some s)"

definition tick_ms :: "calvin_sequencer \<Rightarrow> u32" where
  "tick_ms s = (let ms = ucast (calvin_epoch_ms' s) in
     if \<not> is_lead' s \<or> \<not> is_priority_leader' s then ms * 10 else ms)"

definition seq_tick :: "calvin_sequencer \<Rightarrow> calvin_sequencer option" where
  "seq_tick s = epoch_broadcast_request (seq_emit (Seq_tick (tick_ms s)) s)"

text \<open>\<^verbatim>\<open>std::sort\<close> leaves the order of requests with equal identifiers open.\<close>

definition reorder_request :: "calvin_epoch_ops \<Rightarrow> calvin_sequencer \<Rightarrow> calvin_sequencer" where
  "reorder_request ctx s =
     (let ctx' = ctx\<lparr>eo_node_ids' := eo_node_ids' ctx \<union> snd ` set (sq_leads' s),
                     eo_reqs' := sort_key rq_xid (eo_reqs' ctx)\<rparr>
      in seq_emit (Seq_schedule ctx') (s\<lparr>epoch_ctx_receive' := (epoch_ctx_receive' s)(eo_epoch' ctx \<mapsto> ctx')\<rparr>))"

definition handle_epoch :: "calvin_epoch \<Rightarrow> calvin_sequencer \<Rightarrow> calvin_sequencer option" where
  "handle_epoch msg s = do {
     boost_assert (sq_node_id' s = ce_dest msg);
     let epoch = ce_epoch msg;
     let ctx = (case epoch_ctx_receive' s epoch of
                  None \<Rightarrow> \<lparr>eo_epoch' = epoch, eo_shard_ids' = {}, eo_node_ids' = {}, eo_reqs' = []\<rparr>
                | Some ctx \<Rightarrow> ctx);
     let s1 = s\<lparr>epoch_ctx_receive' := (epoch_ctx_receive' s)(epoch \<mapsto> ctx)\<rparr>;
     let shard = TO_RG_ID (ce_source msg);
     boost_assert (shard \<noteq> 0);
     (if shard \<notin> eo_shard_ids' ctx then
        let ctx' = ctx\<lparr>eo_shard_ids' := insert shard (eo_shard_ids' ctx),
                       eo_node_ids' := insert (ce_source msg) (eo_node_ids' ctx),
                       eo_reqs' := eo_reqs' ctx @ ce_request msg\<rparr>;
            s2 = s1\<lparr>epoch_ctx_receive' := (epoch_ctx_receive' s1)(epoch \<mapsto> ctx')\<rparr>
        in if of_nat (card (eo_shard_ids' ctx')) = (ucast (sq_num_rg' s) :: u64)
           then Some (reorder_request ctx' s2) else Some s2
      else Some s1) }"

definition handle_epoch_ack :: "calvin_epoch_ack \<Rightarrow> calvin_sequencer \<Rightarrow> calvin_sequencer option" where
  "handle_epoch_ack msg s = do {
     boost_assert (ca_dest msg = sq_node_id' s);
     let shard_id = TO_RG_ID (ca_source msg);
     let epoch = ca_epoch msg;
     (case local_epoch' s epoch of
        None \<Rightarrow> Some s
      | Some ctx \<Rightarrow> do {
          boost_assert (le_epoch' ctx = ca_epoch msg);
          let ctx' = ctx\<lparr>le_ack' := insert shard_id (le_ack' ctx)\<rparr>;
          let s1 = s\<lparr>local_epoch' := (local_epoch' s)(epoch \<mapsto> ctx')\<rparr>;
          (if card (le_ack' ctx') = length (sq_leads' s) then
             Some (s1\<lparr>local_epoch' := (local_epoch' s1)(epoch := None),
                      epoch_ctx_receive' := (epoch_ctx_receive' s1)(epoch := None),
                      epoch_state' := EPOCH_IDLE\<rparr>)
           else Some s1) }) }"

end
