(* ===== verification/Calvin_Epochs.thy ===== *)
theory Calvin_Epochs
  imports Calvin_Sequencer
begin

text \<open>
  The sequencers of a deployment together: epochs are scheduled in order on
  every shard, and the batch of an epoch is what all shards have sent for it,
  in the order of the transaction identifiers.
\<close>

section \<open>Collecting requests\<close>

text \<open>The operations that transactions \<^term>\<open>txs\<close> with identifier \<^term>\<open>x\<close> have on shard \<^term>\<open>sd\<close>.\<close>

definition shard_ops :: "shard_id_t \<Rightarrow> xid_t \<Rightarrow> tx_request list \<Rightarrow> tx_operation list" where
  "shard_ops sd x txs = concat (map (\<lambda>tx. if rq_xid tx = x then filter (\<lambda>op. to_sd_id op = sd) (rq_operations tx) else []) txs)"

definition next_ops :: "shard_id_t \<Rightarrow> xid_t \<Rightarrow> calvin_sequencer \<Rightarrow> tx_operation list" where
  "next_ops sd x s = (case tx_request_next_epoch' s sd of None \<Rightarrow> [] | Some m \<Rightarrow>
     (case map_of m x of None \<Rightarrow> [] | Some t \<Rightarrow> rq_operations t))"

definition next_ok :: "calvin_sequencer \<Rightarrow> bool" where
  "next_ok s \<longleftrightarrow> (\<forall>sd m. tx_request_next_epoch' s sd = Some m \<longrightarrow> omap m \<and>
     (\<forall>x t. map_of m x = Some t \<longrightarrow> rq_xid t = x \<and> rq_source t = sq_node_id' s))"

lemma seq_add_operation_ok:
  assumes "next_ok s"
  shows "next_ok (seq_add_operation tx op s)"
    and "next_ops sd x (seq_add_operation tx op s) =
      next_ops sd x s @ (if rq_xid tx = x \<and> to_sd_id op = sd then [op] else [])"
    and "sq_node_id' (seq_add_operation tx op s) = sq_node_id' s"
proof -
  have om: "omap m" "\<And>x t. map_of m x = Some t \<Longrightarrow> rq_xid t = x \<and> rq_source t = sq_node_id' s"
    if "tx_request_next_epoch' s sd = Some m" for sd m
    using assms that unfolding next_ok_def by blast+
  show "next_ok (seq_add_operation tx op s)"
    using om unfolding seq_add_operation_def Let_def next_ok_def
    by (auto split: option.splits if_splits simp: omap_omap_put map_of_omap_put seq_request_def no_request_def)
      (auto simp: omap_def)
  show "next_ops sd x (seq_add_operation tx op s) =
      next_ops sd x s @ (if rq_xid tx = x \<and> to_sd_id op = sd then [op] else [])"
    using om unfolding seq_add_operation_def Let_def next_ops_def
    by (auto split: option.splits simp: map_of_omap_put seq_request_def)
  show "sq_node_id' (seq_add_operation tx op s) = sq_node_id' s"
    by (simp add: seq_add_operation_def Let_def split: option.split)
qed

lemma seq_add_operation_frame [simp]:
  "sq_out' (seq_add_operation tx op s) = sq_out' s" "sq_epoch' (seq_add_operation tx op s) = sq_epoch' s"
  "epoch_state' (seq_add_operation tx op s) = epoch_state' s" "local_epoch' (seq_add_operation tx op s) = local_epoch' s"
  "epoch_ctx_receive' (seq_add_operation tx op s) = epoch_ctx_receive' s" "sq_leads' (seq_add_operation tx op s) = sq_leads' s"
  "sq_num_rg' (seq_add_operation tx op s) = sq_num_rg' s" "sq_node_id' (seq_add_operation tx op s) = sq_node_id' s"
  by (simp_all add: seq_add_operation_def Let_def split: option.split)

lemma fold_keeps: "(\<And>x s. f (g x s) = f s) \<Longrightarrow> f (fold g xs s) = f s"
  by (induction xs arbitrary: s) simp_all

lemma seq_handle_tx_request_frame [simp]:
  "sq_out' (seq_handle_tx_request tx s) = sq_out' s" "sq_epoch' (seq_handle_tx_request tx s) = sq_epoch' s"
  "epoch_state' (seq_handle_tx_request tx s) = epoch_state' s" "local_epoch' (seq_handle_tx_request tx s) = local_epoch' s"
  "epoch_ctx_receive' (seq_handle_tx_request tx s) = epoch_ctx_receive' s" "sq_leads' (seq_handle_tx_request tx s) = sq_leads' s"
  "sq_num_rg' (seq_handle_tx_request tx s) = sq_num_rg' s" "sq_node_id' (seq_handle_tx_request tx s) = sq_node_id' s"
  by (simp_all add: seq_handle_tx_request_def fold_keeps)

lemma fold_seq_add_operation:
  "next_ok s \<Longrightarrow> next_ok (fold (seq_add_operation tx) ops s) \<and>
    next_ops sd x (fold (seq_add_operation tx) ops s) =
      next_ops sd x s @ (if rq_xid tx = x then filter (\<lambda>op. to_sd_id op = sd) ops else [])"
  by (induction ops arbitrary: s) (auto simp: seq_add_operation_ok)

lemma seq_handle_tx_requests:
  "next_ok s \<Longrightarrow> next_ok (fold seq_handle_tx_request txs s) \<and>
    next_ops sd x (fold seq_handle_tx_request txs s) = next_ops sd x s @ shard_ops sd x txs"
  by (induction txs arbitrary: s) (auto simp: seq_handle_tx_request_def shard_ops_def fold_seq_add_operation)

section \<open>One sequencer\<close>

definition scheduled :: "calvin_sequencer \<Rightarrow> calvin_epoch_ops list" where
  "scheduled s = List.map_filter (\<lambda>e. case e of Seq_schedule c \<Rightarrow> Some c | _ \<Rightarrow> None) (sq_out' s)"

definition sent_epoch :: "calvin_sequencer \<Rightarrow> calvin_epoch \<Rightarrow> bool" where
  "sent_epoch s m \<longleftrightarrow> Send_CALVIN_EPOCH (ce_dest m) m \<in> set (sq_out' s)"

definition seq_config :: "node_id_t \<Rightarrow> (shard_id_t \<times> node_id_t) list \<Rightarrow> calvin_sequencer \<Rightarrow> bool" where
  "seq_config n leads s \<longleftrightarrow> sq_node_id' s = n \<and> sq_leads' s = leads \<and> unat (sq_num_rg' s) = length leads"

lemma scheduled_append: "sq_out' s' = sq_out' s @ es \<Longrightarrow>
    scheduled s' = scheduled s @ List.map_filter (\<lambda>e. case e of Seq_schedule c \<Rightarrow> Some c | _ \<Rightarrow> None) es"
  by (simp add: scheduled_def map_filter_def)

lemma broadcast_loop_Some:
  assumes "broadcast_loop c kvs s = Some s'"
  shows "s' = s\<lparr>sq_out' := sq_out' s @ map (\<lambda>kv. Send_CALVIN_EPOCH (snd kv) (epoch_message (le_epoch' c) (snd kv) s)) kvs\<rparr>"
  using assms
proof (induction c kvs s rule: broadcast_loop.induct)
  case (2 ctx kv kvs s)
  have "epoch_message e n (seq_emit ef s) = epoch_message e n s" for e n ef
    by (simp add: epoch_message_def seq_emit_def)
  then show ?case using 2 by (auto simp: seq_emit_def split: if_splits)
qed simp

lemma broadcast_loop_fresh: "le_ack' c = {} \<Longrightarrow> \<exists>s'. broadcast_loop c kvs s = Some s'"
  by (induction c kvs s rule: broadcast_loop.induct) simp_all

text \<open>A tick either sends nothing, or opens the next epoch and sends it to every lead.\<close>

lemma seq_tick_cases:
  assumes "seq_tick s = Some s'"
  obtains (quiet) "s' = s\<lparr>sq_out' := sq_out' s @ [Seq_tick (tick_ms s)]\<rparr>"
  | (epoch) "epoch_state' s = EPOCH_IDLE" "s' = s\<lparr>local_epoch' := (if local_epoch' s (sq_epoch' s) = None
        then (local_epoch' s)(sq_epoch' s \<mapsto> \<lparr>le_epoch' = sq_epoch' s, le_ack' = {}\<rparr>) else local_epoch' s),
      epoch_state' := EPOCH_PENDING, tx_request_next_epoch' := Map.empty, sq_epoch' := sq_epoch' s + 1,
      sq_out' := sq_out' s @ Seq_tick (tick_ms s) #
        map (\<lambda>kv. Send_CALVIN_EPOCH (snd kv) (epoch_message (sq_epoch' s) (snd kv) s)) (sq_leads' s)\<rparr>"
proof -
  have em: "epoch_message e n (s\<lparr>sq_out' := o1\<rparr>) = epoch_message e n s" "epoch_message e n (s\<lparr>local_epoch' := l\<rparr>) = epoch_message e n s"
    "epoch_message e n (s\<lparr>epoch_state' := st\<rparr>) = epoch_message e n s" for e n o1 l st s
    by (simp_all add: epoch_message_def)
  show ?thesis
    using assms quiet epoch unfolding seq_tick_def epoch_broadcast_request_def Let_def seq_emit_def
    by (auto simp: em split: if_splits dest!: bind_SomeD broadcast_loop_Some)
qed

text \<open>
  What holds of the sequencer \<^term>\<open>s\<close> of node \<^term>\<open>n\<close> when node \<^term>\<open>m\<close> has scheduled \<^term>\<open>D m\<close> epochs
  and \<^term>\<open>I e\<close> are the messages of epoch \<^term>\<open>e\<close> that \<^term>\<open>n\<close> has received.
\<close>

definition round_inv :: "(shard_id_t \<times> node_id_t) list \<Rightarrow> (node_id_t \<Rightarrow> nat) \<Rightarrow> calvin_sequencer \<Rightarrow> bool" where
  "round_inv leads D s \<longleftrightarrow> 1 \<le> unat (sq_epoch' s) \<and>
     (\<forall>m \<in> snd ` set leads. unat (sq_epoch' s) \<le> D m + (if epoch_state' s = EPOCH_IDLE then 1 else 2))"

definition sent_inv :: "(shard_id_t \<times> node_id_t) list \<Rightarrow> node_id_t \<Rightarrow> calvin_sequencer \<Rightarrow> bool" where
  "sent_inv leads n s \<longleftrightarrow>
     (\<forall>m. sent_epoch s m \<longrightarrow> ce_source m = n \<and> ce_dest m \<in> snd ` set leads \<and>
        1 \<le> unat (ce_epoch m) \<and> unat (ce_epoch m) < unat (sq_epoch' s)) \<and>
     (\<forall>m m'. sent_epoch s m \<longrightarrow> sent_epoch s m' \<longrightarrow> ce_dest m = ce_dest m' \<longrightarrow> ce_epoch m = ce_epoch m' \<longrightarrow> m = m')"

definition ack_inv :: "(shard_id_t \<times> node_id_t) list \<Rightarrow> (node_id_t \<Rightarrow> nat) \<Rightarrow> calvin_sequencer \<Rightarrow> bool" where
  "ack_inv leads D s \<longleftrightarrow> (\<forall>e c. local_epoch' s e = Some c \<longrightarrow> epoch_state' s = EPOCH_PENDING \<and>
     Suc (unat e) = unat (sq_epoch' s) \<and> le_ack' c \<subseteq> TO_RG_ID ` {m \<in> snd ` set leads. unat e \<le> D m})"

definition collected :: "(shard_id_t \<times> node_id_t) list \<Rightarrow> calvin_epoch list \<Rightarrow> u64 \<Rightarrow> calvin_epoch_ops option \<Rightarrow> bool" where
  "collected leads ms e ctx = (case ctx of None \<Rightarrow> ms = [] | Some c \<Rightarrow> eo_epoch' c = e \<and>
     eo_shard_ids' c = TO_RG_ID ` ce_source ` set ms \<and> eo_reqs' c = concat (map ce_request ms) \<and>
     eo_node_ids' c \<subseteq> snd ` set leads)"

definition receive_inv :: "(shard_id_t \<times> node_id_t) list \<Rightarrow> nat \<Rightarrow> (u64 \<Rightarrow> calvin_epoch list) \<Rightarrow> calvin_sequencer \<Rightarrow> bool" where
  "receive_inv leads k I s \<longleftrightarrow>
     (\<forall>e. k < unat e \<longrightarrow> collected leads (I e) e (epoch_ctx_receive' s e)) \<and>
     (\<forall>e. 1 \<le> unat e \<longrightarrow> unat e \<le> k \<longrightarrow> ce_source ` set (I e) = snd ` set leads) \<and>
     map (unat \<circ> eo_epoch') (scheduled s) = [1..<Suc k] \<and>
     (\<forall>c \<in> set (scheduled s). eo_node_ids' c \<subseteq> snd ` set leads \<and>
        eo_reqs' c = sort_key rq_xid (concat (map ce_request (I (eo_epoch' c)))))"

definition node_inv ::
  "(shard_id_t \<times> node_id_t) list \<Rightarrow> (node_id_t \<Rightarrow> nat) \<Rightarrow> (u64 \<Rightarrow> calvin_epoch list) \<Rightarrow> node_id_t \<Rightarrow> calvin_sequencer \<Rightarrow> bool" where
  "node_inv leads D I n s \<longleftrightarrow> seq_config n leads s \<and> round_inv leads D s \<and> sent_inv leads n s \<and>
     ack_inv leads D s \<and> receive_inv leads (D n) I s"

lemma round_inv_mono: "round_inv leads D s \<Longrightarrow> (\<And>m. D m \<le> D' m) \<Longrightarrow> round_inv leads D' s"
  unfolding round_inv_def by (meson add_le_mono1 order_trans)

lemma ack_inv_mono:
  assumes "ack_inv leads D s" "\<And>m. D m \<le> D' m"
  shows "ack_inv leads D' s"
proof -
  have "{m \<in> snd ` set leads. unat e \<le> D m} \<subseteq> {m \<in> snd ` set leads. unat e \<le> D' m}" for e :: u64
    using assms(2) by (auto intro: order_trans)
  then show ?thesis using assms(1) unfolding ack_inv_def by (meson image_mono order_trans)
qed

lemma node_inv_mono:
  "node_inv leads D I n s \<Longrightarrow> (\<And>m. D m \<le> D' m) \<Longrightarrow> D' n = D n \<Longrightarrow> node_inv leads D' I n s"
  unfolding node_inv_def using round_inv_mono ack_inv_mono by metis

text \<open>Steps that change neither the epoch nor what was sent.\<close>

lemma parts_frame:
  assumes "\<And>m. sent_epoch s' m = sent_epoch s m"
    "sq_node_id' s' = sq_node_id' s" "sq_leads' s' = sq_leads' s" "sq_num_rg' s' = sq_num_rg' s"
    "sq_epoch' s' = sq_epoch' s" "epoch_state' s' = epoch_state' s" "local_epoch' s' = local_epoch' s"
  shows "seq_config n leads s' = seq_config n leads s" "round_inv leads D s' = round_inv leads D s"
    "sent_inv leads n s' = sent_inv leads n s" "ack_inv leads D s' = ack_inv leads D s"
  unfolding seq_config_def round_inv_def sent_inv_def ack_inv_def assms by simp_all

lemma node_inv_frame:
  assumes "node_inv leads D I n s" "scheduled s' = scheduled s" "\<And>m. sent_epoch s' m = sent_epoch s m"
    "sq_node_id' s' = sq_node_id' s" "sq_leads' s' = sq_leads' s" "sq_num_rg' s' = sq_num_rg' s"
    "sq_epoch' s' = sq_epoch' s" "epoch_state' s' = epoch_state' s" "local_epoch' s' = local_epoch' s"
    "epoch_ctx_receive' s' = epoch_ctx_receive' s"
  shows "node_inv leads D I n s'"
  using assms(1) unfolding node_inv_def parts_frame[OF assms(3-9)] receive_inv_def assms(2,10) .

lemma node_inv_tick:
  assumes inv: "node_inv leads D I n s" and run: "seq_tick s = Some s'" and small: "unat (sq_epoch' s) < 2 ^ 64 - 1"
  shows "node_inv leads D I n s'" and "unat (sq_epoch' s') \<le> Suc (unat (sq_epoch' s))"
proof -
  have "node_inv leads D I n s' \<and> unat (sq_epoch' s') \<le> Suc (unat (sq_epoch' s))"
    using run
  proof (cases rule: seq_tick_cases)
    case quiet
    then show ?thesis
      using node_inv_frame[OF inv, of s'] by (simp add: scheduled_def map_filter_def sent_epoch_def)
  next
    case epoch
    have E: "unat (sq_epoch' s + 1) = Suc (unat (sq_epoch' s))"
      using small by (simp add: unat_word_ariths)
    have i: "seq_config n leads s" "round_inv leads D s" "sent_inv leads n s" "ack_inv leads D s" "receive_inv leads (D n) I s"
      using inv by (simp_all add: node_inv_def)
    have none: "local_epoch' s e = None" for e
      using i(4) epoch(1) unfolding ack_inv_def by (cases "local_epoch' s e") auto
    have cfg: "sq_leads' s = leads" "sq_node_id' s = n" using i(1) unfolding seq_config_def by blast+
    have new: "ce_source (epoch_message e k s) = n" "ce_dest (epoch_message e k s) = k" "ce_epoch (epoch_message e k s) = e" for e k
      by (simp_all add: epoch_message_def cfg)
    have sent: "sent_epoch s' m \<longleftrightarrow> sent_epoch s m \<or> (\<exists>kv \<in> set leads. m = epoch_message (sq_epoch' s) (snd kv) s)" for m
      unfolding epoch(2) sent_epoch_def by (force simp: cfg new image_iff)
    have old: "unat (ce_epoch m) < unat (sq_epoch' s)" if "sent_epoch s m" for m
      using i(3) that unfolding sent_inv_def by blast
    have sch: "scheduled s' = scheduled s" unfolding epoch(2) by (simp add: scheduled_def map_filter_def comp_def)
    have f: "sq_epoch' s' = sq_epoch' s + 1" "epoch_state' s' = EPOCH_PENDING" "sq_node_id' s' = sq_node_id' s"
      "sq_leads' s' = sq_leads' s" "sq_num_rg' s' = sq_num_rg' s" "epoch_ctx_receive' s' = epoch_ctx_receive' s"
      "local_epoch' s' = [sq_epoch' s \<mapsto> \<lparr>le_epoch' = sq_epoch' s, le_ack' = {}\<rparr>]"
      unfolding epoch(2) by (auto simp: none fun_eq_iff)
    have "m = m'" if "sent_epoch s' m" "sent_epoch s' m'" "ce_dest m = ce_dest m'" "ce_epoch m = ce_epoch m'" for m m'
      using that(1,2) unfolding sent
    proof (elim disjE bexE)
      assume "sent_epoch s m" "sent_epoch s m'"
      then show ?thesis using i(3) that(3,4) unfolding sent_inv_def by blast
    qed (use old[of m] old[of m'] that(3,4) new in auto)
    moreover have "ce_source m = n \<and> ce_dest m \<in> snd ` set leads \<and> 1 \<le> unat (ce_epoch m) \<and> unat (ce_epoch m) < unat (sq_epoch' s')"
      if "sent_epoch s' m" for m
      using that[unfolded sent]
    proof (elim disjE bexE)
      assume "sent_epoch s m"
      then show ?thesis using i(3) less_SucI unfolding sent_inv_def f E by blast
    qed (use i(2) new in \<open>auto simp: round_inv_def f E\<close>)
    ultimately have "sent_inv leads n s'" unfolding sent_inv_def by blast
    moreover have "round_inv leads D s'" using i(2) epoch(1) by (auto simp: round_inv_def f E)
    moreover have "ack_inv leads D s'" by (auto simp: ack_inv_def f E)
    moreover have "seq_config n leads s'" "receive_inv leads (D n) I s'"
      using i(1,5) by (simp_all add: seq_config_def receive_inv_def f sch)
    ultimately show ?thesis by (simp add: node_inv_def f E)
  qed
  then show "node_inv leads D I n s'" "unat (sq_epoch' s') \<le> Suc (unat (sq_epoch' s))" by simp_all
qed

text \<open>A configuration names one lead per replication group, a node of that group.\<close>

definition leads_ok :: "(shard_id_t \<times> node_id_t) list \<Rightarrow> bool" where
  "leads_ok leads \<longleftrightarrow> distinct (map fst leads) \<and> list_all (\<lambda>(sd, n). TO_RG_ID n = sd \<and> sd \<noteq> 0) leads \<and> length leads < 2 ^ 32"

lemma leads_okD:
  assumes "leads_ok leads"
  shows "inj_on TO_RG_ID (snd ` set leads)" "card (TO_RG_ID ` snd ` set leads) = length leads"
    "n \<in> snd ` set leads \<Longrightarrow> TO_RG_ID n \<noteq> 0"
proof -
  have rg: "TO_RG_ID (snd l) = fst l" "fst l \<noteq> 0" if "l \<in> set leads" for l
    using assms that by (auto simp: leads_ok_def list_all_iff)
  have key: "snd l = snd l'" if "l \<in> set leads" "l' \<in> set leads" "fst l = fst l'" for l l'
    using assms that eq_key_imp_eq_value[of leads "fst l" "snd l" "snd l'"] unfolding leads_ok_def
    by (metis prod.collapse)
  show "inj_on TO_RG_ID (snd ` set leads)"
  proof (rule inj_onI, elim imageE)
    fix x y l l' assume "TO_RG_ID x = TO_RG_ID y" "x = snd l" "l \<in> set leads" "y = snd l'" "l' \<in> set leads"
    then show "x = y" using key[of l l'] rg(1)[of l] rg(1)[of l'] by simp
  qed
  show "n \<in> snd ` set leads \<Longrightarrow> TO_RG_ID n \<noteq> 0" using rg by auto
  have "TO_RG_ID ` snd ` set leads = set (map fst leads)" using rg by (force simp: image_image)
  then show "card (TO_RG_ID ` snd ` set leads) = length leads"
    using assms distinct_card[of "map fst leads"] by (simp add: leads_ok_def)
qed

lemma leads_full:
  assumes "leads_ok leads" "A \<subseteq> snd ` set leads" "card (TO_RG_ID ` A) = length leads"
  shows "A = snd ` set leads"
proof -
  have "TO_RG_ID ` A = TO_RG_ID ` snd ` set leads"
    using assms leads_okD(2) by (intro card_subset_eq) auto
  then show ?thesis using assms(2) leads_okD(1)[OF assms(1)] by (metis inj_on_image_eq_iff order_refl)
qed

lemma node_inv_ack:
  assumes ok: "leads_ok leads" and inv: "node_inv leads D I n s" and n: "n \<in> snd ` set leads"
    and src: "ca_source a \<in> snd ` set leads" "1 \<le> unat (ca_epoch a)" "unat (ca_epoch a) \<le> D (ca_source a)"
    and run: "handle_epoch_ack a s = Some s'"
  shows "node_inv leads D I n s' \<and> sq_out' s' = sq_out' s \<and> sq_epoch' s' = sq_epoch' s"
proof (cases "local_epoch' s (ca_epoch a)")
  case None
  then show ?thesis using run inv by (auto simp: handle_epoch_ack_def split: if_splits)
next
  case (Some c)
  let ?e = "ca_epoch a"
  define A where "A = {m \<in> snd ` set leads. unat ?e \<le> D m}"
  have i: "seq_config n leads s" "round_inv leads D s" "sent_inv leads n s" "ack_inv leads D s" "receive_inv leads (D n) I s"
    using inv by (simp_all add: node_inv_def)
  have le: "epoch_state' s = EPOCH_PENDING" "Suc (unat ?e) = unat (sq_epoch' s)" "le_ack' c \<subseteq> TO_RG_ID ` A"
    using i(4) Some unfolding ack_inv_def A_def by blast+
  have only: "local_epoch' s e = None" if "e \<noteq> ?e" for e
  proof (rule ccontr)
    assume "local_epoch' s e \<noteq> None"
    then have "Suc (unat e) = unat (sq_epoch' s)" using i(4) unfolding ack_inv_def by blast
    then show False using that le(2) by (metis Suc_inject unsigned_word_eqI)
  qed
  define B where "B = insert (TO_RG_ID (ca_source a)) (le_ack' c)"
  have B: "B \<subseteq> TO_RG_ID ` A" using le(3) src unfolding B_def A_def by blast
  have out: "sq_out' s' = sq_out' s" "sq_epoch' s' = sq_epoch' s" "sq_node_id' s' = sq_node_id' s" "sq_leads' s' = sq_leads' s"
    "sq_num_rg' s' = sq_num_rg' s"
    using run Some by (auto simp: handle_epoch_ack_def Let_def split: if_splits)
  then have same: "scheduled s' = scheduled s" "sent_epoch s' m = sent_epoch s m" for m
    by (simp_all add: scheduled_def sent_epoch_def)
  have keep: "seq_config n leads s'" "sent_inv leads n s'" using i(1,3) by (simp_all add: seq_config_def sent_inv_def same out)
  show ?thesis
  proof (cases "card B = length leads")
    case True
    have s': "local_epoch' s' = Map.empty" "epoch_ctx_receive' s' = (epoch_ctx_receive' s)(?e := None)" "epoch_state' s' = EPOCH_IDLE"
      using run Some True i(1) only
      by (auto simp: handle_epoch_ack_def Let_def B_def seq_config_def fun_eq_iff split: if_splits)
    have fin: "finite A" by (simp add: A_def)
    have "card (TO_RG_ID ` A) = length leads"
      using card_mono[OF _ B] True fin card_mono[of "TO_RG_ID ` snd ` set leads" "TO_RG_ID ` A"] leads_okD(2)[OF ok]
      by (force simp: A_def)
    then have all: "A = snd ` set leads" by (rule leads_full[OF ok, rotated]) (auto simp: A_def)
    then have reached: "unat ?e \<le> D m" if "m \<in> snd ` set leads" for m using that unfolding A_def by blast
    have "round_inv leads D s'"
      unfolding round_inv_def s' out le(2)[symmetric] using reached by simp
    moreover have "ack_inv leads D s'" by (simp add: ack_inv_def s')
    moreover have "receive_inv leads (D n) I s'" using i(5) reached[OF n] by (auto simp: receive_inv_def s' same)
    ultimately show ?thesis using keep by (simp add: node_inv_def out)
  next
    case False
    have s': "local_epoch' s' = [?e \<mapsto> c\<lparr>le_ack' := B\<rparr>]" "epoch_ctx_receive' s' = epoch_ctx_receive' s" "epoch_state' s' = epoch_state' s"
      using run Some False i(1) only
      by (auto simp: handle_epoch_ack_def Let_def B_def seq_config_def fun_eq_iff split: if_splits)
    have "ack_inv leads D s'" using B le by (auto simp: ack_inv_def s' out A_def)
    then show ?thesis using keep i(2,5) by (simp add: node_inv_def out round_inv_def receive_inv_def s' same)
  qed
qed

lemma collected_add:
  assumes "collected leads ms e ctx" "ce_source m \<in> snd ` set leads"
    and "c = (case ctx of None \<Rightarrow> \<lparr>eo_epoch' = e, eo_shard_ids' = {}, eo_node_ids' = {}, eo_reqs' = []\<rparr> | Some c \<Rightarrow> c)"
  shows "collected leads (ms @ [m]) e (Some (c\<lparr>eo_shard_ids' := insert (TO_RG_ID (ce_source m)) (eo_shard_ids' c),
      eo_node_ids' := insert (ce_source m) (eo_node_ids' c), eo_reqs' := eo_reqs' c @ ce_request m\<rparr>))"
    and "eo_shard_ids' c = TO_RG_ID ` ce_source ` set ms"
  using assms by (auto simp: collected_def split: option.splits)

lemma receive_inv_epochs:
  assumes "receive_inv leads k I s" "c \<in> set (scheduled s)"
  shows "1 \<le> unat (eo_epoch' c)" "unat (eo_epoch' c) \<le> k"
proof -
  have "unat (eo_epoch' c) \<in> set (map (unat \<circ> eo_epoch') (scheduled s))" using assms(2) by simp
  then have "unat (eo_epoch' c) \<in> {1..<Suc k}" using assms(1) unfolding receive_inv_def by (metis set_upt)
  then show "1 \<le> unat (eo_epoch' c)" "unat (eo_epoch' c) \<le> k" by simp_all
qed

lemma receive_inv_pending:
  assumes "receive_inv leads k I s" "k < unat e" "scheduled s' = scheduled s" "collected leads ms e (Some c)"
    and "epoch_ctx_receive' s' = (epoch_ctx_receive' s)(e \<mapsto> c)"
  shows "receive_inv leads k (I(e := ms)) s'"
proof -
  have ne: "eo_epoch' b \<noteq> e" if "b \<in> set (scheduled s)" for b
    using receive_inv_epochs(2)[OF assms(1) that] assms(2) by auto
  show ?thesis
    using assms(1,2,4) ne unfolding receive_inv_def assms(3,5) by simp
qed

lemma receive_inv_complete:
  assumes "receive_inv leads k I s" "unat e = Suc k" "ce_source ` set ms = snd ` set leads"
    and "scheduled s' = scheduled s @ [c]" "eo_epoch' c = e" "eo_node_ids' c \<subseteq> snd ` set leads"
    and "eo_reqs' c = sort_key rq_xid (concat (map ce_request ms))"
    and "epoch_ctx_receive' s' = (epoch_ctx_receive' s)(e \<mapsto> c)"
  shows "receive_inv leads (Suc k) (I(e := ms)) s'"
proof -
  have old: "eo_epoch' b \<noteq> e" if "b \<in> set (scheduled s)" for b
    using receive_inv_epochs(2)[OF assms(1) that] assms(2) by auto
  have neq: "e' \<noteq> e" if "unat e' \<noteq> Suc k" for e' using that assms(2) by auto
  have eq: "e' = e" if "unat e' = Suc k" for e' using that assms(2) by (metis unsigned_word_eqI)
  have "ce_source ` set ((I(e := ms)) e') = snd ` set leads" if "1 \<le> unat e'" "unat e' \<le> Suc k" for e'
    using that assms(1,3) eq[of e'] unfolding receive_inv_def by (cases "unat e' = Suc k") auto
  moreover have "map (unat \<circ> eo_epoch') (scheduled s') = [1..<Suc (Suc k)]"
    using assms(1) unfolding receive_inv_def assms(4) by (simp add: assms(2,5))
  moreover have "collected leads ((I(e := ms)) e') e' (epoch_ctx_receive' s' e')" if "Suc k < unat e'" for e'
    using that assms(1) neq[of e'] unfolding receive_inv_def assms(8) by simp
  moreover have "eo_node_ids' b \<subseteq> snd ` set leads \<and> eo_reqs' b = sort_key rq_xid (concat (map ce_request ((I(e := ms)) (eo_epoch' b))))"
    if "b \<in> set (scheduled s')" for b
    using that assms(1,5-7) old unfolding assms(4) receive_inv_def by auto
  ultimately show ?thesis unfolding receive_inv_def by blast
qed

lemma node_inv_epoch:
  assumes ok: "leads_ok leads" and inv: "node_inv leads D I n s"
    and m: "ce_source m \<in> snd ` set leads" "ce_epoch m = e" "unat e = Suc (D n)"
    and fresh: "ce_source m \<notin> ce_source ` set (I e)" "ce_source ` set (I e) \<subseteq> snd ` set leads"
    and run: "handle_epoch m s = Some s'"
  shows "(\<forall>m'. sent_epoch s' m' = sent_epoch s m') \<and> sq_epoch' s' = sq_epoch' s \<and>
    (scheduled s' = scheduled s \<and> node_inv leads D (I(e := I e @ [m])) n s' \<or>
     length (scheduled s') = Suc (length (scheduled s)) \<and> node_inv leads (D(n := Suc (D n))) (I(e := I e @ [m])) n s')"
proof -
  have i: "seq_config n leads s" "round_inv leads D s" "sent_inv leads n s" "ack_inv leads D s" "receive_inv leads (D n) I s"
    using inv by (simp_all add: node_inv_def)
  define c where "c = (case epoch_ctx_receive' s e of None \<Rightarrow> \<lparr>eo_epoch' = e, eo_shard_ids' = {}, eo_node_ids' = {}, eo_reqs' = []\<rparr> | Some c \<Rightarrow> c)"
  define c1 where "c1 = c\<lparr>eo_shard_ids' := insert (TO_RG_ID (ce_source m)) (eo_shard_ids' c),
      eo_node_ids' := insert (ce_source m) (eo_node_ids' c), eo_reqs' := eo_reqs' c @ ce_request m\<rparr>"
  have "collected leads (I e) e (epoch_ctx_receive' s e)" using i(5) m(3) by (simp add: receive_inv_def)
  note add = collected_add[OF this m(1) c_def, folded c1_def]
  have new: "TO_RG_ID (ce_source m) \<notin> eo_shard_ids' c"
    using fresh m(1) leads_okD(1)[OF ok] unfolding add(2) by (metis inj_on_image_mem_iff)
  define s2 where "s2 = s\<lparr>epoch_ctx_receive' := (epoch_ctx_receive' s)(e \<mapsto> c1)\<rparr>"
  have s': "s' = (if of_nat (card (eo_shard_ids' c1)) = (ucast (sq_num_rg' s) :: u64) then reorder_request c1 s2 else s2)"
    using run m(2) new by (auto simp: handle_epoch_def Let_def c_def[symmetric] c1_def s2_def split: if_splits)
  have c1: "eo_epoch' c1 = e" "eo_shard_ids' c1 = TO_RG_ID ` ce_source ` set (I e @ [m])"
    "eo_reqs' c1 = concat (map ce_request (I e @ [m]))" "eo_node_ids' c1 \<subseteq> snd ` set leads"
    using add(1) by (simp_all add: collected_def)
  have src: "ce_source ` set (I e @ [m]) \<subseteq> snd ` set leads" using fresh(2) m(1) by simp
  show ?thesis
  proof (cases "of_nat (card (eo_shard_ids' c1)) = (ucast (sq_num_rg' s) :: u64)")
    case True
    have "card (eo_shard_ids' c1) \<le> length leads"
      unfolding c1(2) leads_okD(2)[OF ok, symmetric] using src by (intro card_mono image_mono) auto
    moreover have "unat (ucast (sq_num_rg' s) :: u64) = unat (sq_num_rg' s)"
      using unsigned_less[of "sq_num_rg' s", where 'a = nat] by (simp add: unsigned_ucast_eq take_bit_nat_eq_self)
    moreover have "length leads < 2 ^ 32" using ok by (simp add: leads_ok_def)
    ultimately have "card (eo_shard_ids' c1) = length leads"
      using arg_cong[OF True, of unat] i(1) by (simp add: seq_config_def unsigned_of_nat take_bit_nat_eq_self)
    then have all: "ce_source ` set (I e @ [m]) = snd ` set leads"
      unfolding c1(2) by (rule leads_full[OF ok src])
    define c2 where "c2 = c1\<lparr>eo_node_ids' := eo_node_ids' c1 \<union> snd ` set leads, eo_reqs' := sort_key rq_xid (eo_reqs' c1)\<rparr>"
    have "sq_leads' s2 = leads" using i(1) by (simp add: s2_def seq_config_def)
    then have f: "s' = s\<lparr>epoch_ctx_receive' := (epoch_ctx_receive' s)(e \<mapsto> c2), sq_out' := sq_out' s @ [Seq_schedule c2]\<rparr>"
      using s' True by (simp add: reorder_request_def Let_def seq_emit_def c1(1) s2_def c2_def)
    then have same: "scheduled s' = scheduled s @ [c2]" "sent_epoch s' m' = sent_epoch s m'" for m'
      by (simp_all add: scheduled_def sent_epoch_def map_filter_def)
    have "receive_inv leads (Suc (D n)) (I(e := I e @ [m])) s'"
      by (rule receive_inv_complete[OF i(5) m(3) all same(1)]) (use c1 in \<open>auto simp: c2_def f\<close>)
    moreover have "round_inv leads (D(n := Suc (D n))) s" "ack_inv leads (D(n := Suc (D n))) s"
      using round_inv_mono[OF i(2)] ack_inv_mono[OF i(4)] by simp_all
    moreover note fr = parts_frame[of s' s, OF same(2)]
    ultimately have "node_inv leads (D(n := Suc (D n))) (I(e := I e @ [m])) n s'"
      using i(1,3) fr by (simp add: node_inv_def f)
    then show ?thesis using same by (simp add: f)
  next
    case False
    then have "s' = s2" using s' by simp
    moreover have same: "scheduled s2 = scheduled s" "sent_epoch s2 m' = sent_epoch s m'" for m'
      by (simp_all add: s2_def scheduled_def sent_epoch_def)
    moreover have "receive_inv leads (D n) (I(e := I e @ [m])) s2"
      by (rule receive_inv_pending[OF i(5) _ same(1) add(1)]) (simp_all add: m(3) s2_def)
    moreover note fr = parts_frame[of s2 s, OF same(2)]
    ultimately have "node_inv leads D (I(e := I e @ [m])) n s'" using i fr by (simp add: node_inv_def s2_def)
    then show ?thesis using same \<open>s' = s2\<close> by (simp add: s2_def)
  qed
qed

section \<open>The deployment\<close>

text \<open>
  The sequencers of the lead nodes.  An epoch message arrives at most once and an
  acknowledgement can arrive once the scheduler of its sender has received
  the epoch; both may be delayed, overtaken and lost.
\<close>

record seq_sys =
  seqs :: "node_id_t \<Rightarrow> calvin_sequencer"
  delivered :: "calvin_epoch list"

datatype seq_action =
    Submit node_id_t tx_request
  | Start node_id_t
  | Lead_state node_id_t bool
  | Tick node_id_t
  | Epoch_arrives calvin_epoch
  | Ack_arrives calvin_epoch_ack

fun action_node :: "seq_action \<Rightarrow> node_id_t" where
  "action_node (Submit n tx) = n"
| "action_node (Start n) = n"
| "action_node (Lead_state n b) = n"
| "action_node (Tick n) = n"
| "action_node (Epoch_arrives m) = ce_dest m"
| "action_node (Ack_arrives a) = ca_dest a"

fun action_call :: "seq_action \<Rightarrow> calvin_sequencer \<Rightarrow> calvin_sequencer option" where
  "action_call (Submit n tx) s = Some (seq_handle_tx_request tx s)"
| "action_call (Start n) s = Some (seq_start s)"
| "action_call (Lead_state n b) s = Some (update_local_lead_state b s)"
| "action_call (Tick n) s = seq_tick s"
| "action_call (Epoch_arrives m) s = handle_epoch m s"
| "action_call (Ack_arrives a) s = handle_epoch_ack a s"

fun action_enabled :: "(shard_id_t \<times> node_id_t) list \<Rightarrow> seq_action \<Rightarrow> seq_sys \<Rightarrow> bool" where
  "action_enabled leads (Epoch_arrives m) w \<longleftrightarrow> ce_source m \<in> snd ` set leads \<and>
     sent_epoch (seqs w (ce_source m)) m \<and> m \<notin> set (delivered w)"
| "action_enabled leads (Ack_arrives a) w \<longleftrightarrow> ca_source a \<in> snd ` set leads \<and>
     list_ex (\<lambda>c. eo_epoch' c = ca_epoch a \<and> ca_dest a \<in> eo_node_ids' c) (scheduled (seqs w (ca_source a)))"
| "action_enabled leads act w \<longleftrightarrow> action_node act \<in> snd ` set leads"

definition action_delivers :: "seq_action \<Rightarrow> calvin_epoch list" where
  "action_delivers act = (case act of Epoch_arrives m \<Rightarrow> [m] | _ \<Rightarrow> [])"

definition seq_sys_step :: "(shard_id_t \<times> node_id_t) list \<Rightarrow> seq_action \<Rightarrow> seq_sys \<Rightarrow> seq_sys option" where
  "seq_sys_step leads act w =
     (if action_enabled leads act w then do {
        s \<leftarrow> action_call act (seqs w (action_node act));
        Some \<lparr>seqs = (seqs w)(action_node act := s), delivered = delivered w @ action_delivers act\<rparr> }
      else None)"

definition new_seq_sys :: "u32 \<Rightarrow> u64 \<Rightarrow> (shard_id_t \<times> node_id_t) list \<Rightarrow> seq_sys" where
  "new_seq_sys num_rg ms leads = \<lparr>seqs = (\<lambda>n. the (new_calvin_sequencer n num_rg ms leads)), delivered = []\<rparr>"

definition inbox :: "node_id_t \<Rightarrow> seq_sys \<Rightarrow> u64 \<Rightarrow> calvin_epoch list" where
  "inbox n w e = filter (\<lambda>m. ce_dest m = n \<and> ce_epoch m = e) (delivered w)"

abbreviation epochs_done :: "seq_sys \<Rightarrow> node_id_t \<Rightarrow> nat" where
  "epochs_done w n \<equiv> length (scheduled (seqs w n))"

definition seq_inv :: "(shard_id_t \<times> node_id_t) list \<Rightarrow> nat \<Rightarrow> seq_sys \<Rightarrow> bool" where
  "seq_inv leads k w \<longleftrightarrow>
     (\<forall>n \<in> snd ` set leads. node_inv leads (epochs_done w) (inbox n w) n (seqs w n) \<and> unat (sq_epoch' (seqs w n)) \<le> Suc k) \<and>
     (\<forall>m \<in> set (delivered w). ce_source m \<in> snd ` set leads \<and> sent_epoch (seqs w (ce_source m)) m)"

lemma seq_inv_node:
  assumes "seq_inv leads k w" "n \<in> snd ` set leads"
  shows "seq_config n leads (seqs w n)" "round_inv leads (epochs_done w) (seqs w n)" "sent_inv leads n (seqs w n)"
    "ack_inv leads (epochs_done w) (seqs w n)" "receive_inv leads (epochs_done w n) (inbox n w) (seqs w n)"
  using assms unfolding seq_inv_def node_inv_def by blast+

lemma seq_inv_step:
  assumes inv: "seq_inv leads k w" and n: "n \<in> snd ` set leads" "n = action_node act"
    and w': "w' = \<lparr>seqs = (seqs w)(n := s), delivered = delivered w @ action_delivers act\<rparr>"
    and node: "node_inv leads (epochs_done w') (inbox n w') n s" "unat (sq_epoch' s) \<le> Suc (Suc k)"
    and sent: "\<And>m. sent_epoch (seqs w n) m \<Longrightarrow> sent_epoch s m" "\<And>m. m \<in> set (action_delivers act) \<Longrightarrow>
      ce_source m \<in> snd ` set leads \<and> sent_epoch (seqs w (ce_source m)) m"
    and more: "length (scheduled (seqs w n)) \<le> length (scheduled s)"
  shows "seq_inv leads (Suc k) w'"
proof -
  have "node_inv leads (epochs_done w') (inbox n' w') n' (seqs w' n') \<and> unat (sq_epoch' (seqs w' n')) \<le> Suc (Suc k)"
    if "n' \<in> snd ` set leads" for n'
  proof (cases "n' = n")
    case False
    have "inbox n' w' = inbox n' w"
      using False n(2) by (auto simp: inbox_def w' action_delivers_def fun_eq_iff split: seq_action.split)
    moreover have "node_inv leads (epochs_done w') (inbox n' w) n' (seqs w n')"
      by (rule node_inv_mono[of leads "epochs_done w"]) (use inv that more False in \<open>auto simp: seq_inv_def w'\<close>)
    ultimately show ?thesis using inv that False by (auto simp: seq_inv_def w' le_SucI)
  qed (use node w' in simp)
  moreover have "ce_source m \<in> snd ` set leads \<and> sent_epoch (seqs w' (ce_source m)) m" if "m \<in> set (delivered w')" for m
    using that inv sent unfolding seq_inv_def w' by auto
  ultimately show ?thesis unfolding seq_inv_def by blast
qed

lemma undelivered_epoch:
  assumes ok: "leads_ok leads" and inv: "seq_inv leads k w" and en: "action_enabled leads (Epoch_arrives m) w"
  shows "ce_dest m \<in> snd ` set leads" "unat (ce_epoch m) = Suc (epochs_done w (ce_dest m))"
    "ce_source m \<notin> ce_source ` set (inbox (ce_dest m) w (ce_epoch m))"
    "ce_source ` set (inbox (ce_dest m) w (ce_epoch m)) \<subseteq> snd ` set leads"
proof -
  let ?n = "ce_dest m" and ?q = "seqs w (ce_source m)"
  have src: "ce_source m \<in> snd ` set leads" and sent: "sent_epoch ?q m" and new: "m \<notin> set (delivered w)" using en by simp_all
  note q = seq_inv_node(2,3)[OF inv src]
  have range: "?n \<in> snd ` set leads" "1 \<le> unat (ce_epoch m)" "unat (ce_epoch m) < unat (sq_epoch' ?q)"
    using q(2) sent unfolding sent_inv_def by blast+
  show "?n \<in> snd ` set leads" by (rule range(1))
  have "unat (sq_epoch' ?q) \<le> epochs_done w ?n + 2" using q(1) range(1) unfolding round_inv_def by (fastforce split: if_splits)
  then have le: "unat (ce_epoch m) \<le> Suc (epochs_done w ?n)" using range(3) by simp
  show fresh: "ce_source m \<notin> ce_source ` set (inbox ?n w (ce_epoch m))"
  proof
    assume "ce_source m \<in> ce_source ` set (inbox ?n w (ce_epoch m))"
    then obtain m' where m': "m' \<in> set (delivered w)" "ce_source m' = ce_source m" "ce_dest m' = ?n" "ce_epoch m' = ce_epoch m"
      by (auto simp: inbox_def)
    then have "sent_epoch ?q m'" using inv unfolding seq_inv_def by metis
    then have "m' = m" using q(2) sent m' unfolding sent_inv_def by blast
    then show False using m'(1) new by blast
  qed
  show "ce_source ` set (inbox ?n w (ce_epoch m)) \<subseteq> snd ` set leads"
    using inv by (auto simp: seq_inv_def inbox_def)
  have "\<not> unat (ce_epoch m) \<le> epochs_done w ?n"
    using seq_inv_node(5)[OF inv range(1)] range(2) fresh src unfolding receive_inv_def by blast
  then show "unat (ce_epoch m) = Suc (epochs_done w ?n)" using le by simp
qed

lemma action_enabled_node: "leads_ok leads \<Longrightarrow> seq_inv leads k w \<Longrightarrow> action_enabled leads act w \<Longrightarrow> action_node act \<in> snd ` set leads"
proof (cases act)
  case (Ack_arrives a)
  assume inv: "seq_inv leads k w" and "action_enabled leads act w"
  then obtain c where "ca_source a \<in> snd ` set leads" "c \<in> set (scheduled (seqs w (ca_source a)))" "ca_dest a \<in> eo_node_ids' c"
    by (auto simp: Ack_arrives list_ex_iff)
  then show ?thesis using seq_inv_node(5)[OF inv] unfolding receive_inv_def Ack_arrives by (auto simp del: image_iff)
qed (use undelivered_epoch(1) in auto)

lemma seq_sys_step_inv:
  assumes ok: "leads_ok leads" and inv: "seq_inv leads k w" and run: "seq_sys_step leads act w = Some w'" and k: "Suc k < 2 ^ 64 - 1"
  shows "seq_inv leads (Suc k) w'"
proof -
  define n where "n = action_node act"
  obtain s where en: "action_enabled leads act w" and s: "action_call act (seqs w n) = Some s"
    and w': "w' = \<lparr>seqs = (seqs w)(n := s), delivered = delivered w @ action_delivers act\<rparr>"
    using run by (auto simp: seq_sys_step_def n_def split: if_splits dest!: bind_SomeD)
  have n: "n \<in> snd ` set leads" unfolding n_def by (rule action_enabled_node[OF ok inv en])
  have node: "node_inv leads (epochs_done w) (inbox n w) n (seqs w n)" "unat (sq_epoch' (seqs w n)) \<le> Suc k"
    using inv n by (auto simp: seq_inv_def)
  note step = seq_inv_step[OF inv n n_def w']
  have quiet: ?thesis if "node_inv leads (epochs_done w) (inbox n w) n s" "scheduled s = scheduled (seqs w n)" "action_delivers act = []"
    "unat (sq_epoch' s) \<le> Suc (Suc k)" "\<And>m. sent_epoch (seqs w n) m \<Longrightarrow> sent_epoch s m"
  proof -
    have "epochs_done w' = epochs_done w" "inbox n w' = inbox n w"
      using that by (auto simp: w' inbox_def fun_eq_iff)
    then show ?thesis using step that by simp
  qed
  show ?thesis
  proof (cases act)
    case (Tick n')
    have t: "seq_tick (seqs w n) = Some s" using s Tick by simp
    have "unat (sq_epoch' (seqs w n)) < 2 ^ 64 - 1" using node(2) k by simp
    note tick = node_inv_tick[OF node(1) t this]
    have "scheduled s = scheduled (seqs w n)" "\<And>m. sent_epoch (seqs w n) m \<Longrightarrow> sent_epoch s m"
      using t by (cases rule: seq_tick_cases; simp add: scheduled_def sent_epoch_def map_filter_def comp_def)+
    then show ?thesis using tick node(2) by (intro quiet) (auto simp: Tick action_delivers_def)
  next
    case (Epoch_arrives m)
    have nm: "n = ce_dest m" by (simp add: n_def Epoch_arrives)
    note new = undelivered_epoch[OF ok inv en[unfolded Epoch_arrives], folded nm]
    have src: "ce_source m \<in> snd ` set leads" using en by (simp add: Epoch_arrives)
    have call: "handle_epoch m (seqs w n) = Some s" using s Epoch_arrives by simp
    have box: "inbox n w' = (inbox n w)(ce_epoch m := inbox n w (ce_epoch m) @ [m])"
      by (auto simp: inbox_def w' Epoch_arrives action_delivers_def nm fun_eq_iff)
    have D: "epochs_done w' = (epochs_done w)(n := length (scheduled s))" by (auto simp: w')
    note res = node_inv_epoch[OF ok node(1) src refl new(2-4) call]
    have keep: "(epochs_done w)(n := epochs_done w n) = epochs_done w" by (rule fun_upd_triv)
    have "node_inv leads (epochs_done w') (inbox n w') n s" "epochs_done w n \<le> length (scheduled s)"
      using res keep unfolding box D by (elim conjE disjE; simp)+
    then show ?thesis using step res node(2) en by (simp add: Epoch_arrives action_delivers_def)
  next
    case (Ack_arrives a)
    obtain c where c: "ca_source a \<in> snd ` set leads" "c \<in> set (scheduled (seqs w (ca_source a)))" "eo_epoch' c = ca_epoch a"
      using en by (auto simp: Ack_arrives list_ex_iff)
    have "1 \<le> unat (ca_epoch a)" "unat (ca_epoch a) \<le> epochs_done w (ca_source a)"
      using receive_inv_epochs[OF seq_inv_node(5)[OF inv c(1)] c(2)] c(3) by simp_all
    from node_inv_ack[OF ok node(1) n c(1) this] s
    have "node_inv leads (epochs_done w) (inbox n w) n s \<and> sq_out' s = sq_out' (seqs w n) \<and> sq_epoch' s = sq_epoch' (seqs w n)"
      by (simp add: Ack_arrives)
    then show ?thesis using node(2) by (intro quiet) (auto simp: Ack_arrives action_delivers_def scheduled_def sent_epoch_def)
  qed (use s node node_inv_frame[OF node(1), of s] in \<open>auto intro!: quiet simp: seq_start_def update_local_lead_state_def scheduled_def sent_epoch_def action_delivers_def\<close>)
qed

lemma new_seq_sys_inv:
  assumes "unat num_rg = length leads"
  shows "seq_inv leads 0 (new_seq_sys num_rg ms leads)"
proof -
  have "of_nat (length leads) = (ucast num_rg :: u64)"
    using assms by (metis of_nat_unat)
  then show ?thesis
    using assms
    by (simp add: seq_inv_def new_seq_sys_def new_calvin_sequencer_def node_inv_def seq_config_def round_inv_def sent_inv_def
      ack_inv_def receive_inv_def collected_def scheduled_def sent_epoch_def inbox_def)
qed

lemma seq_sys_run_inv:
  assumes "leads_ok leads" "run (seq_sys_step leads) acts w = Some w'" "seq_inv leads k w" "Suc k + length acts < 2 ^ 64 - 1"
  shows "seq_inv leads (k + length acts) w'"
  using assms(2-)
proof (induction acts arbitrary: w k)
  case (Cons act acts)
  then obtain w1 where w1: "seq_sys_step leads act w = Some w1" "run (seq_sys_step leads) acts w1 = Some w'"
    by (auto split: option.splits)
  have "seq_inv leads (Suc k) w1" by (rule seq_sys_step_inv[OF assms(1) Cons.prems(2) w1(1)]) (use Cons.prems(3) in simp)
  then show ?case using Cons.IH[OF w1(2), of "Suc k"] Cons.prems(3) by simp
qed simp

section \<open>The home of a transaction\<close>

text \<open>
  Every transaction submitted so far belongs to one sequencer and one epoch, \<^term>\<open>H x\<close>: all parts
  of it wait at that sequencer for that epoch or were sent by it in that epoch.
\<close>

definition home_inv :: "xid_t set \<Rightarrow> (xid_t \<Rightarrow> node_id_t \<times> u64) \<Rightarrow> seq_sys \<Rightarrow> bool" where
  "home_inv X H w \<longleftrightarrow>
     (\<forall>n sd m x t. tx_request_next_epoch' (seqs w n) sd = Some m \<longrightarrow> (x, t) \<in> set m \<longrightarrow>
        rq_xid t = x \<and> x \<in> X \<and> H x = (n, sq_epoch' (seqs w n))) \<and>
     (\<forall>n m r. sent_epoch (seqs w n) m \<longrightarrow> r \<in> set (ce_request m) \<longrightarrow> rq_xid r \<in> X \<and> H (rq_xid r) = (n, ce_epoch m))"

definition submits :: "seq_action \<Rightarrow> xid_t list" where
  "submits act = (case act of Submit n tx \<Rightarrow> [rq_xid tx] | _ \<Rightarrow> [])"

lemma omap_put_mem: "(x, t) \<in> set (omap_put k v m) \<Longrightarrow> (x, t) = (k, v) \<or> (x, t) \<in> set m"
  by (induction k v m rule: omap_put.induct) (auto split: if_splits)

lemma seq_add_operation_mem:
  assumes "tx_request_next_epoch' (seq_add_operation tx op s) sd = Some m" "(x, t) \<in> set m"
  shows "(\<exists>m0. tx_request_next_epoch' s sd = Some m0 \<and> (x, t) \<in> set m0) \<or>
    x = rq_xid tx \<and> (rq_xid t = x \<or> (\<exists>sd m0 t0. tx_request_next_epoch' s sd = Some m0 \<and> (x, t0) \<in> set m0 \<and> rq_xid t = rq_xid t0))"
  using assms unfolding seq_add_operation_def Let_def
  by (auto split: option.splits if_splits simp: seq_request_def dest!: omap_put_mem) (metis map_of_SomeD)+

lemma seq_handle_tx_request_mem:
  assumes "\<And>sd m x t. tx_request_next_epoch' s sd = Some m \<Longrightarrow> (x, t) \<in> set m \<Longrightarrow> rq_xid t = x \<and> P x" "P (rq_xid tx)"
  shows "tx_request_next_epoch' (seq_handle_tx_request tx s) sd = Some m \<Longrightarrow> (x, t) \<in> set m \<Longrightarrow> rq_xid t = x \<and> P x"
proof -
  have "\<forall>sd m x t. tx_request_next_epoch' (fold (seq_add_operation tx) ops s) sd = Some m \<longrightarrow> (x, t) \<in> set m \<longrightarrow> rq_xid t = x \<and> P x" for ops
    using assms(1)
  proof (induction ops arbitrary: s)
    case (Cons op ops)
    have "rq_xid t = x \<and> P x" if "tx_request_next_epoch' (seq_add_operation tx op s) sd = Some m" "(x, t) \<in> set m" for sd m x t
      using seq_add_operation_mem[OF that]
    proof (elim disjE conjE exE)
      fix m0 assume "tx_request_next_epoch' s sd = Some m0" "(x, t) \<in> set m0"
      then show ?thesis by (rule Cons.prems)
    next
      fix sd' m0 t0 assume "x = rq_xid tx" "tx_request_next_epoch' s sd' = Some m0" "(x, t0) \<in> set m0" "rq_xid t = rq_xid t0"
      then show ?thesis using Cons.prems[of sd' m0 x t0] by simp
    next
      assume "x = rq_xid tx" "rq_xid t = x"
      then show ?thesis using assms(2) by simp
    qed
    then show ?case unfolding fold.simps comp_apply by (rule Cons.IH)
  qed simp
  then show "tx_request_next_epoch' (seq_handle_tx_request tx s) sd = Some m \<Longrightarrow> (x, t) \<in> set m \<Longrightarrow> rq_xid t = x \<and> P x"
    unfolding seq_handle_tx_request_def by blast
qed

lemma home_inv_node:
  assumes inv: "home_inv X H w" and w': "seqs w' = (seqs w)(n := s)" and sub: "X \<subseteq> X'"
    and H: "\<And>x. x \<in> X \<Longrightarrow> H' x = H x"
    and wait: "\<And>sd m x t. tx_request_next_epoch' s sd = Some m \<Longrightarrow> (x, t) \<in> set m \<Longrightarrow>
      rq_xid t = x \<and> x \<in> X' \<and> H' x = (n, sq_epoch' s)"
    and sent: "\<And>m r. sent_epoch s m \<Longrightarrow> r \<in> set (ce_request m) \<Longrightarrow> rq_xid r \<in> X' \<and> H' (rq_xid r) = (n, ce_epoch m)"
  shows "home_inv X' H' w'"
proof -
  have a: "rq_xid t = x \<and> x \<in> X' \<and> H' x = (k, sq_epoch' (seqs w' k))"
    if "tx_request_next_epoch' (seqs w' k) sd = Some m" "(x, t) \<in> set m" for k sd m x t
  proof (cases "k = n")
    case False
    then have "rq_xid t = x \<and> x \<in> X \<and> H x = (k, sq_epoch' (seqs w k))"
      using inv that unfolding home_inv_def w' by simp
    then show ?thesis using False sub H[of x] by (auto simp: w')
  qed (use wait that w' in simp)
  have b: "rq_xid r \<in> X' \<and> H' (rq_xid r) = (k, ce_epoch m)"
    if "sent_epoch (seqs w' k) m" "r \<in> set (ce_request m)" for k m r
  proof (cases "k = n")
    case False
    then have "rq_xid r \<in> X \<and> H (rq_xid r) = (k, ce_epoch m)"
      using inv that unfolding home_inv_def w' by simp
    then show ?thesis using sub H[of "rq_xid r"] by auto
  qed (use sent that w' in simp)
  show ?thesis unfolding home_inv_def using a b by blast
qed

lemma handle_epoch_home:
  assumes "handle_epoch m s = Some s'"
  shows "tx_request_next_epoch' s' = tx_request_next_epoch' s" "sq_epoch' s' = sq_epoch' s" "sent_epoch s' = sent_epoch s"
  using assms by (auto simp: handle_epoch_def Let_def reorder_request_def seq_emit_def sent_epoch_def fun_eq_iff split: if_splits)

lemma handle_epoch_ack_home:
  assumes "handle_epoch_ack a s = Some s'"
  shows "tx_request_next_epoch' s' = tx_request_next_epoch' s" "sq_epoch' s' = sq_epoch' s" "sent_epoch s' = sent_epoch s"
  using assms by (auto simp: handle_epoch_ack_def Let_def sent_epoch_def fun_eq_iff split: if_splits option.splits)

lemma seq_tick_home:
  assumes "seq_tick s = Some s'"
    and "\<And>sd m x t. tx_request_next_epoch' s sd = Some m \<Longrightarrow> (x, t) \<in> set m \<Longrightarrow> rq_xid t = x \<and> x \<in> X \<and> H x = (n, sq_epoch' s)"
    and "\<And>m r. sent_epoch s m \<Longrightarrow> r \<in> set (ce_request m) \<Longrightarrow> rq_xid r \<in> X \<and> H (rq_xid r) = (n, ce_epoch m)"
  shows "tx_request_next_epoch' s' sd = Some m \<Longrightarrow> (x, t) \<in> set m \<Longrightarrow> rq_xid t = x \<and> x \<in> X \<and> H x = (n, sq_epoch' s')"
    and "sent_epoch s' msg \<Longrightarrow> r \<in> set (ce_request msg) \<Longrightarrow> rq_xid r \<in> X \<and> H (rq_xid r) = (n, ce_epoch msg)"
proof -
  have new: "rq_xid r \<in> X \<and> H (rq_xid r) = (n, e)"
    if r: "r \<in> set (ce_request (epoch_message e k s))" and e: "e = sq_epoch' s" for r e k
  proof -
    obtain m x where "tx_request_next_epoch' s (TO_RG_ID k) = Some m" "(x, r) \<in> set m"
      using r by (cases "tx_request_next_epoch' s (TO_RG_ID k)") (auto simp: epoch_message_def)
    then have "rq_xid r = x \<and> x \<in> X \<and> H x = (n, sq_epoch' s)" by (rule assms(2))
    then show ?thesis using e by auto
  qed
  show "tx_request_next_epoch' s' sd = Some m \<Longrightarrow> (x, t) \<in> set m \<Longrightarrow> rq_xid t = x \<and> x \<in> X \<and> H x = (n, sq_epoch' s')"
    using assms(1)
  proof (cases rule: seq_tick_cases)
    case quiet
    assume "tx_request_next_epoch' s' sd = Some m" "(x, t) \<in> set m"
    then show ?thesis using assms(2)[of sd m x t] by (simp add: quiet)
  qed simp
  assume msg: "sent_epoch s' msg" "r \<in> set (ce_request msg)"
  show "rq_xid r \<in> X \<and> H (rq_xid r) = (n, ce_epoch msg)"
    using assms(1)
  proof (cases rule: seq_tick_cases)
    case quiet
    then show ?thesis using assms(3)[OF _ msg(2)] msg(1) by (simp add: sent_epoch_def)
  next
    case epoch
    then have "sent_epoch s msg \<or> (\<exists>kv. msg = epoch_message (sq_epoch' s) (snd kv) s)"
      using msg(1) by (auto simp: sent_epoch_def)
    then show ?thesis
    proof (elim disjE exE)
      fix kv assume kv: "msg = epoch_message (sq_epoch' s) (snd kv) s"
      then show ?thesis using new[of r "sq_epoch' s" "snd kv"] msg(2) by (simp add: epoch_message_def)
    qed (use assms(3) msg(2) in blast)
  qed
qed

lemma seq_sys_step_home:
  assumes inv: "home_inv X H w" and run: "seq_sys_step leads act w = Some w'" and fresh: "set (submits act) \<inter> X = {}"
  shows "\<exists>H'. home_inv (set (submits act) \<union> X) H' w'"
proof -
  define n where "n = action_node act"
  obtain s where s: "action_call act (seqs w n) = Some s" and w': "seqs w' = (seqs w)(n := s)"
    using run by (auto simp: seq_sys_step_def n_def split: if_splits dest!: bind_SomeD)
  have wait: "rq_xid t = x \<and> x \<in> X \<and> H x = (n, sq_epoch' (seqs w n))"
    if "tx_request_next_epoch' (seqs w n) sd = Some m" "(x, t) \<in> set m" for sd m x t
    using inv that unfolding home_inv_def by blast
  have sent: "rq_xid r \<in> X \<and> H (rq_xid r) = (n, ce_epoch m)" if "sent_epoch (seqs w n) m" "r \<in> set (ce_request m)" for m r
    using inv that unfolding home_inv_def by blast
  have same: ?thesis if "submits act = []" "tx_request_next_epoch' s = tx_request_next_epoch' (seqs w n)"
    "sq_epoch' s = sq_epoch' (seqs w n)" "sent_epoch s = sent_epoch (seqs w n)"
    using home_inv_node[OF inv w' order_refl refl, unfolded that(2-)] wait sent that(1) by auto
  show ?thesis
  proof (cases act)
    case (Submit k tx)
    define H' where "H' = H(rq_xid tx := (n, sq_epoch' (seqs w n)))"
    have new: "rq_xid tx \<notin> X" using fresh by (simp add: Submit submits_def)
    have s: "s = seq_handle_tx_request tx (seqs w n)" using s by (simp add: Submit)
    define P where "P x \<longleftrightarrow> x \<in> insert (rq_xid tx) X \<and> H' x = (n, sq_epoch' (seqs w n))" for x
    have "home_inv (insert (rq_xid tx) X) H' w'"
    proof (rule home_inv_node[OF inv w'])
      fix sd m x t assume m: "tx_request_next_epoch' s sd = Some m" "(x, t) \<in> set m"
      have "rq_xid t = x \<and> P x"
        by (rule seq_handle_tx_request_mem[OF _ _ m(1)[unfolded s] m(2)]) (use wait new in \<open>auto simp: P_def H'_def\<close>)
      then show "rq_xid t = x \<and> x \<in> insert (rq_xid tx) X \<and> H' x = (n, sq_epoch' s)" by (simp add: P_def s)
    next
      fix m r assume "sent_epoch s m" "r \<in> set (ce_request m)"
      then have "rq_xid r \<in> X \<and> H (rq_xid r) = (n, ce_epoch m)" using sent by (simp add: s sent_epoch_def)
      then show "rq_xid r \<in> insert (rq_xid tx) X \<and> H' (rq_xid r) = (n, ce_epoch m)" using new by (auto simp: H'_def)
    qed (use new in \<open>auto simp: H'_def\<close>)
    then show ?thesis by (auto simp: Submit submits_def)
  next
    case (Tick k)
    have t: "seq_tick (seqs w n) = Some s" using s by (simp add: Tick)
    have "home_inv X H w'"
      by (rule home_inv_node[OF inv w' order_refl refl])
        (rule seq_tick_home[OF t wait sent]; assumption)+
    then show ?thesis by (auto simp: Tick submits_def)
  next
    case (Epoch_arrives m)
    then show ?thesis using s handle_epoch_home[of m "seqs w n" s] by (intro same) (auto simp: submits_def)
  next
    case (Ack_arrives a)
    then show ?thesis using s handle_epoch_ack_home[of a "seqs w n" s] by (intro same) (auto simp: submits_def)
  next
    case (Start k)
    then show ?thesis using s by (intro same) (auto simp: seq_start_def submits_def sent_epoch_def fun_eq_iff)
  next
    case (Lead_state k b)
    then show ?thesis using s by (intro same) (auto simp: update_local_lead_state_def submits_def sent_epoch_def fun_eq_iff)
  qed
qed

lemma seq_sys_run_home:
  assumes "run (seq_sys_step leads) acts w = Some w'" "home_inv X H w"
    "distinct (concat (map submits acts))" "set (concat (map submits acts)) \<inter> X = {}"
  shows "\<exists>X' H'. home_inv X' H' w'"
  using assms
proof (induction acts arbitrary: w X H)
  case (Cons act acts)
  then obtain w1 where w1: "seq_sys_step leads act w = Some w1" "run (seq_sys_step leads) acts w1 = Some w'"
    by (auto split: option.splits)
  obtain H1 where "home_inv (set (submits act) \<union> X) H1 w1"
    using seq_sys_step_home[OF Cons.prems(2) w1(1)] Cons.prems(4) by auto
  then show ?case by (rule Cons.IH[OF w1(2)]) (use Cons.prems(3,4) in auto)
qed auto

section \<open>One order on every shard\<close>

definition serial_order :: "calvin_sequencer \<Rightarrow> xid_t list" where
  "serial_order s = concat (map (map rq_xid \<circ> eo_reqs') (scheduled s))"

definition before :: "'a \<Rightarrow> 'a \<Rightarrow> 'a list \<Rightarrow> bool" where
  "before x y xs \<longleftrightarrow> (\<exists>us vs. xs = us @ vs \<and> x \<in> set us \<and> y \<in> set vs)"

lemma before_sorted: "sorted_wrt R xs \<Longrightarrow> before x y xs \<Longrightarrow> R x y"
  by (auto simp: before_def sorted_wrt_append)

definition by_epoch :: "(xid_t \<Rightarrow> u64) \<Rightarrow> xid_t \<Rightarrow> xid_t \<Rightarrow> bool" where
  "by_epoch E x y \<longleftrightarrow> unat (E x) < unat (E y) \<or> E x = E y \<and> x \<le> y"

lemma sorted_batches:
  assumes "sorted_wrt (<) (map (unat \<circ> eo_epoch') cs)"
    and "\<And>c r. c \<in> set cs \<Longrightarrow> r \<in> set (eo_reqs' c) \<Longrightarrow> E (rq_xid r) = eo_epoch' c"
    and "\<And>c. c \<in> set cs \<Longrightarrow> sorted (map rq_xid (eo_reqs' c))"
  shows "sorted_wrt (by_epoch E) (concat (map (map rq_xid \<circ> eo_reqs') cs))"
  using assms
proof (induction cs)
  case (Cons c cs)
  have "sorted_wrt (by_epoch E) (map rq_xid (eo_reqs' c))"
    by (rule sorted_wrt_mono_rel[of _ "(\<le>)"]) (use Cons.prems(2,3)[of c] in \<open>auto simp: by_epoch_def\<close>)
  moreover have "by_epoch E x y" if "x \<in> set (map rq_xid (eo_reqs' c))" "y \<in> set (concat (map (map rq_xid \<circ> eo_reqs') cs))" for x y
    using that Cons.prems(1,2) by (fastforce simp: by_epoch_def)
  ultimately show ?case using Cons.IH Cons.prems by (simp add: sorted_wrt_append)
qed simp

lemma scheduled_batch:
  assumes inv: "seq_inv leads k w" and n: "n \<in> snd ` set leads" and c: "c \<in> set (scheduled (seqs w n))"
  shows "r \<in> set (eo_reqs' c) \<Longrightarrow> \<exists>m. sent_epoch (seqs w (ce_source m)) m \<and> ce_epoch m = eo_epoch' c \<and> r \<in> set (ce_request m)"
    and "n' \<in> snd ` set leads \<Longrightarrow> sent_epoch (seqs w n') m \<Longrightarrow> ce_dest m = n \<Longrightarrow> ce_epoch m = eo_epoch' c \<Longrightarrow>
      set (ce_request m) \<subseteq> set (eo_reqs' c)"
proof -
  note rec = seq_inv_node(5)[OF inv n]
  have reqs: "set (eo_reqs' c) = (\<Union>m \<in> set (inbox n w (eo_epoch' c)). set (ce_request m))"
  proof -
    have "eo_reqs' c = sort_key rq_xid (concat (map ce_request (inbox n w (eo_epoch' c))))"
      using rec c unfolding receive_inv_def by blast
    then show ?thesis by simp
  qed
  show "\<exists>m. sent_epoch (seqs w (ce_source m)) m \<and> ce_epoch m = eo_epoch' c \<and> r \<in> set (ce_request m)" if r: "r \<in> set (eo_reqs' c)"
  proof -
    obtain m where m: "m \<in> set (inbox n w (eo_epoch' c))" "r \<in> set (ce_request m)" using r unfolding reqs by blast
    then have "m \<in> set (delivered w)" "ce_epoch m = eo_epoch' c" by (simp_all add: inbox_def)
    moreover have "sent_epoch (seqs w (ce_source m)) m" using inv calculation(1) unfolding seq_inv_def by blast
    ultimately show ?thesis using m(2) by blast
  qed
  assume n': "n' \<in> snd ` set leads" and m: "sent_epoch (seqs w n') m" "ce_dest m = n" "ce_epoch m = eo_epoch' c"
  have "ce_source ` set (inbox n w (eo_epoch' c)) = snd ` set leads"
    using rec receive_inv_epochs[OF rec c] unfolding receive_inv_def by (elim conjE) simp
  then have "n' \<in> ce_source ` set (inbox n w (eo_epoch' c))" using n' by simp
  then obtain m' where m': "m' \<in> set (inbox n w (eo_epoch' c))" "ce_source m' = n'" by auto
  have "m' \<in> set (delivered w)" "ce_dest m' = n" "ce_epoch m' = eo_epoch' c" using m'(1) by (simp_all add: inbox_def)
  moreover have "sent_epoch (seqs w n') m'" using inv calculation(1) m'(2) unfolding seq_inv_def by blast
  moreover have "sent_epoch (seqs w n') m' \<longrightarrow> sent_epoch (seqs w n') m \<longrightarrow> ce_dest m' = ce_dest m \<longrightarrow> ce_epoch m' = ce_epoch m \<longrightarrow> m' = m"
    using seq_inv_node(3)[OF inv n'] unfolding sent_inv_def by blast
  ultimately have "m' = m" using m by simp
  then show "set (ce_request m) \<subseteq> set (eo_reqs' c)" using reqs m'(1) by blast
qed

text \<open>
  (C13) Deterministic order.  Take a configuration with one lead per replication group, and any
  run of the sequencers in which no transaction identifier is submitted twice.  Every
  lead hands the epochs 1, 2, 3, ... to its scheduler in this order, without
  gaps.  The batch of an epoch contains all requests that any lead has sent to
  it for that epoch.  And the order in which transactions reach the schedulers is the
  same on all shards: if one lead schedules \<^term>\<open>x\<close> before \<^term>\<open>y\<close>, no lead
  schedules \<^term>\<open>y\<close> before \<^term>\<open>x\<close>.
\<close>

theorem deterministic_order:
  assumes ok: "leads_ok leads" and rg: "unat num_rg = length leads"
    and run: "run (seq_sys_step leads) acts (new_seq_sys num_rg ms leads) = Some w"
    and fresh: "distinct (concat (map submits acts))" and short: "length acts < 2 ^ 64 - 2"
    and n: "n \<in> snd ` set leads" "n' \<in> snd ` set leads"
  shows "map (unat \<circ> eo_epoch') (scheduled (seqs w n)) = [1..<Suc (length (scheduled (seqs w n)))] \<and>
    (\<forall>c m. c \<in> set (scheduled (seqs w n)) \<longrightarrow> sent_epoch (seqs w n') m \<longrightarrow> ce_dest m = n \<longrightarrow> ce_epoch m = eo_epoch' c \<longrightarrow>
      set (ce_request m) \<subseteq> set (eo_reqs' c)) \<and>
    (\<forall>x y. x \<noteq> y \<longrightarrow> before x y (serial_order (seqs w n)) \<longrightarrow> \<not> before y x (serial_order (seqs w n')))"
proof (intro conjI allI impI)
  have inv: "seq_inv leads (0 + length acts) w"
    by (rule seq_sys_run_inv[OF ok run new_seq_sys_inv[OF rg]]) (use short in simp)
  show "map (unat \<circ> eo_epoch') (scheduled (seqs w n)) = [1..<Suc (length (scheduled (seqs w n)))]"
    using seq_inv_node(5)[OF inv n(1)] by (simp add: receive_inv_def)
  show "set (ce_request m) \<subseteq> set (eo_reqs' c)"
    if "c \<in> set (scheduled (seqs w n))" "sent_epoch (seqs w n') m" "ce_dest m = n" "ce_epoch m = eo_epoch' c" for c m
    by (rule scheduled_batch(2)[OF inv n(1) that(1) n(2) that(2-4)])
  have "home_inv {} (\<lambda>_. (0, 0)) (new_seq_sys num_rg ms leads)"
    using rg by (simp add: home_inv_def new_seq_sys_def new_calvin_sequencer_def sent_epoch_def boost_assert_def) (metis of_nat_unat)
  from seq_sys_run_home[OF run this fresh] obtain X H where home: "home_inv X H w" by auto
  define E where "E = snd \<circ> H"
  have sorted: "sorted_wrt (by_epoch E) (serial_order (seqs w k))" if k: "k \<in> snd ` set leads" for k
    unfolding serial_order_def
  proof (rule sorted_batches)
    note rec = seq_inv_node(5)[OF inv k]
    show "sorted_wrt (<) (map (unat \<circ> eo_epoch') (scheduled (seqs w k)))"
      using rec unfolding receive_inv_def by (metis sorted_wrt_upt)
    fix c assume c: "c \<in> set (scheduled (seqs w k))"
    show "sorted (map rq_xid (eo_reqs' c))" using rec c unfolding receive_inv_def by (metis sorted_sort_key)
    show "E (rq_xid r) = eo_epoch' c" if r: "r \<in> set (eo_reqs' c)" for r
    proof -
      obtain m where "sent_epoch (seqs w (ce_source m)) m" "ce_epoch m = eo_epoch' c" "r \<in> set (ce_request m)"
        using scheduled_batch(1)[OF inv k c r] by blast
      moreover from this have "H (rq_xid r) = (ce_source m, ce_epoch m)" using home unfolding home_inv_def by blast
      ultimately show ?thesis by (simp add: E_def)
    qed
  qed
  have ord: "by_epoch E x y" if "k \<in> snd ` set leads" "before x y (serial_order (seqs w k))" for k x y
    by (rule before_sorted[OF sorted[OF that(1)] that(2)])
  show "\<not> before y x (serial_order (seqs w n'))" if "x \<noteq> y" "before x y (serial_order (seqs w n))" for x y
    using ord[OF n(1) that(2)] ord[OF n(2), of y x] that(1) by (auto simp: by_epoch_def)
qed

definition demo_groups :: "(shard_id_t \<times> node_id_t) list" where
  "demo_groups = [(1, 65793), (2, 131329)]"

definition demo_tx :: "xid_t \<Rightarrow> tx_request" where
  "demo_tx x = no_request\<lparr>rq_xid := x, rq_operations :=
     [no_operation\<lparr>to_op_type := TX_OP_UPDATE, to_sd_id := 1\<rparr>, no_operation\<lparr>to_op_type := TX_OP_UPDATE, to_sd_id := 2\<rparr>]\<rparr>"

definition demo_epoch1 :: "seq_action list" where
  "demo_epoch1 = [Start 65793, Start 131329, Lead_state 65793 True, Lead_state 131329 True,
     Submit 65793 (demo_tx 5), Submit 131329 (demo_tx 3), Tick 65793, Tick 131329]"

definition demo_messages :: "node_id_t \<Rightarrow> calvin_epoch list" where
  "demo_messages n = List.map_filter (\<lambda>e. case e of Send_CALVIN_EPOCH d m \<Rightarrow> Some m | _ \<Rightarrow> None)
     (sq_out' (seqs (the (run (seq_sys_step demo_groups) demo_epoch1 (new_seq_sys 2 10 demo_groups))) n))"

definition demo_epochs :: "seq_action list" where
  "demo_epochs = demo_epoch1 @ map Epoch_arrives (demo_messages 65793 @ demo_messages 131329)"

definition demo_sequenced :: seq_sys where
  "demo_sequenced = the (run (seq_sys_step demo_groups) demo_epochs (new_seq_sys 2 10 demo_groups))"

theorem deterministic_order_witness:
  "serial_order (seqs demo_sequenced 65793) = [3, 5] \<and> serial_order (seqs demo_sequenced 131329) = [3, 5] \<and>
   map (unat \<circ> eo_epoch') (scheduled (seqs demo_sequenced 65793)) = [1] \<and>
   before 3 5 (serial_order (seqs demo_sequenced 65793)) \<and> \<not> before 5 3 (serial_order (seqs demo_sequenced 131329))"
proof -
  have "run (seq_sys_step demo_groups) demo_epochs (new_seq_sys 2 10 demo_groups) \<noteq> None" by code_simp
  then have run: "run (seq_sys_step demo_groups) demo_epochs (new_seq_sys 2 10 demo_groups) = Some demo_sequenced"
    by (auto simp: demo_sequenced_def)
  have "distinct (concat (map submits demo_epochs))" "length demo_epochs = 12" by code_simp+
  moreover have "leads_ok demo_groups" by (simp add: leads_ok_def demo_groups_def TO_RG_ID_def)
  moreover have "unat (2 :: u32) = length demo_groups" "65793 \<in> snd ` set demo_groups" "131329 \<in> snd ` set demo_groups"
    by (simp_all add: demo_groups_def)
  moreover have so: "serial_order (seqs demo_sequenced 65793) = [3, 5]" "serial_order (seqs demo_sequenced 131329) = [3, 5]"
    "length (scheduled (seqs demo_sequenced 65793)) = 1"
    by code_simp+
  moreover have "before 3 5 (serial_order (seqs demo_sequenced 65793))"
    unfolding so before_def by (intro exI[of _ "[3]"] exI[of _ "[5]"]) simp
  ultimately show ?thesis
    using deterministic_order[OF _ _ run, of 65793 131329] by simp
qed

end
