(* ===== verification/Calvin_Exec.thy ===== *)
theory Calvin_Exec
  imports Calvin_Sequencer Tx_Context
begin

text \<open>
  Execution in the deterministic build: \<^verbatim>\<open>calvin_scheduler.cpp\<close>, \<^verbatim>\<open>calvin_context.cpp\<close>,
  \<^verbatim>\<open>calvin_collector.cpp\<close> and the Calvin handlers of \<^verbatim>\<open>cc_block.cpp\<close>, all in
  \<^verbatim>\<open>src/concurrency\<close>.

  The handlers reach contexts and collectors through the tables of the block, which
  keep what was inserted first under a transaction identifier, so a pointer to a context
  is its identifier.  The counter that the closures of one batch share is a cell
  of \<^verbatim>\<open>num_ops'\<close>, and such a closure is a record that names the cell.
\<close>

section \<open>Tables by terminal\<close>

text \<open>
  \<^verbatim>\<open>std::vector<concurrent_hash_table<xid_t, ...>>\<close> indexed by the terminal of the
  identifier.  The index is unchecked in the code; \<^term>\<open>None\<close> stands for an access past the end.
\<close>

type_synonym 'v tx_table = "(xid_t, 'v) cht list"

definition xid_to_terminal_id :: "xid_t \<Rightarrow> u32" where
  "xid_to_terminal_id xid = ucast (xid AND 0xffffffff)"

definition tbl_at :: "xid_t \<Rightarrow> 'v tx_table \<Rightarrow> (xid_t, 'v) cht option" where
  "tbl_at xid t = (let i = unat (xid_to_terminal_id xid) in if i < length t then Some (t ! i) else None)"

definition tbl_set :: "xid_t \<Rightarrow> (xid_t, 'v) cht \<Rightarrow> 'v tx_table \<Rightarrow> 'v tx_table" where
  "tbl_set xid m t = t[unat (xid_to_terminal_id xid) := m]"

definition tbl_find :: "xid_t \<Rightarrow> 'v tx_table \<Rightarrow> 'v option option" where
  "tbl_find xid t = map_option (cht_find xid) (tbl_at xid t)"

definition tbl_insert :: "xid_t \<Rightarrow> 'v \<Rightarrow> 'v tx_table \<Rightarrow> (bool \<times> 'v tx_table) option" where
  "tbl_insert xid v t = do {
     m \<leftarrow> tbl_at xid t;
     let (ok, m') = cht_insert xid v m;
     Some (ok, tbl_set xid m' t) }"

definition tbl_remove :: "xid_t \<Rightarrow> 'v tx_table \<Rightarrow> 'v tx_table option" where
  "tbl_remove xid t = do { m \<leftarrow> tbl_at xid t; Some (tbl_set xid (snd (cht_remove xid m)) t) }"

text \<open>A change of the object behind the stored pointer.\<close>

definition tbl_store :: "xid_t \<Rightarrow> 'v \<Rightarrow> 'v tx_table \<Rightarrow> 'v tx_table" where
  "tbl_store xid v t = (case tbl_at xid t of None \<Rightarrow> t | Some m \<Rightarrow> tbl_set xid (cht_store xid v m) t)"

lemma tbl_at_set:
  "tbl_at x (tbl_set y m t) =
     (if xid_to_terminal_id x = xid_to_terminal_id y \<and> tbl_at x t \<noteq> None then Some m else tbl_at x t)"
  by (auto simp: tbl_at_def tbl_set_def Let_def nth_list_update dest: unsigned_word_eqI)

lemma tbl_at_same: "xid_to_terminal_id x = xid_to_terminal_id y \<Longrightarrow> tbl_at x t = tbl_at y t"
  by (simp add: tbl_at_def)

lemma tbl_find_store: "tbl_find x (tbl_store y v t) =
    (if x = y \<and> tbl_at x t \<noteq> None then Some (Some v) else tbl_find x t)"
  by (auto simp: tbl_find_def tbl_store_def tbl_at_set cht_find_def cht_store_def split: option.splits dest: tbl_at_same[of x y t])

lemma tbl_find_insert: "tbl_insert y v t = Some (ok, t') \<Longrightarrow>
    tbl_find x t' = (if x = y \<and> tbl_find y t = Some None then Some (Some v) else tbl_find x t)"
  using tbl_at_same[of x y t]
  by (cases "xid_to_terminal_id x = xid_to_terminal_id y")
    (auto simp: tbl_find_def tbl_insert_def tbl_at_set cht_find_def cht_insert_def Let_def
      split: option.splits prod.splits dest!: bind_SomeD)

lemma tbl_remove_same: "tbl_remove x t = Some t' \<Longrightarrow> t' = t"
  by (auto simp: tbl_remove_def tbl_set_def tbl_at_def cht_remove_def Let_def split: if_splits option.splits)

section \<open>State\<close>

record calvin_part_commit =
  cp_source :: node_id_t
  cp_dest :: node_id_t
  cp_xid :: xid_t
  cp_response :: "tx_operation list"

text \<open>The closure \<^verbatim>\<open>fn\<close> of \<^verbatim>\<open>calvin_scheduler::schedule\<close>.\<close>

record calvin_callback =
  cb_num_op :: nat
  cb_op :: tx_operation
  cb_epoch :: u64
  cb_node_ids :: "node_id_t set"

record calvin_context =
  cx_xid' :: xid_t
  cx_node_id' :: node_id_t
  cx_opt_dsb_node_id' :: "node_id_t option"
  cx_dsb_node_ids' :: "shard_id_t \<Rightarrow> node_id_t option"
  collector_id' :: node_id_t
  cx_cno' :: u64
  ops_request' :: tx_request
  log_committed' :: bool
  op_response' :: "u32 \<Rightarrow> tx_operation option"
  op_read' :: "u32 set"
  callback' :: "oid_t \<Rightarrow> calvin_callback option"
  cx_read_only' :: bool
  cx_commit' :: bool

record calvin_collector =
  co_xid' :: xid_t
  co_shard' :: "shard_id_t set"
  co_commit_shard' :: "shard_id_t set"
  co_ops' :: "u32 \<Rightarrow> tx_operation option"
  co_request' :: tx_request

datatype calvin_effect =
    Calvin_lock lock_item
  | Calvin_unlock xid_t lock_mode table_id_t shard_id_t tuple_id_t
  | Calvin_append "tx_log list"
  | Calvin_read node_id_t ccb_read_request
  | Send_CALVIN_EPOCH_ACK node_id_t calvin_epoch_ack
  | Send_CALVIN_PART_COMMIT node_id_t calvin_part_commit
  | Calvin_respond xid_t tx_response
  | Calvin_sequence tx_request

record calvin_node =
  cv_node_id' :: node_id_t
  cv_opt_dsb_node_id' :: "node_id_t option"
  cv_shard2node' :: "shard_id_t \<Rightarrow> node_id_t option"
  cv_cno' :: u64
  cv_sequence' :: u32
  calvin_context' :: "calvin_context tx_table"
  calvin_collector' :: "calvin_collector tx_table"
  num_ops' :: "u64 list"
  cv_out' :: "calvin_effect list"

definition cv_emit :: "calvin_effect \<Rightarrow> calvin_node \<Rightarrow> calvin_node" where
  "cv_emit e s = s\<lparr>cv_out' := cv_out' s @ [e]\<rparr>"

definition cv_emits :: "calvin_effect list \<Rightarrow> calvin_node \<Rightarrow> calvin_node" where
  "cv_emits es s = s\<lparr>cv_out' := cv_out' s @ es\<rparr>"

section \<open>The collector\<close>

definition new_calvin_collector :: "xid_t \<Rightarrow> tx_request \<Rightarrow> calvin_collector option" where
  "new_calvin_collector xid req = do {
     boost_assert (list_all (\<lambda>op. to_tuple_row op = None \<or> ucast (to_sd_id op) = tr_shard_id (op_row op)) (rq_operations req));
     Some \<lparr>co_xid' = xid, co_shard' = to_sd_id ` set (rq_operations req), co_commit_shard' = {}, co_ops' = Map.empty,
       co_request' = req\<lparr>rq_xid := xid, rq_operations := map (\<lambda>op. op\<lparr>to_xid := xid\<rparr>) (rq_operations req)\<rparr>\<rparr> }"

definition collector_respond :: "calvin_collector \<Rightarrow> tx_response" where
  "collector_respond c = no_response\<lparr>rs_error_code := EC_OK,
     rs_operations := List.map_filter (\<lambda>op. co_ops' c (to_operation_id op)) (rq_operations (co_request' c))\<rparr>"

definition part_commit :: "calvin_part_commit \<Rightarrow> calvin_collector \<Rightarrow> bool \<times> calvin_collector" where
  "part_commit msg c =
     (let c = c\<lparr>co_commit_shard' := insert (TO_RG_ID (cp_source msg)) (co_commit_shard' c),
                co_ops' := fold (\<lambda>op m. if m (to_operation_id op) = None then m(to_operation_id op \<mapsto> op) else m)
                  (cp_response msg) (co_ops' c)\<rparr>
      in (card (co_commit_shard' c) = card (co_shard' c), c))"

section \<open>The context of a transaction\<close>

definition new_calvin_context ::
  "xid_t \<Rightarrow> node_id_t \<Rightarrow> node_id_t option \<Rightarrow> (shard_id_t \<Rightarrow> node_id_t option) \<Rightarrow> u64 \<Rightarrow> tx_request \<Rightarrow> calvin_context option" where
  "new_calvin_context xid node dsb shard2node cno req = do {
     boost_assert (rq_source req \<noteq> 0);
     boost_assert (rq_operations req \<noteq> []);
     Some \<lparr>cx_xid' = xid, cx_node_id' = node, cx_opt_dsb_node_id' = dsb, cx_dsb_node_ids' = shard2node,
       collector_id' = rq_source req, cx_cno' = cno, ops_request' = req, log_committed' = False,
       op_response' = Map.empty, op_read' = {}, callback' = Map.empty, cx_read_only' = False, cx_commit' = False\<rparr> }"

definition add_lock_acquire_callback :: "oid_t \<Rightarrow> calvin_callback \<Rightarrow> calvin_context \<Rightarrow> calvin_context" where
  "add_lock_acquire_callback oid fn c = c\<lparr>callback' := (callback' c)(oid \<mapsto> fn)\<rparr>"

text \<open>\<^verbatim>\<open>send_read\<close> leaves the shard of the message at its default.\<close>

definition send_read :: "tx_operation \<Rightarrow> calvin_context \<Rightarrow> calvin_effect option" where
  "send_read op c = do {
     dest \<leftarrow> node_id_of_shard (op_shard_id op) (cx_opt_dsb_node_id' c) (cx_dsb_node_ids' c);
     Some (Calvin_read dest \<lparr>rd_source = cx_node_id' c, rd_dest = dest, rd_cno = cx_cno' c, rd_xid = cx_xid' c,
       rd_oid = to_operation_id op, rd_table_id = tr_table_id (op_row op), rd_shard_id = 0,
       rd_tuple_id = op_key op, rd_debug_send_ts = 0\<rparr>) }"

definition on_operation_done :: "tx_operation \<Rightarrow> tuple_pb \<Rightarrow> calvin_context \<Rightarrow> (calvin_effect list \<times> calvin_context) option" where
  "on_operation_done op tp c = do {
     let o' = op\<lparr>to_tuple_row := Some ((op_row op)\<lparr>tr_tuple := tp\<rparr>)\<rparr>;
     let c = (if op_response' c (to_operation_id op) = None
              then c\<lparr>op_response' := (op_response' c)(to_operation_id op \<mapsto> o')\<rparr> else c);
     e \<leftarrow> send_read op c;
     Some ([e], c) }"

definition unlock_operation :: "xid_t \<Rightarrow> tx_operation \<Rightarrow> calvin_effect option" where
  "unlock_operation xid op = do {
     lm \<leftarrow> op_type_to_lock_mode (to_op_type op);
     Some (Calvin_unlock xid lm (op_table_id op) (op_shard_id op) (op_key op)) }"

fun unlock_operations :: "xid_t \<Rightarrow> tx_operation list \<Rightarrow> calvin_effect list option" where
  "unlock_operations xid [] = Some []"
| "unlock_operations xid (op # ops) = do {
     e \<leftarrow> unlock_operation xid op;
     es \<leftarrow> unlock_operations xid ops;
     Some (e # es) }"

definition tx_commit :: "calvin_context \<Rightarrow> (bool \<times> calvin_effect list \<times> calvin_context) option" where
  "tx_commit c = do {
     boost_assert (rq_operations (ops_request' c) \<noteq> []);
     (if length (rq_operations (ops_request' c)) > card (op_read' c) then Some (False, [], c)
      else if \<not> log_committed' c \<and> \<not> cx_read_only' c then Some (False, [], c)
      else do {
        es \<leftarrow> unlock_operations (cx_xid' c) (rq_operations (ops_request' c));
        Some (True, es @ [Send_CALVIN_PART_COMMIT (collector_id' c)
          \<lparr>cp_source = cx_node_id' c, cp_dest = collector_id' c, cp_xid = cx_xid' c, cp_response = []\<rparr>],
          c\<lparr>cx_commit' := True\<rparr>) }) }"

definition on_operation_committed :: "tx_log \<Rightarrow> calvin_context \<Rightarrow> (bool \<times> calvin_effect list \<times> calvin_context) option" where
  "on_operation_committed log c =
     (if tl_log_type log = TX_CMD_RM_COMMIT then tx_commit (c\<lparr>log_committed' := True\<rparr>) else Some (False, [], c))"

definition read_response :: "dsb_read_response \<Rightarrow> calvin_context \<Rightarrow> (calvin_effect list \<times> calvin_context) option" where
  "read_response res c = do {
     op \<leftarrow> op_response' c (dr_oid res);
     let c = c\<lparr>op_read' := insert (dr_oid res) (op_read' c)\<rparr>;
     let c = (if dr_error_code res = EC_OK \<and> dr_tuple_row res \<noteq> None
              then c\<lparr>op_response' := (op_response' c)(dr_oid res \<mapsto> op\<lparr>to_tuple_row := dr_tuple_row res\<rparr>)\<rparr> else c);
     (_, es, c) \<leftarrow> tx_commit c;
     Some (es, c) }"

section \<open>The scheduler\<close>

definition send_ack :: "u64 \<Rightarrow> node_id_t set \<Rightarrow> calvin_node \<Rightarrow> calvin_node" where
  "send_ack epoch ids s =
     cv_emits (map (\<lambda>n. Send_CALVIN_EPOCH_ACK n \<lparr>ca_source = cv_node_id' s, ca_dest = n, ca_epoch = epoch\<rparr>)
       (sorted_list_of_set ids)) s"

definition create_calvin_context :: "tx_request \<Rightarrow> calvin_node \<Rightarrow> calvin_node option" where
  "create_calvin_context req s = do {
     c \<leftarrow> new_calvin_context (rq_xid req) (cv_node_id' s) (cv_opt_dsb_node_id' s) (cv_shard2node' s) (cv_cno' s) req;
     (_, t) \<leftarrow> tbl_insert (rq_xid req) c (calvin_context' s);
     Some (s\<lparr>calvin_context' := t\<rparr>) }"

definition set_read_only :: "xid_t \<Rightarrow> calvin_node \<Rightarrow> calvin_node" where
  "set_read_only xid s = (case tbl_find xid (calvin_context' s) of
     Some (Some c) \<Rightarrow> s\<lparr>calvin_context' := tbl_store xid (c\<lparr>cx_read_only' := True\<rparr>) (calvin_context' s)\<rparr> | _ \<Rightarrow> s)"

text \<open>\<^verbatim>\<open>fn_find_\<close> is the closure of \<^verbatim>\<open>cc_block::on_start\<close>; \<^term>\<open>seen\<close> are the keys of \<^verbatim>\<open>ctx_set\<close>.\<close>

definition fn_find :: "tx_request \<Rightarrow> calvin_node \<Rightarrow> calvin_node option" where
  "fn_find req s = do {
     r \<leftarrow> tbl_find (rq_xid req) (calvin_context' s);
     (if r = None then create_calvin_context req s else Some s) }"

definition create_or_find :: "xid_t set \<Rightarrow> tx_request \<Rightarrow> bool \<Rightarrow> calvin_node \<Rightarrow> calvin_node option" where
  "create_or_find seen req read_only s =
     (if rq_xid req \<in> seen then Some s
      else map_option (\<lambda>s. if read_only then set_read_only (rq_xid req) s else s) (fn_find req s))"

definition request_log :: "tx_request \<Rightarrow> tx_log option" where
  "request_log req = do {
     let ws = filter (\<lambda>op. is_write_operation (to_op_type op)) (rq_operations req);
     boost_assert (list_all (\<lambda>op. (to_op_type op = TX_OP_INSERT \<or> to_op_type op = TX_OP_UPDATE) \<longrightarrow>
       to_tuple_row op \<noteq> None \<and> \<not> is_tuple_nil (tr_tuple (op_row op))) ws);
     Some \<lparr>tl_log_type = TX_CMD_RM_COMMIT, tl_xid = rq_xid req, tl_operations = ws\<rparr> }"

fun schedule_logs :: "xid_t set \<Rightarrow> tx_request list \<Rightarrow> calvin_node \<Rightarrow> (tx_log list \<times> calvin_node) option" where
  "schedule_logs seen [] s = Some ([], s)"
| "schedule_logs seen (req # reqs) s = do {
     l \<leftarrow> request_log req;
     s \<leftarrow> create_or_find seen req (tl_operations l = []) s;
     (ls, s) \<leftarrow> schedule_logs (insert (rq_xid req) seen) reqs s;
     Some (l # ls, s) }"

definition schedule_lock :: "nat \<Rightarrow> calvin_epoch_ops \<Rightarrow> tx_request \<Rightarrow> tx_operation \<Rightarrow> calvin_node \<Rightarrow> calvin_node option" where
  "schedule_lock cell e req op s = do {
     lt \<leftarrow> op_type_to_lock_mode (to_op_type op);
     r \<leftarrow> tbl_find (rq_xid req) (calvin_context' s);
     c \<leftarrow> r;
     let fn = \<lparr>cb_num_op = cell, cb_op = op, cb_epoch = eo_epoch' e, cb_node_ids = eo_node_ids' e\<rparr>;
     let s = s\<lparr>calvin_context' := tbl_store (rq_xid req) (add_lock_acquire_callback (to_operation_id op) fn c) (calvin_context' s)\<rparr>;
     Some (cv_emit (Calvin_lock \<lparr>li_xid = to_xid op, li_oid = to_operation_id op, li_type = lt,
       li_table_id = op_table_id op, li_shard_id = op_shard_id op, li_key = op_key op\<rparr>) s) }"

fun schedule_locks :: "nat \<Rightarrow> calvin_epoch_ops \<Rightarrow> (tx_request \<times> tx_operation) list \<Rightarrow> calvin_node \<Rightarrow> calvin_node option" where
  "schedule_locks cell e [] s = Some s"
| "schedule_locks cell e ((req, op) # xs) s = do { s \<leftarrow> schedule_lock cell e req op s; schedule_locks cell e xs s }"

definition batch_operations :: "tx_request list \<Rightarrow> (tx_request \<times> tx_operation) list" where
  "batch_operations reqs = concat (map (\<lambda>req. map (Pair req) (rq_operations req)) reqs)"

definition schedule :: "calvin_epoch_ops \<Rightarrow> calvin_node \<Rightarrow> calvin_node option" where
  "schedule e s =
     (if eo_reqs' e = [] then Some (send_ack (eo_epoch' e) (eo_node_ids' e) s)
      else do {
        (entry, s) \<leftarrow> schedule_logs {} (eo_reqs' e) s;
        let s = cv_emit (Calvin_append entry) s;
        let cell = length (num_ops' s);
        let s = s\<lparr>num_ops' := num_ops' s @ [of_nat (length (batch_operations (eo_reqs' e)))]\<rparr>;
        schedule_locks cell e (batch_operations (eo_reqs' e)) s })"

text \<open>\<^verbatim>\<open>calvin_context::async_lock_acquire\<close> with the closure it calls.\<close>

definition run_callback :: "EC \<Rightarrow> xid_t \<Rightarrow> calvin_callback \<Rightarrow> calvin_node \<Rightarrow> calvin_node option" where
  "run_callback ec xid fn s = do {
     boost_assert (ec = EC_OK);
     let n = num_ops' s ! cb_num_op fn - 1;
     let s = s\<lparr>num_ops' := (num_ops' s)[cb_num_op fn := n]\<rparr>;
     let s = (if n = 0 then send_ack (cb_epoch fn) (cb_node_ids fn) s else s);
     r \<leftarrow> tbl_find xid (calvin_context' s);
     c \<leftarrow> r;
     (es, c) \<leftarrow> on_operation_done (cb_op fn) [] c;
     Some (cv_emits es (s\<lparr>calvin_context' := tbl_store xid c (calvin_context' s)\<rparr>)) }"

definition async_lock_acquire :: "EC \<Rightarrow> xid_t \<Rightarrow> oid_t \<Rightarrow> calvin_node \<Rightarrow> calvin_node option" where
  "async_lock_acquire ec xid oid s = do {
     r \<leftarrow> tbl_find xid (calvin_context' s);
     c \<leftarrow> r;
     (case callback' c oid of None \<Rightarrow> Some s | Some fn \<Rightarrow> run_callback ec xid fn s) }"

section \<open>The handlers of the block\<close>

definition gen_xid :: "u32 \<Rightarrow> u32 \<Rightarrow> (u64 \<times> u32) option" where
  "gen_xid terminal_id sq = do {
     let seq = sq + 1;
     boost_assert (terminal_id \<noteq> 0);
     Some (make_uint64 seq terminal_id, seq) }"

definition handle_calvin_tx_request :: "tx_request \<Rightarrow> calvin_node \<Rightarrow> calvin_node option" where
  "handle_calvin_tx_request req s = do {
     (xid, seq) \<leftarrow> gen_xid (rq_terminal_id req) (cv_sequence' s);
     let s = s\<lparr>cv_sequence' := seq\<rparr>;
     c \<leftarrow> new_calvin_collector xid req;
     (_, t) \<leftarrow> tbl_insert xid c (calvin_collector' s);
     Some (cv_emit (Calvin_sequence (co_request' c)) (s\<lparr>calvin_collector' := t\<rparr>)) }"

definition calvin_log_commit :: "tx_log \<Rightarrow> calvin_node \<Rightarrow> calvin_node option" where
  "calvin_log_commit log s = do {
     r \<leftarrow> tbl_find (tl_xid log) (calvin_context' s);
     (case r of
        None \<Rightarrow> Some s
      | Some c \<Rightarrow> do {
          (committed, es, c) \<leftarrow> on_operation_committed log c;
          let s = cv_emits es (s\<lparr>calvin_context' := tbl_store (tl_xid log) c (calvin_context' s)\<rparr>);
          t \<leftarrow> (if committed then tbl_remove (tl_xid log) (calvin_context' s) else Some (calvin_context' s));
          Some (s\<lparr>calvin_context' := t\<rparr>) }) }"

definition handle_calvin_log_commit :: "tx_log list \<Rightarrow> calvin_node \<Rightarrow> calvin_node option" where
  "handle_calvin_log_commit logs s = run calvin_log_commit logs s"

definition handle_calvin_part_commit :: "calvin_part_commit \<Rightarrow> calvin_node \<Rightarrow> calvin_node option" where
  "handle_calvin_part_commit msg s = do {
     r \<leftarrow> tbl_find (cp_xid msg) (calvin_collector' s);
     (case r of
        None \<Rightarrow> Some s
      | Some c \<Rightarrow> do {
          let (all_committed, c) = part_commit msg c;
          let s = s\<lparr>calvin_collector' := tbl_store (cp_xid msg) c (calvin_collector' s)\<rparr>;
          (if all_committed then do {
             t \<leftarrow> tbl_remove (cp_xid msg) (calvin_collector' s);
             Some (cv_emit (Calvin_respond (cp_xid msg) (collector_respond c)) (s\<lparr>calvin_collector' := t\<rparr>)) }
           else Some s) }) }"

definition handle_calvin_read_response :: "dsb_read_response \<Rightarrow> calvin_node \<Rightarrow> calvin_node option" where
  "handle_calvin_read_response msg s = do {
     r \<leftarrow> tbl_find (dr_xid msg) (calvin_context' s);
     (case r of
        None \<Rightarrow> Some s
      | Some c \<Rightarrow> do {
          (es, c) \<leftarrow> read_response msg c;
          Some (cv_emits es (s\<lparr>calvin_context' := tbl_store (dr_xid msg) c (calvin_context' s)\<rparr>)) }) }"

end
