(* ===== verification/Calvin_Commit.thy ===== *)
theory Calvin_Commit
  imports Calvin_Exec
begin

text \<open>
  What the deterministic execution promises: locks are requested in the order
  of the batch, an epoch is acknowledged when its last lock is granted, a collector
  answers when every shard has reported, and where a context commits twice.
\<close>

section \<open>A batch\<close>

definition lock_requests :: "calvin_node \<Rightarrow> lock_item list" where
  "lock_requests s = List.map_filter (\<lambda>e. case e of Calvin_lock l \<Rightarrow> Some l | _ \<Rightarrow> None) (cv_out' s)"

definition epoch_acks :: "calvin_node \<Rightarrow> (node_id_t \<times> calvin_epoch_ack) list" where
  "epoch_acks s = List.map_filter (\<lambda>e. case e of Send_CALVIN_EPOCH_ACK n a \<Rightarrow> Some (n, a) | _ \<Rightarrow> None) (cv_out' s)"

lemma effects_append [simp]:
  "lock_requests (cv_emits es s) = lock_requests s @ List.map_filter (\<lambda>e. case e of Calvin_lock l \<Rightarrow> Some l | _ \<Rightarrow> None) es"
  "epoch_acks (cv_emits es s) = epoch_acks s @ List.map_filter (\<lambda>e. case e of Send_CALVIN_EPOCH_ACK n a \<Rightarrow> Some (n, a) | _ \<Rightarrow> None) es"
  "lock_requests (cv_emit e s) = lock_requests s @ (case e of Calvin_lock l \<Rightarrow> [l] | _ \<Rightarrow> [])"
  "epoch_acks (cv_emit e s) = epoch_acks s @ (case e of Send_CALVIN_EPOCH_ACK n a \<Rightarrow> [(n, a)] | _ \<Rightarrow> [])"
  by (auto simp: lock_requests_def epoch_acks_def cv_emits_def cv_emit_def map_filter_def split: calvin_effect.split)

lemma effects_update [simp]:
  "lock_requests (s\<lparr>calvin_context' := t\<rparr>) = lock_requests s" "epoch_acks (s\<lparr>calvin_context' := t\<rparr>) = epoch_acks s"
  "lock_requests (s\<lparr>num_ops' := ns\<rparr>) = lock_requests s" "epoch_acks (s\<lparr>num_ops' := ns\<rparr>) = epoch_acks s"
  by (simp_all add: lock_requests_def epoch_acks_def)

lemma fields_emit [simp]:
  "calvin_context' (cv_emit e s) = calvin_context' s" "calvin_context' (cv_emits es s) = calvin_context' s"
  "num_ops' (cv_emit e s) = num_ops' s" "num_ops' (cv_emits es s) = num_ops' s"
  "cv_node_id' (cv_emit e s) = cv_node_id' s" "cv_node_id' (cv_emits es s) = cv_node_id' s"
  by (simp_all add: cv_emit_def cv_emits_def)

text \<open>The lock request of an operation, and the acknowledgements of an epoch.\<close>

definition op_lock :: "tx_operation \<Rightarrow> lock_item" where
  "op_lock op = \<lparr>li_xid = to_xid op, li_oid = to_operation_id op,
     li_type = the (op_type_to_lock_mode (to_op_type op)), li_table_id = op_table_id op,
     li_shard_id = op_shard_id op, li_key = op_key op\<rparr>"

definition acks_of :: "node_id_t \<Rightarrow> calvin_epoch_ops \<Rightarrow> (node_id_t \<times> calvin_epoch_ack) list" where
  "acks_of node e = map (\<lambda>n. (n, \<lparr>ca_source = node, ca_dest = n, ca_epoch = eo_epoch' e\<rparr>)) (sorted_list_of_set (eo_node_ids' e))"

text \<open>The closure that waits for the lock of an operation.\<close>

definition waits :: "node_id_t \<Rightarrow> calvin_node \<Rightarrow> xid_t \<Rightarrow> oid_t \<Rightarrow> calvin_callback \<Rightarrow> bool" where
  "waits d s x oid fn \<longleftrightarrow> (\<exists>c. tbl_find x (calvin_context' s) = Some (Some c) \<and> callback' c oid = Some fn \<and>
     cx_opt_dsb_node_id' c = Some d)"

definition batch_key :: "tx_request \<times> tx_operation \<Rightarrow> xid_t \<times> oid_t" where
  "batch_key ro = (rq_xid (fst ro), to_operation_id (snd ro))"

definition batch_fn :: "nat \<Rightarrow> calvin_epoch_ops \<Rightarrow> tx_request \<times> tx_operation \<Rightarrow> calvin_callback" where
  "batch_fn cell e ro = \<lparr>cb_num_op = cell, cb_op = snd ro, cb_epoch = eo_epoch' e, cb_node_ids = eo_node_ids' e\<rparr>"

lemma tbl_find_at: "tbl_find x t = Some r \<Longrightarrow> tbl_at x t \<noteq> None"
  by (auto simp: tbl_find_def)

text \<open>What the steps that register a lock leave alone.\<close>

definition dsb_of :: "xid_t \<Rightarrow> calvin_node \<Rightarrow> node_id_t option" where
  "dsb_of x s = do { r \<leftarrow> tbl_find x (calvin_context' s); c \<leftarrow> r; cx_opt_dsb_node_id' c }"

lemma schedule_lock_step:
  assumes "schedule_lock cell e req op s = Some s'"
  shows "num_ops' s' = num_ops' s" "cv_node_id' s' = cv_node_id' s" "epoch_acks s' = epoch_acks s"
    "lock_requests s' = lock_requests s @ [op_lock op]" "dsb_of x s' = dsb_of x s"
    "dsb_of (rq_xid req) s = Some d \<Longrightarrow> waits d s' (rq_xid req) (to_operation_id op) (batch_fn cell e (req, op))"
    "waits d s x oid fn \<Longrightarrow> (x, oid) \<noteq> batch_key (req, op) \<Longrightarrow> waits d s' x oid fn"
proof -
  obtain c lt where c: "tbl_find (rq_xid req) (calvin_context' s) = Some (Some c)" "op_type_to_lock_mode (to_op_type op) = Some lt"
    and s': "s' = cv_emit (Calvin_lock \<lparr>li_xid = to_xid op, li_oid = to_operation_id op, li_type = lt,
       li_table_id = op_table_id op, li_shard_id = op_shard_id op, li_key = op_key op\<rparr>)
      (s\<lparr>calvin_context' := tbl_store (rq_xid req) (c\<lparr>callback' := (callback' c)(to_operation_id op \<mapsto> batch_fn cell e (req, op))\<rparr>) (calvin_context' s)\<rparr>)"
    using assms by (auto simp: schedule_lock_def Let_def batch_fn_def add_lock_acquire_callback_def dest!: bind_SomeD)
  have find: "tbl_find x (calvin_context' s') = (if x = rq_xid req
      then Some (Some (c\<lparr>callback' := (callback' c)(to_operation_id op \<mapsto> batch_fn cell e (req, op))\<rparr>))
      else tbl_find x (calvin_context' s))" for x
    using tbl_find_at[OF c(1)] by (simp add: s' tbl_find_store)
  show "num_ops' s' = num_ops' s" "cv_node_id' s' = cv_node_id' s" "epoch_acks s' = epoch_acks s"
    "lock_requests s' = lock_requests s @ [op_lock op]"
    by (simp_all add: s' op_lock_def c(2))
  show "dsb_of x s' = dsb_of x s" using c(1) by (simp add: dsb_of_def find)
  show "dsb_of (rq_xid req) s = Some d \<Longrightarrow> waits d s' (rq_xid req) (to_operation_id op) (batch_fn cell e (req, op))"
    using c(1) by (simp add: dsb_of_def waits_def find)
  show "waits d s x oid fn \<Longrightarrow> (x, oid) \<noteq> batch_key (req, op) \<Longrightarrow> waits d s' x oid fn"
    using c(1) by (auto simp: waits_def find batch_key_def)
qed

lemma schedule_locks_run:
  assumes "schedule_locks cell e xs s = Some s'" "distinct (map batch_key xs)"
    "\<And>ro. ro \<in> set xs \<Longrightarrow> dsb_of (rq_xid (fst ro)) s = Some d"
  shows "num_ops' s' = num_ops' s \<and> cv_node_id' s' = cv_node_id' s \<and> epoch_acks s' = epoch_acks s \<and>
    lock_requests s' = lock_requests s @ map (op_lock \<circ> snd) xs \<and>
    (\<forall>x oid fn. waits d s x oid fn \<longrightarrow> (x, oid) \<notin> batch_key ` set xs \<longrightarrow> waits d s' x oid fn) \<and>
    (\<forall>ro \<in> set xs. waits d s' (rq_xid (fst ro)) (to_operation_id (snd ro)) (batch_fn cell e ro))"
  using assms
proof (induction cell e xs s rule: schedule_locks.induct)
  case (2 cell e req op xs s)
  obtain s1 where s1: "schedule_lock cell e req op s = Some s1" "schedule_locks cell e xs s1 = Some s'"
    using "2.prems"(1) by auto
  note step = schedule_lock_step[OF s1(1)]
  have dsb: "dsb_of (rq_xid (fst ro)) s1 = Some d" if "ro \<in> set xs" for ro using "2.prems"(3)[of ro] that step(5) by simp
  have IH: "num_ops' s' = num_ops' s1 \<and> cv_node_id' s' = cv_node_id' s1 \<and> epoch_acks s' = epoch_acks s1 \<and>
    lock_requests s' = lock_requests s1 @ map (op_lock \<circ> snd) xs \<and>
    (\<forall>x oid fn. waits d s1 x oid fn \<longrightarrow> (x, oid) \<notin> batch_key ` set xs \<longrightarrow> waits d s' x oid fn) \<and>
    (\<forall>ro \<in> set xs. waits d s' (rq_xid (fst ro)) (to_operation_id (snd ro)) (batch_fn cell e ro))"
    by (rule "2.IH"[OF s1]) (use "2.prems"(2) dsb in auto)
  have own: "waits d s1 (rq_xid req) (to_operation_id op) (batch_fn cell e (req, op))"
    using step(6)[of d] "2.prems"(3)[of "(req, op)"] by simp
  have key: "batch_key (req, op) \<notin> batch_key ` set xs" using "2.prems"(2) by simp
  have "waits d s' (rq_xid req) (to_operation_id op) (batch_fn cell e (req, op))"
    using IH own key by (simp add: batch_key_def)
  moreover have "waits d s' x oid fn" if "waits d s x oid fn" "(x, oid) \<notin> batch_key ` set ((req, op) # xs)" for x oid fn
    using IH step(7)[OF that(1)] that(2) by auto
  ultimately show ?case using IH step(1-4) by auto
qed simp

text \<open>The first loop of \<^verbatim>\<open>schedule\<close>: a log record and a context for every request.\<close>

lemma fn_find_step:
  assumes "fn_find req s = Some s'" "cv_opt_dsb_node_id' s = Some d"
    "tbl_find (rq_xid req) (calvin_context' s) = Some None \<or> dsb_of (rq_xid req) s = Some d"
  shows "num_ops' s' = num_ops' s \<and> cv_node_id' s' = cv_node_id' s \<and> cv_out' s' = cv_out' s \<and>
    cv_opt_dsb_node_id' s' = Some d \<and> dsb_of (rq_xid req) s' = Some d \<and>
    (\<forall>x. x \<noteq> rq_xid req \<longrightarrow> tbl_find x (calvin_context' s') = tbl_find x (calvin_context' s))"
proof (cases "tbl_find (rq_xid req) (calvin_context' s) = Some None")
  case True
  then obtain c ok t where c: "new_calvin_context (rq_xid req) (cv_node_id' s) (Some d) (cv_shard2node' s) (cv_cno' s) req = Some c"
    and t: "tbl_insert (rq_xid req) c (calvin_context' s) = Some (ok, t)" "s' = s\<lparr>calvin_context' := t\<rparr>"
    using assms by (auto simp: fn_find_def create_calvin_context_def dest!: bind_SomeD)
  have "cx_opt_dsb_node_id' c = Some d" using c by (auto simp: new_calvin_context_def split: if_splits)
  then show ?thesis using assms(2) True by (simp add: t(2) dsb_of_def tbl_find_insert[OF t(1)])
next
  case False
  then have "s' = s" using assms(1) by (auto simp: fn_find_def dest!: bind_SomeD split: if_splits)
  then show ?thesis using assms False by simp
qed

lemma set_read_only_step:
  "num_ops' (set_read_only x s) = num_ops' s \<and> cv_node_id' (set_read_only x s) = cv_node_id' s \<and> cv_out' (set_read_only x s) = cv_out' s \<and>
    cv_opt_dsb_node_id' (set_read_only x s) = cv_opt_dsb_node_id' s \<and> dsb_of y (set_read_only x s) = dsb_of y s \<and>
    (y \<noteq> x \<longrightarrow> tbl_find y (calvin_context' (set_read_only x s)) = tbl_find y (calvin_context' s))"
  by (auto simp: set_read_only_def dsb_of_def tbl_find_store split: option.splits)

lemma create_or_find_step:
  assumes "create_or_find seen req ro s = Some s'" "cv_opt_dsb_node_id' s = Some d"
    "\<And>x. x \<in> seen \<Longrightarrow> dsb_of x s = Some d"
    "rq_xid req \<notin> seen \<Longrightarrow> tbl_find (rq_xid req) (calvin_context' s) = Some None \<or> dsb_of (rq_xid req) s = Some d"
  shows "num_ops' s' = num_ops' s \<and> cv_node_id' s' = cv_node_id' s \<and> cv_out' s' = cv_out' s \<and>
    cv_opt_dsb_node_id' s' = Some d \<and> dsb_of (rq_xid req) s' = Some d \<and>
    (\<forall>x. x \<noteq> rq_xid req \<longrightarrow> tbl_find x (calvin_context' s') = tbl_find x (calvin_context' s))"
proof (cases "rq_xid req \<in> seen")
  case True
  then show ?thesis using assms by (simp add: create_or_find_def)
next
  case False
  then obtain s1 where s1: "fn_find req s = Some s1" "s' = (if ro then set_read_only (rq_xid req) s1 else s1)"
    using assms(1) by (auto simp: create_or_find_def)
  show ?thesis using fn_find_step[OF s1(1) assms(2) assms(4)[OF False]] set_read_only_step[of "rq_xid req" s1] unfolding s1(2) by auto
qed

lemma schedule_logs_run:
  assumes "schedule_logs seen reqs s = Some (ls, s')" "cv_opt_dsb_node_id' s = Some d"
    "\<And>x. x \<in> seen \<Longrightarrow> dsb_of x s = Some d"
    "\<And>req. req \<in> set reqs \<Longrightarrow> rq_xid req \<notin> seen \<Longrightarrow> tbl_find (rq_xid req) (calvin_context' s) = Some None"
  shows "num_ops' s' = num_ops' s \<and> cv_node_id' s' = cv_node_id' s \<and> cv_out' s' = cv_out' s \<and>
    map tl_xid ls = map rq_xid reqs \<and> (\<forall>x \<in> seen \<union> rq_xid ` set reqs. dsb_of x s' = Some d)"
  using assms
proof (induction seen reqs s arbitrary: ls rule: schedule_logs.induct)
  case (2 seen req reqs s)
  obtain l s1 ls1 where s1: "request_log req = Some l" "create_or_find seen req (tl_operations l = []) s = Some s1"
    "schedule_logs (insert (rq_xid req) seen) reqs s1 = Some (ls1, s')" "ls = l # ls1"
    using "2.prems"(1) by (auto dest!: bind_SomeD)
  have step: "num_ops' s1 = num_ops' s \<and> cv_node_id' s1 = cv_node_id' s \<and> cv_out' s1 = cv_out' s \<and>
    cv_opt_dsb_node_id' s1 = Some d \<and> dsb_of (rq_xid req) s1 = Some d \<and>
    (\<forall>x. x \<noteq> rq_xid req \<longrightarrow> tbl_find x (calvin_context' s1) = tbl_find x (calvin_context' s))"
    by (rule create_or_find_step[OF s1(2)]) (use "2.prems" in auto)
  have keep: "dsb_of x s1 = dsb_of x s" if "x \<noteq> rq_xid req" for x using step that by (simp add: dsb_of_def)
  have IH: "num_ops' s' = num_ops' s1 \<and> cv_node_id' s' = cv_node_id' s1 \<and> cv_out' s' = cv_out' s1 \<and>
    map tl_xid ls1 = map rq_xid reqs \<and> (\<forall>x \<in> insert (rq_xid req) seen \<union> rq_xid ` set reqs. dsb_of x s' = Some d)"
  proof (rule "2.IH"[OF s1(1,2,3)])
    show "dsb_of x s1 = Some d" if "x \<in> insert (rq_xid req) seen" for x
      using that step keep[of x] "2.prems"(3)[of x] by (cases "x = rq_xid req") auto
    show "tbl_find (rq_xid r) (calvin_context' s1) = Some None" if "r \<in> set reqs" "rq_xid r \<notin> insert (rq_xid req) seen" for r
      using that step "2.prems"(4)[of r] by simp
  qed (use step in simp)
  have "tl_xid l = rq_xid req" using s1(1) by (auto simp: request_log_def Let_def split: if_splits)
  then show ?case using IH step by (auto simp: s1(4))
qed simp

section \<open>Granting the locks\<close>

definition cv_grant :: "xid_t \<times> oid_t \<Rightarrow> calvin_node \<Rightarrow> calvin_node option" where
  "cv_grant g s = async_lock_acquire EC_OK (fst g) (snd g) s"

lemma cv_grant_step:
  assumes w: "waits d s x oid fn" and fn: "cb_num_op fn = cell" "num_ops' s ! cell = n"
  shows "\<exists>s'. cv_grant (x, oid) s = Some s' \<and> num_ops' s' = (num_ops' s)[cell := n - 1] \<and> cv_node_id' s' = cv_node_id' s \<and>
    epoch_acks s' = epoch_acks s @ (if n = 1 then map (\<lambda>k. (k, \<lparr>ca_source = cv_node_id' s, ca_dest = k, ca_epoch = cb_epoch fn\<rparr>))
      (sorted_list_of_set (cb_node_ids fn)) else []) \<and>
    (\<forall>x' oid' fn'. waits d s x' oid' fn' \<longrightarrow> waits d s' x' oid' fn')"
proof -
  obtain c where c: "tbl_find x (calvin_context' s) = Some (Some c)" "callback' c oid = Some fn" "cx_opt_dsb_node_id' c = Some d"
    using w by (auto simp: waits_def)
  define s1 where "s1 = (let s = s\<lparr>num_ops' := (num_ops' s)[cell := n - 1]\<rparr>
    in if n - 1 = 0 then send_ack (cb_epoch fn) (cb_node_ids fn) s else s)"
  have s1: "calvin_context' s1 = calvin_context' s" "num_ops' s1 = (num_ops' s)[cell := n - 1]" "cv_node_id' s1 = cv_node_id' s"
    "epoch_acks s1 = epoch_acks s @ (if n = 1 then map (\<lambda>k. (k, \<lparr>ca_source = cv_node_id' s, ca_dest = k, ca_epoch = cb_epoch fn\<rparr>))
      (sorted_list_of_set (cb_node_ids fn)) else [])"
    by (auto simp: s1_def Let_def send_ack_def map_filter_def comp_def)
  obtain r c' where od: "on_operation_done (cb_op fn) [] c = Some ([Calvin_read d r], c')"
    and c': "callback' c' = callback' c" "cx_opt_dsb_node_id' c' = Some d"
    using c(3) by (cases "op_response' c (to_operation_id (cb_op fn))")
      (simp_all add: on_operation_done_def send_read_def node_id_of_shard_def)
  define s2 where "s2 = cv_emits [Calvin_read d r] (s1\<lparr>calvin_context' := tbl_store x c' (calvin_context' s1)\<rparr>)"
  have "cv_grant (x, oid) s = Some s2"
    using c fn od by (cases "n = 1")
      (simp_all add: cv_grant_def async_lock_acquire_def run_callback_def s1_def s2_def send_ack_def)
  moreover have "waits d s2 x' oid' fn'" if "waits d s x' oid' fn'" for x' oid' fn'
    using that c c' tbl_find_at[OF c(1)] by (auto simp: waits_def s2_def s1(1) tbl_find_store)
  ultimately show ?thesis using s1 by (simp add: s2_def map_filter_def)
qed

lemma cv_grants_run:
  assumes "\<And>ro. ro \<in> set xs \<Longrightarrow> waits d s (rq_xid (fst ro)) (to_operation_id (snd ro)) (batch_fn cell e ro)"
    and "num_ops' s ! cell = of_nat k" "cell < length (num_ops' s)" "length gs \<le> k" "k < 2 ^ 64" "k > 0" "set gs \<subseteq> batch_key ` set xs"
  shows "\<exists>s'. run cv_grant gs s = Some s' \<and>
    epoch_acks s' = epoch_acks s @ (if length gs = k then acks_of (cv_node_id' s) e else [])"
  using assms
proof (induction gs arbitrary: s k)
  case (Cons g gs)
  obtain ro where ro: "ro \<in> set xs" "g = batch_key ro" using Cons.prems(7) by auto
  obtain s1 where s1: "cv_grant g s = Some s1" "num_ops' s1 = (num_ops' s)[cell := of_nat k - 1]" "cv_node_id' s1 = cv_node_id' s"
    "epoch_acks s1 = epoch_acks s @ (if (of_nat k :: u64) = 1 then acks_of (cv_node_id' s) e else [])"
    "\<forall>x oid fn. waits d s x oid fn \<longrightarrow> waits d s1 x oid fn"
    using cv_grant_step[OF Cons.prems(1)[OF ro(1)] _ Cons.prems(2)]
    by (auto simp: batch_fn_def acks_of_def ro(2) batch_key_def)
  have one: "(of_nat k :: u64) = 1 \<longleftrightarrow> k = 1"
  proof -
    have "unat (of_nat k :: u64) = k" using Cons.prems(5) by (simp add: unsigned_of_nat take_bit_nat_eq_self)
    then show ?thesis by (metis of_nat_1 unsigned_1)
  qed
  show ?case
  proof (cases "k = 1")
    case True
    then have "gs = []" using Cons.prems(4) by simp
    then show ?thesis using s1 one True by simp
  next
    case False
    have "\<exists>s'. run cv_grant gs s1 = Some s' \<and>
      epoch_acks s' = epoch_acks s1 @ (if length gs = k - 1 then acks_of (cv_node_id' s1) e else [])"
      by (rule Cons.IH) (use Cons.prems s1 False in \<open>auto simp: of_nat_diff\<close>)
    then show ?thesis using s1 one False Cons.prems(6) by (auto simp: Suc_diff_Suc)
  qed
qed auto

text \<open>
  (C14) An epoch is acknowledged when its locks are held.  Scheduling a batch of new
  transactions requests the locks of all its operations, in the order of the
  batch.  However many of them have been granted, in whatever order: no acknowledgement of the
  epoch is sent before the last one, and with the last one every node of the epoch gets
  exactly one.
\<close>

theorem epoch_acked_when_locked:
  assumes run: "schedule e s = Some s1" and ne: "eo_reqs' e \<noteq> []" and dsb: "cv_opt_dsb_node_id' s = Some d"
    and new: "\<And>req. req \<in> set (eo_reqs' e) \<Longrightarrow> tbl_find (rq_xid req) (calvin_context' s) = Some None"
    and keys: "distinct (map batch_key (batch_operations (eo_reqs' e)))" "batch_operations (eo_reqs' e) \<noteq> []"
      "length (batch_operations (eo_reqs' e)) < 2 ^ 64"
    and gs: "distinct gs" "set gs \<subseteq> batch_key ` set (batch_operations (eo_reqs' e))"
  shows "lock_requests s1 = lock_requests s @ map (op_lock \<circ> snd) (batch_operations (eo_reqs' e)) \<and>
    (\<exists>s2. run cv_grant gs s1 = Some s2 \<and> epoch_acks s2 = epoch_acks s @
      (if length gs = length (batch_operations (eo_reqs' e)) then acks_of (cv_node_id' s) e else []))"
proof -
  let ?xs = "batch_operations (eo_reqs' e)"
  obtain ls s0 where s0: "schedule_logs {} (eo_reqs' e) s = Some (ls, s0)"
    and locks: "schedule_locks (length (num_ops' s0)) e ?xs
      ((cv_emit (Calvin_append ls) s0)\<lparr>num_ops' := num_ops' s0 @ [of_nat (length ?xs)]\<rparr>) = Some s1"
    using run ne by (auto simp: schedule_def Let_def dest!: bind_SomeD)
  let ?s = "(cv_emit (Calvin_append ls) s0)\<lparr>num_ops' := num_ops' s0 @ [of_nat (length ?xs)]\<rparr>"
  have logs: "num_ops' s0 = num_ops' s \<and> cv_node_id' s0 = cv_node_id' s \<and> cv_out' s0 = cv_out' s \<and>
    map tl_xid ls = map rq_xid (eo_reqs' e) \<and> (\<forall>x \<in> {} \<union> rq_xid ` set (eo_reqs' e). dsb_of x s0 = Some d)"
    by (rule schedule_logs_run[OF s0 dsb]) (use new in auto)
  have same: "lock_requests s0 = lock_requests s" "epoch_acks s0 = epoch_acks s"
    using logs by (simp_all add: lock_requests_def epoch_acks_def)
  have "dsb_of (rq_xid (fst ro)) ?s = Some d" if "ro \<in> set ?xs" for ro
    using logs that by (auto simp: batch_operations_def dsb_of_def)
  from schedule_locks_run[OF locks keys(1) this]
  have s1: "num_ops' s1 = num_ops' s0 @ [of_nat (length ?xs)]" "cv_node_id' s1 = cv_node_id' s" "epoch_acks s1 = epoch_acks s"
    "lock_requests s1 = lock_requests s @ map (op_lock \<circ> snd) ?xs"
    "\<And>ro. ro \<in> set ?xs \<Longrightarrow> waits d s1 (rq_xid (fst ro)) (to_operation_id (snd ro)) (batch_fn (length (num_ops' s0)) e ro)"
    using logs same by auto
  have "length gs \<le> length ?xs"
    using card_mono[OF _ gs(2)] distinct_card[OF gs(1)] card_image_le[of "set ?xs" batch_key] card_length[of ?xs] by simp
  from cv_grants_run[OF s1(5) _ _ this keys(3) _ gs(2)] s1(1) keys(2)
  have "\<exists>s2. run cv_grant gs s1 = Some s2 \<and> epoch_acks s2 = epoch_acks s1 @
      (if length gs = length ?xs then acks_of (cv_node_id' s1) e else [])" by simp
  then show ?thesis using s1(4) unfolding s1(2,3) by blast
qed

definition demo_calvin :: calvin_node where
  "demo_calvin = \<lparr>cv_node_id' = 65793, cv_opt_dsb_node_id' = Some 65796, cv_shard2node' = Map.empty, cv_cno' = 1,
     cv_sequence' = 0, calvin_context' = replicate 3 Map.empty, calvin_collector' = replicate 3 Map.empty, num_ops' = [], cv_out' = []\<rparr>"

definition demo_call :: "tx_op_type \<Rightarrow> xid_t \<Rightarrow> u32 \<Rightarrow> u64 \<Rightarrow> tx_operation" where
  "demo_call ty x oid key = no_operation\<lparr>to_op_type := ty, to_xid := x, to_operation_id := oid, to_sd_id := 1,
     to_tuple_row := Some \<lparr>tr_table_id = 1, tr_shard_id = 1, tr_tuple_id = key, tr_tuple = [7]\<rparr>\<rparr>"

definition demo_txn :: "xid_t \<Rightarrow> tx_operation list \<Rightarrow> tx_request" where
  "demo_txn x ops = no_request\<lparr>rq_xid := x, rq_source := 65793, rq_operations := ops\<rparr>"

definition demo_batch :: calvin_epoch_ops where
  "demo_batch = \<lparr>eo_epoch' = 1, eo_shard_ids' = {1, 2}, eo_node_ids' = {65793, 131329},
     eo_reqs' = [demo_txn 1 [demo_call TX_OP_READ 1 1 5, demo_call TX_OP_UPDATE 1 2 6], demo_txn 2 [demo_call TX_OP_UPDATE 2 1 5]]\<rparr>"

definition demo_locked :: calvin_node where
  "demo_locked = the (schedule demo_batch demo_calvin)"

theorem epoch_acked_when_locked_witness:
  "map (\<lambda>l. (li_xid l, li_key l)) (lock_requests demo_locked) = [(1, 5), (1, 6), (2, 5)] \<and>
   (\<exists>s2. run cv_grant [(1, 2), (2, 1), (1, 1)] demo_locked = Some s2 \<and> map fst (epoch_acks s2) = [65793, 131329]) \<and>
   (\<exists>s2. run cv_grant [(1, 2), (2, 1)] demo_locked = Some s2 \<and> epoch_acks s2 = [])"
proof -
  have "schedule demo_batch demo_calvin \<noteq> None" by code_simp
  then have run: "schedule demo_batch demo_calvin = Some demo_locked" by (auto simp: demo_locked_def)
  have new: "tbl_find (rq_xid req) (calvin_context' demo_calvin) = Some None" if "req \<in> set (eo_reqs' demo_batch)" for req
  proof -
    have "list_all (\<lambda>req. tbl_find (rq_xid req) (calvin_context' demo_calvin) = Some None) (eo_reqs' demo_batch)" by code_simp
    then show ?thesis using that by (simp add: list_all_iff)
  qed
  have facts: "eo_reqs' demo_batch \<noteq> []" "cv_opt_dsb_node_id' demo_calvin = Some 65796"
    "map batch_key (batch_operations (eo_reqs' demo_batch)) = [(1, 1), (1, 2), (2, 1)]"
    "length (batch_operations (eo_reqs' demo_batch)) = 3" "lock_requests demo_calvin = []" "epoch_acks demo_calvin = []"
    "map fst (acks_of (cv_node_id' demo_calvin) demo_batch) = [65793, 131329]"
    "map (\<lambda>l. (li_xid l, li_key l)) (map (op_lock \<circ> snd) (batch_operations (eo_reqs' demo_batch))) = [(1, 5), (1, 6), (2, 5)]"
    by code_simp+
  have keys: "batch_key ` set (batch_operations (eo_reqs' demo_batch)) = {(1, 1), (1, 2), (2, 1)}"
    using arg_cong[OF facts(3), of set] by simp
  have "batch_operations (eo_reqs' demo_batch) \<noteq> []" using facts(4) by auto
  note ack = epoch_acked_when_locked[OF run facts(1,2) new _ this]
  have "lock_requests demo_locked = map (op_lock \<circ> snd) (batch_operations (eo_reqs' demo_batch))"
    using ack[of "[]"] facts by simp
  moreover have "\<exists>s2. run cv_grant [(1, 2), (2, 1), (1, 1)] demo_locked = Some s2 \<and> epoch_acks s2 = acks_of (cv_node_id' demo_calvin) demo_batch"
    using ack[of "[(1, 2), (2, 1), (1, 1)]"] facts keys by simp
  moreover have "\<exists>s2. run cv_grant [(1, 2), (2, 1)] demo_locked = Some s2 \<and> epoch_acks s2 = []"
    using ack[of "[(1, 2), (2, 1)]"] facts keys by simp
  ultimately show ?thesis using facts(7,8) by auto
qed

section \<open>The collector\<close>

definition collect :: "calvin_part_commit list \<Rightarrow> calvin_collector \<Rightarrow> calvin_collector" where
  "collect ms c = fold (\<lambda>m c. snd (part_commit m c)) ms c"

lemma collect_shards:
  "co_shard' (collect ms c) = co_shard' c \<and> co_request' (collect ms c) = co_request' c \<and>
   co_commit_shard' (collect ms c) = TO_RG_ID ` cp_source ` set ms \<union> co_commit_shard' c"
  by (induction ms arbitrary: c) (auto simp: collect_def part_commit_def Let_def)

text \<open>
  (C15) When a collector answers.  The collector of a request that has heard from the senders of
  \<^term>\<open>ms\<close>, all of them leads of shards of the request, answers the client on the next report
  exactly if every shard of the request has then reported, and the answer has no error.
\<close>

theorem collector_answers_when_complete:
  assumes new: "new_calvin_collector xid req = Some c"
    and src: "TO_RG_ID ` cp_source ` set (ms @ [m]) \<subseteq> to_sd_id ` set (rq_operations req)"
  shows "(fst (part_commit m (collect ms c)) \<longleftrightarrow> TO_RG_ID ` cp_source ` set (ms @ [m]) = to_sd_id ` set (rq_operations req)) \<and>
    rs_error_code (collector_respond (snd (part_commit m (collect ms c)))) = EC_OK"
proof -
  have c: "co_shard' c = to_sd_id ` set (rq_operations req)" "co_commit_shard' c = {}"
    using new by (auto simp: new_calvin_collector_def split: if_splits)
  have "fst (part_commit m (collect ms c)) \<longleftrightarrow>
      card (TO_RG_ID ` cp_source ` set (ms @ [m])) = card (to_sd_id ` set (rq_operations req))"
    using collect_shards[of ms c] c by (simp add: part_commit_def Let_def)
  also have "\<dots> \<longleftrightarrow> TO_RG_ID ` cp_source ` set (ms @ [m]) = to_sd_id ` set (rq_operations req)"
    using card_subset_eq[OF _ src] by auto
  finally show ?thesis by (simp add: collector_respond_def)
qed

definition demo_two_shards :: tx_request where
  "demo_two_shards = no_request\<lparr>rq_terminal_id := 1, rq_operations := [no_operation\<lparr>to_sd_id := 1\<rparr>, no_operation\<lparr>to_sd_id := 2\<rparr>]\<rparr>"

definition demo_report :: "node_id_t \<Rightarrow> calvin_part_commit" where
  "demo_report n = \<lparr>cp_source = n, cp_dest = 65793, cp_xid = 1, cp_response = []\<rparr>"

theorem collector_answers_when_complete_witness:
  "\<not> fst (part_commit (demo_report 131329) (collect [] (the (new_calvin_collector 1 demo_two_shards)))) \<and>
   fst (part_commit (demo_report 65793) (collect [demo_report 131329] (the (new_calvin_collector 1 demo_two_shards))))"
proof -
  have new: "new_calvin_collector 1 demo_two_shards = Some (the (new_calvin_collector 1 demo_two_shards))"
    by (simp add: new_calvin_collector_def demo_two_shards_def no_operation_def)
  have sd: "to_sd_id ` set (rq_operations demo_two_shards) = {1, 2}" by (simp add: demo_two_shards_def)
  have rg: "TO_RG_ID (cp_source (demo_report 131329)) = 2" "TO_RG_ID (cp_source (demo_report 65793)) = 1"
    by (simp_all add: demo_report_def TO_RG_ID_def)
  show ?thesis
    using collector_answers_when_complete[OF new, of "[]" "demo_report 131329"]
      collector_answers_when_complete[OF new, of "[demo_report 131329]" "demo_report 65793"] sd rg by (simp add: insert_commute)
qed

section \<open>Committing\<close>

text \<open>The reports a node has sent.\<close>

definition part_commits :: "calvin_node \<Rightarrow> calvin_part_commit list" where
  "part_commits s = List.map_filter (\<lambda>e. case e of Send_CALVIN_PART_COMMIT n m \<Rightarrow> Some m | _ \<Rightarrow> None) (cv_out' s)"

lemma tx_commit_True:
  assumes "tx_commit c = Some (True, es, c')"
  shows "c' = c\<lparr>cx_commit' := True\<rparr>" "rq_operations (ops_request' c) \<noteq> []" "length (rq_operations (ops_request' c)) \<le> card (op_read' c)"
    "log_committed' c \<or> cx_read_only' c"
    "\<exists>us. unlock_operations (cx_xid' c) (rq_operations (ops_request' c)) = Some us \<and> es = us @ [Send_CALVIN_PART_COMMIT (collector_id' c)
          \<lparr>cp_source = cx_node_id' c, cp_dest = collector_id' c, cp_xid = cx_xid' c, cp_response = []\<rparr>]"
  using assms by (auto simp: tx_commit_def split: if_splits)

text \<open>
  (C36) A read-only transaction commits twice.  Its context commits with the last row it reads: it
  releases its locks and reports to the collector.  \<^verbatim>\<open>schedule\<close> has appended a log record
  for it as for every request, \<^verbatim>\<open>tx_commit\<close> does not look at \<^verbatim>\<open>commit_\<close>, and the table
  still holds the context: when the record is replicated, all that is done a second time.
\<close>

theorem read_only_commits_twice:
  assumes c: "tbl_find x (calvin_context' s) = Some (Some c)" "cx_read_only' c" "dr_xid msg = x"
    and read: "read_response msg c = Some (es, c1)" "cx_commit' c1" "es \<noteq> []"
    and log: "tl_xid log = x" "tl_log_type log = TX_CMD_RM_COMMIT"
  shows "\<exists>s1 s2. handle_calvin_read_response msg s = Some s1 \<and> cv_out' s1 = cv_out' s @ es \<and>
    handle_calvin_log_commit [log] s1 = Some s2 \<and> cv_out' s2 = cv_out' s1 @ es \<and> length (part_commits s2) = length (part_commits s) + 2"
proof -
  obtain c0 b where c0: "tx_commit c0 = Some (b, es, c1)" "cx_read_only' c0 = cx_read_only' c"
    using read(1) by (auto simp: read_response_def Let_def split: if_splits dest!: bind_SomeD)
  have "b" using c0(1) read(3) by (auto simp: tx_commit_def split: if_splits)
  with c0(1) have com: "tx_commit c0 = Some (True, es, c1)" by simp
  note fin = tx_commit_True[OF com]
  obtain us where us: "unlock_operations (cx_xid' c0) (rq_operations (ops_request' c0)) = Some us"
    "es = us @ [Send_CALVIN_PART_COMMIT (collector_id' c0)
          \<lparr>cp_source = cx_node_id' c0, cp_dest = collector_id' c0, cp_xid = cx_xid' c0, cp_response = []\<rparr>]"
    using fin(5) by blast
  have again: "on_operation_committed log c1 = Some (True, es, c1\<lparr>log_committed' := True\<rparr>)"
    using fin us log(2) by (simp add: on_operation_committed_def tx_commit_def)
  have at: "tbl_at x (calvin_context' s) \<noteq> None" by (rule tbl_find_at[OF c(1)])
  define s1 where "s1 = cv_emits es (s\<lparr>calvin_context' := tbl_store x c1 (calvin_context' s)\<rparr>)"
  have s1: "handle_calvin_read_response msg s = Some s1"
    using c read(1) by (simp add: handle_calvin_read_response_def s1_def)
  have find1: "tbl_find x (calvin_context' s1) = Some (Some c1)" using at by (simp add: s1_def tbl_find_store)
  define t where "t = tbl_store x (c1\<lparr>log_committed' := True\<rparr>) (calvin_context' s1)"
  have "tbl_find x t = Some (Some (c1\<lparr>log_committed' := True\<rparr>))"
    using tbl_find_at[OF find1] by (simp add: t_def tbl_find_store)
  then obtain t' where "tbl_remove x t = Some t'" by (auto simp: tbl_remove_def tbl_find_def)
  then have rem: "tbl_remove x t = Some t" using tbl_remove_same by metis
  define s2 where "s2 = (cv_emits es s1)\<lparr>calvin_context' := t\<rparr>"
  have "handle_calvin_log_commit [log] s1 = Some s2"
    using find1 again log(1) rem
    by (simp add: handle_calvin_log_commit_def calvin_log_commit_def Let_def t_def[symmetric] s2_def) (simp add: cv_emits_def)
  moreover have one: "length (List.map_filter (\<lambda>e. case e of Send_CALVIN_PART_COMMIT n m \<Rightarrow> Some m | _ \<Rightarrow> None) es) = 1"
  proof -
    have "unlock_operations x ops = Some us \<Longrightarrow> List.map_filter (\<lambda>e. case e of Send_CALVIN_PART_COMMIT n m \<Rightarrow> Some m | _ \<Rightarrow> None) us = []" for x ops us
      by (induction x ops arbitrary: us rule: unlock_operations.induct)
        (auto simp: unlock_operation_def map_filter_def dest!: bind_SomeD)
    then show ?thesis using us by (simp add: map_filter_def)
  qed
  ultimately show ?thesis
    using s1 by (auto simp: s1_def s2_def cv_emits_def part_commits_def map_filter_def)
qed

definition demo_reading :: calvin_node where
  "demo_reading = the (cv_grant (1, 1) (the (schedule (demo_batch\<lparr>eo_reqs' := [demo_txn 1 [demo_call TX_OP_READ 1 1 5]]\<rparr>) demo_calvin)))"

definition demo_row_read :: dsb_read_response where
  "demo_row_read = \<lparr>dr_source = 65796, dr_dest = 65793, dr_cno = 1, dr_xid = 1, dr_oid = 1, dr_error_code = EC_OK,
     dr_latency_read_dsb = 0, dr_debug_send_ts = 0, dr_tuple_row = Some \<lparr>tr_table_id = 1, tr_shard_id = 0, tr_tuple_id = 5, tr_tuple = [7]\<rparr>\<rparr>"

theorem read_only_commits_twice_witness:
  "\<exists>s1 s2. handle_calvin_read_response demo_row_read demo_reading = Some s1 \<and>
    handle_calvin_log_commit [\<lparr>tl_log_type = TX_CMD_RM_COMMIT, tl_xid = 1, tl_operations = []\<rparr>] s1 = Some s2 \<and>
    length (part_commits s2) = 2"
proof -
  let ?c = "the (the (tbl_find 1 (calvin_context' demo_reading)))"
  have "tbl_find 1 (calvin_context' demo_reading) \<noteq> None" "the (tbl_find 1 (calvin_context' demo_reading)) \<noteq> None" by code_simp+
  then have c: "tbl_find 1 (calvin_context' demo_reading) = Some (Some ?c)" by auto
  have ro: "cx_read_only' ?c" "dr_xid demo_row_read = 1" "part_commits demo_reading = []" by code_simp+
  have "read_response demo_row_read ?c \<noteq> None" "cx_commit' (snd (the (read_response demo_row_read ?c)))"
    "fst (the (read_response demo_row_read ?c)) \<noteq> []"
    by code_simp+
  then obtain es c1 where "read_response demo_row_read ?c = Some (es, c1)" "cx_commit' c1" "es \<noteq> []" by fastforce
  from read_only_commits_twice[OF c ro(1,2) this, of "\<lparr>tl_log_type = TX_CMD_RM_COMMIT, tl_xid = 1, tl_operations = []\<rparr>"]
  show ?thesis using ro(3) by auto
qed

end
