(* ===== verification/Rocks_DB.thy ===== *)
theory Rocks_DB
  imports Prelude
begin

text \<open>
  The database engine below the log service and the row store.  RocksDB is a library; its
  operations are the fields of a record that the models take as an argument,
  \<^verbatim>\<open>rocks_laws\<close> states what its documentation promises of them, and
  \<^verbatim>\<open>rocks_to_ec\<close> is the translation of its status codes in
  \<^verbatim>\<open>src/store/rocks_store.cpp\<close>.
\<close>

datatype rocks_code =
    kOk | kNotFound | kCorruption | kNotSupported | kInvalidArgument | kIOError
  | kMergeInProgress | kIncomplete | kShutdownInProgress | kTimedOut | kAborted | kBusy
  | kExpired | kTryAgain | kCompactionTooLarge | kColumnFamilyDropped | kMaxCode

text \<open>A code that the table does not list fails an assertion.\<close>

definition rocks_to_ec :: "rocks_code \<Rightarrow> EC option" where
  "rocks_to_ec s =
     (case s of
        kOk \<Rightarrow> Some EC_OK
      | kNotFound \<Rightarrow> Some EC_NOT_FOUND_ERROR
      | kNotSupported \<Rightarrow> Some EC_NOT_IMPLEMENTED
      | kInvalidArgument \<Rightarrow> Some EC_INVALID_ARGUMENT
      | kMaxCode \<Rightarrow> None
      | _ \<Rightarrow> Some EC_IO_ERROR)"

datatype 'k batch_op = Put 'k "u8 list" | Delete 'k | Delete_range 'k 'k

record ('k, 'db) rocksdb =
  rk_get :: "'k \<Rightarrow> 'db \<Rightarrow> rocks_code \<times> u8 list"
  rk_put :: "'k \<Rightarrow> u8 list \<Rightarrow> 'db \<Rightarrow> rocks_code \<times> 'db"
  rk_write :: "'k batch_op list \<Rightarrow> 'db \<Rightarrow> rocks_code \<times> 'db"
  rk_sync :: "'db \<Rightarrow> rocks_code \<times> 'db"
  rk_iter :: "'db \<Rightarrow> ('k \<times> u8 list) list"

fun apply_op :: "('k \<Rightarrow> 'k \<Rightarrow> bool) \<Rightarrow> 'k batch_op \<Rightarrow> ('k \<rightharpoonup> u8 list) \<Rightarrow> ('k \<rightharpoonup> u8 list)" where
  "apply_op lt (Put k v) m = m(k \<mapsto> v)"
| "apply_op lt (Delete k) m = m(k := None)"
| "apply_op lt (Delete_range b e) m = (\<lambda>k. if \<not> lt k b \<and> lt k e then None else m k)"

text \<open>
  The documented behaviour, for the order \<^term>\<open>lt\<close> of the comparator and the contents
  \<^term>\<open>view db\<close>: a read finds what is there, a write that reports success applies its batch
  in order and one that fails applies nothing, a sync changes nothing, and an
  iterator visits all entries.
\<close>

definition rocks_laws :: "('k \<Rightarrow> 'k \<Rightarrow> bool) \<Rightarrow> ('k, 'db) rocksdb \<Rightarrow> ('db \<Rightarrow> 'k \<rightharpoonup> u8 list) \<Rightarrow> bool" where
  "rocks_laws lt eng view \<longleftrightarrow>
     (\<forall>k db. (fst (rk_get eng k db) = kOk \<longrightarrow> view db k = Some (snd (rk_get eng k db))) \<and>
        (fst (rk_get eng k db) = kNotFound \<longrightarrow> view db k = None)) \<and>
     (\<forall>k v db. view (snd (rk_put eng k v db)) = (if fst (rk_put eng k v db) = kOk then (view db)(k \<mapsto> v) else view db)) \<and>
     (\<forall>ops db. view (snd (rk_write eng ops db)) =
        (if fst (rk_write eng ops db) = kOk then fold (apply_op lt) ops (view db) else view db)) \<and>
     (\<forall>db. view (snd (rk_sync eng db)) = view db) \<and>
     (\<forall>db. set (rk_iter eng db) = {(k, v). view db k = Some v})"

lemma rocks_lawsD:
  assumes "rocks_laws lt eng view"
  shows "fst (rk_get eng k db) = kOk \<Longrightarrow> view db k = Some (snd (rk_get eng k db))"
    and "fst (rk_get eng k db) = kNotFound \<Longrightarrow> view db k = None"
    and "view (snd (rk_put eng k v db)) = (if fst (rk_put eng k v db) = kOk then (view db)(k \<mapsto> v) else view db)"
    and "view (snd (rk_write eng ops db)) =
        (if fst (rk_write eng ops db) = kOk then fold (apply_op lt) ops (view db) else view db)"
    and "view (snd (rk_sync eng db)) = view db"
    and "set (rk_iter eng db) = {(k, v). view db k = Some v}"
  using assms unfolding rocks_laws_def by blast+

text \<open>An engine that keeps its entries in an association list meets them.\<close>

fun list_apply :: "('k \<Rightarrow> 'k \<Rightarrow> bool) \<Rightarrow> 'k batch_op \<Rightarrow> ('k \<times> u8 list) list \<Rightarrow> ('k \<times> u8 list) list" where
  "list_apply lt (Put k v) m = (k, v) # m"
| "list_apply lt (Delete k) m = filter (\<lambda>e. fst e \<noteq> k) m"
| "list_apply lt (Delete_range b e) m = filter (\<lambda>x. lt (fst x) b \<or> \<not> lt (fst x) e) m"

definition list_engine :: "('k \<Rightarrow> 'k \<Rightarrow> bool) \<Rightarrow> ('k, ('k \<times> u8 list) list) rocksdb" where
  "list_engine lt = \<lparr>rk_get = (\<lambda>k db. case map_of db k of Some v \<Rightarrow> (kOk, v) | None \<Rightarrow> (kNotFound, [])),
     rk_put = (\<lambda>k v db. (kOk, (k, v) # db)), rk_write = (\<lambda>ops db. (kOk, fold (list_apply lt) ops db)),
     rk_sync = (\<lambda>db. (kOk, db)), rk_iter = (\<lambda>db. AList.clearjunk db)\<rparr>"

lemma list_apply_view: "map_of (list_apply lt op m) = apply_op lt op (map_of m)"
proof (cases op)
  case (Delete_range b e)
  have "map_of (filter (\<lambda>x. lt (fst x) b \<or> \<not> lt (fst x) e) m) k = (if lt k b \<or> \<not> lt k e then map_of m k else None)" for k
    by (induction m) auto
  then show ?thesis by (auto simp: Delete_range fun_eq_iff)
next
  case (Delete k)
  have "map_of (filter (\<lambda>x. fst x \<noteq> k) m) j = (if j \<noteq> k then map_of m j else None)" for j
    by (induction m) auto
  then show ?thesis by (auto simp: Delete fun_eq_iff)
qed simp

lemma list_engine_laws: "rocks_laws lt (list_engine lt) map_of"
proof -
  have "map_of (fold (list_apply lt) ops m) = fold (apply_op lt) ops (map_of m)" for ops m
    by (induction ops arbitrary: m) (simp_all add: list_apply_view)
  moreover have "set (AList.clearjunk m) = {(k, v). map_of m k = Some v}" for m :: "('a \<times> u8 list) list"
    using map_of_clearjunk[of m] distinct_clearjunk[of m] by (auto simp: map_of_eq_Some_iff[symmetric])
  ultimately show ?thesis by (simp add: rocks_laws_def list_engine_def split: option.splits)
qed

end
