(* ===== verification/Log_Service.thy ===== *)
theory Log_Service
  imports Raft Lock_Slot Rocks_DB
begin

text \<open>
  The log service of \<^verbatim>\<open>src/replog/log_service_impl.cpp\<close> over a RocksDB engine, with the keys
  of \<^verbatim>\<open>include/replog/log_service.h\<close>, and what a replica that restarts recovers from it.
  Serialisation is a parameter.  \<^verbatim>\<open>LOG(fatal)\<close> writes a line and goes on.
\<close>

section \<open>Keys\<close>

datatype log_entry_type = TX_LOG_WRITE | TX_LOG_END | TX_LOG_REPLAY | RAFT_LOG

definition to_log_entry_type :: "tx_cmd_type \<Rightarrow> log_entry_type" where
  "to_log_entry_type t = (if t = TX_CMD_RM_COMMIT \<or> t = TX_CMD_RM_ABORT \<or> t = TX_CMD_TM_END then TX_LOG_END else TX_LOG_WRITE)"

primrec log_entry_type_number :: "log_entry_type \<Rightarrow> u32" where
  "log_entry_type_number TX_LOG_WRITE = 0"
| "log_entry_type_number TX_LOG_END = 1"
| "log_entry_type_number TX_LOG_REPLAY = 2"
| "log_entry_type_number RAFT_LOG = 3"

datatype tx_log_index = Tx_log_index (xi_xid: u64) (xi_index: u64) (xi_type: u32)

definition raft_index :: "u64 \<Rightarrow> tx_log_index" where
  "raft_index index = Tx_log_index 0 index (log_entry_type_number RAFT_LOG)"

definition tx_max_index :: "u64 \<Rightarrow> tx_log_index" where
  "tx_max_index xid = Tx_log_index xid 0xffffffffffffffff 0xffffffff"

definition tx_min_index :: "u64 \<Rightarrow> tx_log_index" where
  "tx_min_index xid = Tx_log_index xid 0 0"

definition state_index :: tx_log_index where
  "state_index = Tx_log_index 0 0 0"

definition index_compare :: "tx_log_index \<Rightarrow> tx_log_index \<Rightarrow> int" where
  "index_compare a b =
     (if xi_xid a < xi_xid b then - 1 else if xi_xid b < xi_xid a then 1
      else if xi_index a < xi_index b then - 1 else if xi_index b < xi_index a then 1
      else if xi_type a < xi_type b then - 1 else if xi_type b < xi_type a then 1 else 0)"

definition index_equal :: "tx_log_index \<Rightarrow> tx_log_index \<Rightarrow> bool" where
  "index_equal a i \<longleftrightarrow> xi_xid i = xi_xid a \<and> xi_index i = xi_xid a \<and> xi_type i = xi_type a"

text \<open>\<^verbatim>\<open>compare\<close> is the comparator of the database, and a linear order.\<close>

instantiation tx_log_index :: linorder
begin

definition less_eq_tx_log_index :: "tx_log_index \<Rightarrow> tx_log_index \<Rightarrow> bool" where
  "a \<le> b \<longleftrightarrow> index_compare a b \<le> 0"

definition less_tx_log_index :: "tx_log_index \<Rightarrow> tx_log_index \<Rightarrow> bool" where
  "a < b \<longleftrightarrow> index_compare a b < 0"

instance
proof
  fix a b c :: tx_log_index
  show "a < b \<longleftrightarrow> a \<le> b \<and> \<not> b \<le> a" by (auto simp: less_eq_tx_log_index_def less_tx_log_index_def index_compare_def)
  show "a \<le> a" by (simp add: less_eq_tx_log_index_def index_compare_def)
  show "a \<le> b \<Longrightarrow> b \<le> c \<Longrightarrow> a \<le> c"
    by (auto simp: less_eq_tx_log_index_def index_compare_def split: if_splits)
  show "a \<le> b \<Longrightarrow> b \<le> a \<Longrightarrow> a = b"
    by (auto simp: less_eq_tx_log_index_def index_compare_def split: if_splits intro: tx_log_index.expand)
  show "a \<le> b \<or> b \<le> a" by (auto simp: less_eq_tx_log_index_def index_compare_def)
qed

end

text \<open>\<^verbatim>\<open>equal\<close> compares the index of one key with the identifier of the other.\<close>

lemma index_equal_wrong: "index_equal (raft_index 5) (raft_index 5) = False"
  by (simp add: index_equal_def raft_index_def)

section \<open>Operations\<close>

type_synonym 'db log_engine = "(tx_log_index, 'db) rocksdb"

definition ls_write_log :: "'db log_engine \<Rightarrow> (raft_log_entry \<Rightarrow> u8 list) \<Rightarrow> raft_log_entry list \<Rightarrow> bool \<Rightarrow> 'db \<Rightarrow> 'db" where
  "ls_write_log eng ser entries force db =
     (let db = snd (rk_write eng (map (\<lambda>e. Put (raft_index (of_nat (e_index e))) (ser e)) entries) db)
      in if force then snd (rk_sync eng db) else db)"

definition ls_write_state :: "'db log_engine \<Rightarrow> (raft_log_state \<Rightarrow> u8 list) \<Rightarrow> raft_log_state option \<Rightarrow> bool \<Rightarrow> 'db \<Rightarrow> 'db option" where
  "ls_write_state eng ser state force db = (case state of
     None \<Rightarrow> Some db
   | Some st \<Rightarrow> do {
       let (sw, db) = rk_write eng [Put state_index (ser st)] db;
       boost_assert (sw = kOk);
       (if force then do { let (s, db) = rk_sync eng db; boost_assert (s = kOk); Some db } else Some db) })"

definition retrieve_state :: "'db log_engine \<Rightarrow> 'db \<Rightarrow> u8 list option" where
  "retrieve_state eng db = (let (s, v) = rk_get eng state_index db in if s = kOk then Some v else None)"

definition retrieve_log :: "'db log_engine \<Rightarrow> 'db \<Rightarrow> (tx_log_index \<times> u8 list) list" where
  "retrieve_log eng db = filter (\<lambda>(k, v). xi_xid k \<noteq> 0) (rk_iter eng db)"

text \<open>\<^verbatim>\<open>TX_CMD_REPLAY_DSB\<close> as the number the protocol gives it.\<close>

definition TX_CMD_REPLAY_DSB_number :: u32 where
  "TX_CMD_REPLAY_DSB_number = 11"

fun clean_up_loop :: "u64 \<Rightarrow> u64 \<Rightarrow> bool \<Rightarrow> (tx_log_index \<times> u8 list) list \<Rightarrow> tx_log_index batch_op list" where
  "clean_up_loop consistency_index xid le_consistency [] = []"
| "clean_up_loop consistency_index xid le_consistency ((k, v) # kvs) =
     (let le = (if xid \<noteq> xi_xid k then True else le_consistency) in
      if xi_xid k \<noteq> 0 then
        (if xi_type k = TX_CMD_REPLAY_DSB_number then
           (if le then [Delete_range (tx_min_index xid) (tx_max_index xid)] else []) @
           clean_up_loop consistency_index (xi_xid k) le kvs
         else clean_up_loop consistency_index (xi_xid k) (le \<and> xi_index k \<le> consistency_index) kvs)
      else clean_up_loop consistency_index (xi_xid k) le kvs)"

definition clean_up :: "'db log_engine \<Rightarrow> (u8 list \<Rightarrow> raft_log_state option) \<Rightarrow> 'db \<Rightarrow> 'db option" where
  "clean_up eng parse db =
     (case rk_get eng state_index db of
        (kOk, value) \<Rightarrow>
          (case parse value of
             None \<Rightarrow> Some db
           | Some st \<Rightarrow>
               (if (of_nat (ls_consistency_index st) :: u64) = 0 then Some db
                else do {
                  let (sw, db) = rk_write eng (clean_up_loop (of_nat (ls_consistency_index st)) 0 True (rk_iter eng db)) db;
                  boost_assert (sw = kOk);
                  Some db }))
      | _ \<Rightarrow> Some db)"

section \<open>Recovery\<close>

text \<open>
  What a replica does with its log service between two starts: the writes that its state
  machine posts, with the force option of the writer, and the clean-up of every tick.
\<close>

datatype ls_call = Ls_write log_write bool | Ls_clean_up

definition ls_call_step ::
  "'db log_engine \<Rightarrow> (raft_log_entry \<Rightarrow> u8 list) \<Rightarrow> (raft_log_state \<Rightarrow> u8 list) \<Rightarrow> (u8 list \<Rightarrow> raft_log_state option) \<Rightarrow>
   ls_call \<Rightarrow> 'db \<Rightarrow> 'db option" where
  "ls_call_step eng ser ser_state parse c db = (case c of
     Ls_write (Write_log es) force \<Rightarrow> Some (ls_write_log eng ser es force db)
   | Ls_write (Write_state st) force \<Rightarrow> ls_write_state eng ser_state (Some st) force db
   | Ls_clean_up \<Rightarrow> clean_up eng parse db)"

fun ls_run ::
  "'db log_engine \<Rightarrow> (raft_log_entry \<Rightarrow> u8 list) \<Rightarrow> (raft_log_state \<Rightarrow> u8 list) \<Rightarrow> (u8 list \<Rightarrow> raft_log_state option) \<Rightarrow>
   ls_call list \<Rightarrow> 'db \<Rightarrow> 'db option" where
  "ls_run eng ser ser_state parse [] db = Some db"
| "ls_run eng ser ser_state parse (c # cs) db = do {
     db \<leftarrow> ls_call_step eng ser ser_state parse c db;
     ls_run eng ser ser_state parse cs db }"

text \<open>The keys that \<^verbatim>\<open>fn_log\<close> of \<^verbatim>\<open>pre_start\<close> tells apart, and the start over this service.\<close>

definition to_record :: "(u8 list \<Rightarrow> raft_log_entry option) \<Rightarrow> tx_log_index \<times> u8 list \<Rightarrow> log_record" where
  "to_record parse kv = (if xi_type (fst kv) = log_entry_type_number RAFT_LOG
     then Raft_record (unat (xi_index (fst kv))) (parse (snd kv)) else Tx_record (unat (xi_index (fst kv))) (snd kv))"

definition pre_start_db ::
  "'db log_engine \<Rightarrow> (u8 list \<Rightarrow> raft_log_entry option) \<Rightarrow> (u8 list \<Rightarrow> raft_log_state option) \<Rightarrow>
   (node_id_t \<times> nat) list \<Rightarrow> 'db \<Rightarrow> state_machine \<Rightarrow> state_machine option" where
  "pre_start_db eng parse parse_state rep_nodes db s = (case retrieve_state eng db of
     None \<Rightarrow> pre_start rep_nodes None (map (to_record parse) (retrieve_log eng db)) s
   | Some v \<Rightarrow> do {
       st \<leftarrow> parse_state v;
       pre_start rep_nodes (Some st) (map (to_record parse) (retrieve_log eng db)) s })"

text \<open>Every key of the database has identifier 0.\<close>

definition raft_keys :: "(tx_log_index \<rightharpoonup> u8 list) \<Rightarrow> bool" where
  "raft_keys m \<longleftrightarrow> (\<forall>k \<in> dom m. xi_xid k = 0)"

lemma raft_keys_put: "raft_keys m \<Longrightarrow> xi_xid k = 0 \<Longrightarrow> raft_keys (m(k \<mapsto> v))"
  by (auto simp: raft_keys_def)

lemma raft_keys_puts:
  "raft_keys m \<Longrightarrow> raft_keys (fold (apply_op (<)) (map (\<lambda>e. Put (raft_index (f e)) (g e)) es) m)"
  by (induction es arbitrary: m) (simp_all add: raft_keys_put raft_index_def)

lemma clean_up_loop_raft:
  "\<forall>(k, v) \<in> set kvs. xi_xid k = 0 \<Longrightarrow> clean_up_loop c x le kvs = []"
  by (induction c x le kvs rule: clean_up_loop.induct) auto

lemma ls_write_log_raft:
  assumes laws: "rocks_laws (<) eng view" and keys: "raft_keys (view db)"
  shows "raft_keys (view (ls_write_log eng ser es force db))"
  using keys by (simp add: ls_write_log_def Let_def rocks_lawsD(4,5)[OF laws] raft_keys_puts)

lemma state_index_xid: "xi_xid state_index = 0"
  by (simp add: state_index_def)

lemma ls_write_state_raft:
  assumes laws: "rocks_laws (<) eng view" and keys: "raft_keys (view db)"
    and run: "ls_write_state eng ser (Some st) force db = Some db'"
  shows "raft_keys (view db')"
proof -
  obtain c db1 where w: "rk_write eng [Put state_index (ser st)] db = (c, db1)" by fastforce
  have "raft_keys (view db1)"
    using rocks_lawsD(4)[OF laws, of "[Put state_index (ser st)]" db] keys
      raft_keys_put[OF keys, of state_index] by (simp add: w state_index_xid split: if_splits)
  moreover have "view db' = view db1"
    using run rocks_lawsD(5)[OF laws, of db1]
    by (auto simp: ls_write_state_def w Let_def split: if_splits prod.splits dest!: bind_SomeD)
  ultimately show ?thesis by simp
qed

text \<open>\<^verbatim>\<open>clean_up\<close> finds nothing to delete.\<close>

lemma clean_up_raft:
  assumes laws: "rocks_laws (<) eng view" and keys: "raft_keys (view db)"
    and run: "clean_up eng parse db = Some db'"
  shows "view db' = view db"
proof -
  have "\<forall>(k, v) \<in> set (rk_iter eng db). xi_xid k = 0"
    using keys rocks_lawsD(6)[OF laws, of db] by (auto simp: raft_keys_def)
  note loop = clean_up_loop_raft[OF this]
  have "view (snd (rk_write eng [] db)) = view db"
    using rocks_lawsD(4)[OF laws, of "[]" db] by simp
  then show ?thesis using run
    by (auto simp: clean_up_def loop split: prod.splits rocks_code.splits option.splits if_splits dest!: bind_SomeD)
qed

lemma ls_run_raft:
  assumes laws: "rocks_laws (<) eng view"
  shows "ls_run eng ser ser_state parse cs db = Some db' \<Longrightarrow> raft_keys (view db) \<Longrightarrow> raft_keys (view db')"
proof (induction cs arbitrary: db)
  case (Cons c cs)
  obtain db1 where 1: "ls_call_step eng ser ser_state parse c db = Some db1"
    and 2: "ls_run eng ser ser_state parse cs db1 = Some db'"
    using Cons.prems(1) by (auto dest!: bind_SomeD)
  have "raft_keys (view db1)"
    using 1 ls_write_log_raft[OF laws Cons.prems(2)] ls_write_state_raft[OF laws Cons.prems(2)]
      clean_up_raft[OF laws Cons.prems(2)] Cons.prems(2)
    by (auto simp: ls_call_step_def split: ls_call.splits log_write.splits)
  then show ?case using Cons.IH 2 by blast
qed simp

lemma retrieve_log_raft:
  assumes "rocks_laws (<) eng view" "raft_keys (view db)"
  shows "retrieve_log eng db = []"
  using assms(2) rocks_lawsD(6)[OF assms(1), of db]
  by (auto simp: retrieve_log_def raft_keys_def filter_empty_conv)

lemma fold_add_progress_log: "log' (fold add_progress ns s) = log' s"
  by (induction ns arbitrary: s) (simp_all add: add_progress_def set_progress_def split: option.splits)

lemma own_progress_log: "own_progress s = Some s' \<Longrightarrow> log' s' = log' s"
  by (auto simp: own_progress_def set_progress_def Let_def split: option.splits dest!: bind_SomeD)

lemma pre_start_no_records: "pre_start nodes st [] s = Some s' \<Longrightarrow> log' s' = log' s"
  by (auto simp: pre_start_def Let_def fold_add_progress_log set_log_state_def split: option.splits if_splits
      dest!: bind_SomeD own_progress_log)

lemma pre_start_db_log:
  assumes "retrieve_log eng db = []" "pre_start_db eng parse parse_state nodes db s = Some s'"
  shows "log' s' = log' s"
  using assms by (auto simp: pre_start_db_def split: option.splits dest!: bind_SomeD pre_start_no_records)

lemma new_state_machine_log: "new_state_machine node t m x y = Some s \<Longrightarrow> log' s = []"
  by (auto simp: new_state_machine_def split: if_splits)

text \<open>
  Entries are written under keys with transaction identifier 0, and \<^verbatim>\<open>retrieve_log\<close> skips those
  keys: whatever a replica wrote to a new database, forced or not, and however often the
  clean-up ran, a replica that starts again on that database has an empty log, while the
  entries are still stored. (C37)
\<close>

theorem restart_forgets_log:
  assumes "rocks_laws (<) eng view" and "view db0 = Map.empty"
    and "ls_run eng ser ser_state parse_state calls db0 = Some db"
    and "new_state_machine node tick_ms tick_max batch_max batch_min = Some s"
    and "pre_start_db eng parse parse_state nodes db s = Some s'"
  shows "retrieve_log eng db = [] \<and> log' s' = [] \<and>
    (\<forall>db1. clean_up eng parse_state db = Some db1 \<longrightarrow> view db1 = view db)"
proof -
  have keys: "raft_keys (view db)"
    by (rule ls_run_raft[OF assms(1,3)]) (simp add: assms(2) raft_keys_def)
  note none = retrieve_log_raft[OF assms(1) keys]
  have "log' s' = []"
    using pre_start_db_log[OF none assms(5)] new_state_machine_log[OF assms(4)] by simp
  then show ?thesis using none clean_up_raft[OF assms(1) keys] by blast
qed

text \<open>One entry is written and forced, and the next start has an empty log.\<close>

definition demo_log_calls :: "ls_call list" where
  "demo_log_calls = [Ls_write (Write_log [\<lparr>e_term = 1, e_index = 1, e_logs = [7]\<rparr>]) True, Ls_clean_up]"

definition demo_log_db :: "(tx_log_index \<times> u8 list) list" where
  "demo_log_db = [(raft_index 1, [7])]"

lemma demo_log_run:
  "ls_run (list_engine (<)) e_logs (\<lambda>_. []) (\<lambda>_. None) demo_log_calls [] = Some demo_log_db"
  by (simp add: demo_log_calls_def demo_log_db_def ls_call_step_def ls_write_log_def clean_up_def list_engine_def
      raft_index_def state_index_def)

theorem restart_forgets_log_witness:
  "\<exists>s s'. new_state_machine 9 100 10 20 5 = Some s \<and>
     pre_start_db (list_engine (<)) (\<lambda>_. None) (\<lambda>_. None) [] demo_log_db s = Some s' \<and> log' s' = [] \<and>
     map_of demo_log_db (raft_index 1) = Some [7]"
proof -
  obtain s where s: "new_state_machine 9 100 10 20 5 = Some s"
    by (simp add: new_state_machine_def)
  have "\<exists>s'. pre_start_db (list_engine (<)) (\<lambda>_. None) (\<lambda>_. None) [] demo_log_db s = Some s'"
    using s by (auto simp: pre_start_db_def retrieve_state_def retrieve_log_def list_engine_def demo_log_db_def
        raft_index_def state_index_def pre_start_def new_state_machine_def own_progress_def offset_to_log_index_def
        priority_node_def priority_map_def set_log_state_def progress_of_def Let_def)
  then obtain s' where s': "pre_start_db (list_engine (<)) (\<lambda>_. None) (\<lambda>_. None) [] demo_log_db s = Some s'" ..
  have "log' s' = []"
    using restart_forgets_log[OF list_engine_laws _ demo_log_run s s'] by simp
  then show ?thesis using s s' by (auto simp: demo_log_db_def)
qed

end
