(* ===== verification/Row_Store.thy ===== *)
theory Row_Store
  imports Rocks_DB Tx_Proto Ids
begin

text \<open>
  The row stores: the interface of \<^verbatim>\<open>include/store/store.h\<close>, its RocksDB implementation
  \<^verbatim>\<open>src/store/rocks_store.cpp\<close> and its Tkrzw implementation
  \<^verbatim>\<open>src/store/tkrzw_store.cpp\<close>.  The engines are parameters.
  A result is \<^verbatim>\<open>Inl\<close> of the error code or \<^verbatim>\<open>Inr\<close> of the value, and an abort is
  \<^verbatim>\<open>None\<close>.
\<close>

definition MAX_TABLES :: table_id_t where
  "MAX_TABLES = 13"

text \<open>The virtual methods; a pointer to a tuple may be null.\<close>

record 'st store_ops =
  so_replay :: "tx_operation list \<Rightarrow> 'st \<Rightarrow> ((EC + unit) \<times> 'st) option"
  so_put :: "table_id_t \<Rightarrow> tuple_id_t \<Rightarrow> tuple_pb \<Rightarrow> 'st \<Rightarrow> ((EC + unit) \<times> 'st) option"
  so_get :: "table_id_t \<Rightarrow> tuple_id_t \<Rightarrow> 'st \<Rightarrow> (EC + tuple_pb option) option"
  so_sync :: "'st \<Rightarrow> ((EC + unit) \<times> 'st) option"

section \<open>RocksDB\<close>

type_synonym 'db row_engine = "(u8 list, 'db) rocksdb"

definition row_key :: "table_id_t \<Rightarrow> tuple_id_t \<Rightarrow> u8 list" where
  "row_key table key = make_key128 (ucast table) key"

definition ec_result :: "EC \<Rightarrow> EC + unit" where
  "ec_result ec = (if ec = EC_OK then Inr () else Inl ec)"

fun replay_batch :: "tx_operation list \<Rightarrow> u8 list batch_op list option" where
  "replay_batch [] = Some []"
| "replay_batch (op # ops) =
     (if to_op_type op = TX_OP_DELETE then do {
        b \<leftarrow> replay_batch ops;
        Some (Delete (row_key (op_table_id op) (op_key op)) # b) }
      else if to_op_type op = TX_OP_INSERT \<or> to_op_type op = TX_OP_UPDATE then do {
        boost_assert (\<not> is_tuple_nil (tr_tuple (op_row op)));
        b \<leftarrow> replay_batch ops;
        Some (Put (row_key (op_table_id op) (op_key op)) (tr_tuple (op_row op)) # b) }
      else replay_batch ops)"

definition rocks_replay :: "'db row_engine \<Rightarrow> tx_operation list \<Rightarrow> 'db \<Rightarrow> ((EC + unit) \<times> 'db) option" where
  "rocks_replay eng ops db = do {
     batch \<leftarrow> replay_batch ops;
     let (sw, db) = rk_write eng batch db;
     ecw \<leftarrow> rocks_to_ec sw;
     if ecw \<noteq> EC_OK then Some (Inl ecw, db)
     else do {
       let (ss, db) = rk_sync eng db;
       ecs \<leftarrow> rocks_to_ec ss;
       Some (ec_result ecs, db) } }"

definition rocks_put :: "'db row_engine \<Rightarrow> table_id_t \<Rightarrow> tuple_id_t \<Rightarrow> tuple_pb \<Rightarrow> 'db \<Rightarrow> ((EC + unit) \<times> 'db) option" where
  "rocks_put eng table key tuple db =
     (if table \<ge> MAX_TABLES then Some (Inl EC_UNKNOWN_TABLE_ID, db)
      else do {
        boost_assert (\<not> is_tuple_nil tuple);
        let (sw, db) = rk_put eng (row_key table key) tuple db;
        ecw \<leftarrow> rocks_to_ec sw;
        Some (ec_result ecw, db) })"

definition rocks_sync :: "'db row_engine \<Rightarrow> 'db \<Rightarrow> ((EC + unit) \<times> 'db) option" where
  "rocks_sync eng db = do {
     let (ss, db) = rk_sync eng db;
     ec \<leftarrow> rocks_to_ec ss;
     Some (ec_result ec, db) }"

definition rocks_get :: "'db row_engine \<Rightarrow> table_id_t \<Rightarrow> tuple_id_t \<Rightarrow> 'db \<Rightarrow> (EC + tuple_pb option) option" where
  "rocks_get eng table key db =
     (if table \<ge> MAX_TABLES then Some (Inl EC_UNKNOWN_TABLE_ID)
      else do {
        let (s, tuple) = rk_get eng (row_key table key) db;
        ec \<leftarrow> rocks_to_ec s;
        if ec = EC_OK then do { boost_assert (\<not> is_tuple_nil tuple); Some (Inr (Some tuple)) }
        else Some (Inl ec) })"

definition rocks_store :: "'db row_engine \<Rightarrow> 'db store_ops" where
  "rocks_store eng = \<lparr>so_replay = rocks_replay eng, so_put = rocks_put eng, so_get = rocks_get eng, so_sync = rocks_sync eng\<rparr>"

section \<open>Tkrzw\<close>

datatype tk_code =
    TK_SUCCESS | TK_UNKNOWN_ERROR | TK_SYSTEM_ERROR | TK_NOT_IMPLEMENTED_ERROR | TK_PRECONDITION_ERROR
  | TK_INVALID_ARGUMENT_ERROR | TK_CANCELED_ERROR | TK_NOT_FOUND_ERROR | TK_PERMISSION_ERROR
  | TK_INFEASIBLE_ERROR | TK_DUPLICATION_ERROR | TK_BROKEN_DATA_ERROR | TK_NETWORK_ERROR | TK_APPLICATION_ERROR

primrec status_to_ec :: "tk_code \<Rightarrow> EC" where
  "status_to_ec TK_SUCCESS = EC_OK"
| "status_to_ec TK_UNKNOWN_ERROR = EC_UNKNOWN"
| "status_to_ec TK_SYSTEM_ERROR = EC_SYSTEM_ERROR"
| "status_to_ec TK_NOT_IMPLEMENTED_ERROR = EC_NOT_IMPLEMENTED"
| "status_to_ec TK_PRECONDITION_ERROR = EC_PRECONDITION_ERROR"
| "status_to_ec TK_INVALID_ARGUMENT_ERROR = EC_INVALID_ARGUMENT"
| "status_to_ec TK_CANCELED_ERROR = EC_CANCELED_ERROR"
| "status_to_ec TK_NOT_FOUND_ERROR = EC_NOT_FOUND_ERROR"
| "status_to_ec TK_PERMISSION_ERROR = EC_PERMISSION_ERROR"
| "status_to_ec TK_INFEASIBLE_ERROR = EC_INFEASIBLE_ERROR"
| "status_to_ec TK_DUPLICATION_ERROR = EC_DUPLICATION_ERROR"
| "status_to_ec TK_BROKEN_DATA_ERROR = EC_BROKEN_DATA_ERROR"
| "status_to_ec TK_NETWORK_ERROR = EC_NETWORK_ERROR"
| "status_to_ec TK_APPLICATION_ERROR = EC_APPLICATION_ERROR"

text \<open>One hash database per table; the methods of \<^verbatim>\<open>tkrzw::HashDBM\<close>.\<close>

record 'dbm tkrzw =
  tk_get :: "tuple_id_t \<Rightarrow> 'dbm \<Rightarrow> tk_code \<times> tuple_pb"
  tk_set :: "tuple_id_t \<Rightarrow> tuple_pb \<Rightarrow> bool \<Rightarrow> 'dbm \<Rightarrow> tk_code \<times> 'dbm"
  tk_remove :: "tuple_id_t \<Rightarrow> 'dbm \<Rightarrow> tk_code \<times> 'dbm"

text \<open>\<^verbatim>\<open>dbm_\<close> has \<^verbatim>\<open>MAX_TABLES\<close> elements; an access beyond is an abort.\<close>

definition dbm_at :: "table_id_t \<Rightarrow> 'dbm list \<Rightarrow> 'dbm option" where
  "dbm_at table dbs = (if unat table < length dbs then Some (dbs ! unat table) else None)"

fun tkrzw_replay :: "'dbm tkrzw \<Rightarrow> tx_operation list \<Rightarrow> 'dbm list \<Rightarrow> ((EC + unit) \<times> 'dbm list) option" where
  "tkrzw_replay eng [] dbs = Some (Inr (), dbs)"
| "tkrzw_replay eng (op # ops) dbs =
     (if to_op_type op = TX_OP_DELETE then do {
        d \<leftarrow> dbm_at (op_table_id op) dbs;
        let (status, d) = tk_remove eng (op_key op) d;
        let dbs = dbs[unat (op_table_id op) := d];
        if status \<noteq> TK_SUCCESS then Some (Inl (status_to_ec status), dbs) else tkrzw_replay eng ops dbs }
      else if to_op_type op = TX_OP_INSERT \<or> to_op_type op = TX_OP_UPDATE then do {
        d \<leftarrow> dbm_at (op_table_id op) dbs;
        let (status, d) = tk_set eng (op_key op) (tr_tuple (op_row op)) (to_op_type op = TX_OP_UPDATE) d;
        let dbs = dbs[unat (op_table_id op) := d];
        if status \<noteq> TK_SUCCESS then Some (Inl (status_to_ec status), dbs) else tkrzw_replay eng ops dbs }
      else tkrzw_replay eng ops dbs)"

definition tkrzw_put :: "'dbm tkrzw \<Rightarrow> table_id_t \<Rightarrow> tuple_id_t \<Rightarrow> tuple_pb \<Rightarrow> 'dbm list \<Rightarrow> ((EC + unit) \<times> 'dbm list) option" where
  "tkrzw_put eng table key tuple dbs =
     (if table \<ge> MAX_TABLES then Some (Inl EC_UNKNOWN_TABLE_ID, dbs)
      else do {
        d \<leftarrow> dbm_at table dbs;
        let (status, d) = tk_set eng key tuple True d;
        Some (if status \<noteq> TK_SUCCESS then Inl (status_to_ec status) else Inr (), dbs[unat table := d]) })"

definition tkrzw_get :: "'dbm tkrzw \<Rightarrow> table_id_t \<Rightarrow> tuple_id_t \<Rightarrow> 'dbm list \<Rightarrow> (EC + tuple_pb option) option" where
  "tkrzw_get eng table key dbs =
     (if table \<ge> MAX_TABLES then Some (Inl EC_UNKNOWN_TABLE_ID)
      else do {
        d \<leftarrow> dbm_at table dbs;
        let (status, tuple) = tk_get eng key d;
        let ec = status_to_ec status;
        boost_assert (\<not> (ec = EC_OK \<and> tuple = []));
        Some (Inr (if ec = EC_OK then Some tuple else None)) })"

definition tkrzw_store :: "'dbm tkrzw \<Rightarrow> 'dbm list store_ops" where
  "tkrzw_store eng = \<lparr>so_replay = tkrzw_replay eng, so_put = tkrzw_put eng, so_get = tkrzw_get eng,
     so_sync = (\<lambda>dbs. Some (Inr (), dbs))\<rparr>"

section \<open>What RocksDB holds\<close>

text \<open>The rows as a map from keys, and an operation on it.\<close>

definition apply_row_op :: "tx_operation \<Rightarrow> (u8 list \<rightharpoonup> tuple_pb) \<Rightarrow> (u8 list \<rightharpoonup> tuple_pb)" where
  "apply_row_op op m =
     (if to_op_type op = TX_OP_DELETE then m(row_key (op_table_id op) (op_key op) := None)
      else if to_op_type op = TX_OP_INSERT \<or> to_op_type op = TX_OP_UPDATE
      then m(row_key (op_table_id op) (op_key op) \<mapsto> tr_tuple (op_row op)) else m)"

lemma replay_batch_applies:
  "replay_batch ops = Some b \<Longrightarrow> fold (apply_op lt) b m = fold apply_row_op ops m"
  by (induction ops arbitrary: b m) (auto simp: apply_row_op_def split: if_splits dest!: bind_SomeD)

lemma rocks_to_ec_ok: "rocks_to_ec c = Some EC_OK \<longleftrightarrow> c = kOk"
  by (cases c) (simp_all add: rocks_to_ec_def)

lemma rocks_replay_view:
  assumes laws: "rocks_laws lt eng view" and run: "rocks_replay eng ops db = Some (Inr (), db')"
  shows "view db' = fold apply_row_op ops (view db)"
proof -
  obtain b where b: "replay_batch ops = Some b" using run by (auto simp: rocks_replay_def dest!: bind_SomeD)
  obtain c db1 where w: "rk_write eng b db = (c, db1)" by fastforce
  have c: "c = kOk" and v: "view db' = view db1"
    using run rocks_lawsD(5)[OF laws, of db1]
    by (auto simp: rocks_replay_def b w rocks_to_ec_ok split: if_splits prod.splits dest!: bind_SomeD)
  show ?thesis
    using rocks_lawsD(4)[OF laws, of b db] replay_batch_applies[OF b] by (simp add: w c v)
qed

lemma rocks_get_view:
  assumes laws: "rocks_laws lt eng view" and run: "rocks_get eng table key db = Some (Inr t)"
  shows "\<exists>v. t = Some v \<and> view db (row_key table key) = Some v"
  using run rocks_lawsD(1)[OF laws, of "row_key table key" db]
  by (auto simp: rocks_get_def rocks_to_ec_ok split: if_splits prod.splits dest!: bind_SomeD)

section \<open>The contract of a row store\<close>

text \<open>What the data store block relies on: the contents as a map, and what each method that reports success did to it.\<close>

locale row_store =
  fixes ops :: "'st store_ops" and view :: "'st \<Rightarrow> u8 list \<rightharpoonup> tuple_pb"
  assumes replay_view: "so_replay ops os st = Some (Inr (), st') \<Longrightarrow> view st' = fold apply_row_op os (view st)"
    and put_view: "so_put ops table key tuple st = Some (Inr (), st') \<Longrightarrow> view st' = (view st)(row_key table key \<mapsto> tuple)"
    and get_view: "so_get ops table key st = Some (Inr (Some tuple)) \<Longrightarrow> view st (row_key table key) = Some tuple"
    and sync_view: "so_sync ops st = Some (r, st') \<Longrightarrow> view st' = view st"
begin

lemma put_get:
  "so_put ops table key tuple st = Some (Inr (), st') \<Longrightarrow> so_get ops table key st' = Some (Inr (Some v)) \<Longrightarrow> v = tuple"
  using put_view get_view by fastforce

lemma replayed_write_read:
  assumes "so_replay ops (os @ [op]) st = Some (Inr (), st')" "to_op_type op = TX_OP_INSERT \<or> to_op_type op = TX_OP_UPDATE"
    and "so_get ops (op_table_id op) (op_key op) st' = Some (Inr (Some v))"
  shows "v = tr_tuple (op_row op)"
  using replay_view[OF assms(1)] get_view[OF assms(3)] assms(2) by (auto simp: apply_row_op_def)

end

locale rocks_engine =
  fixes lt :: "u8 list \<Rightarrow> u8 list \<Rightarrow> bool" and eng :: "'db row_engine" and view :: "'db \<Rightarrow> u8 list \<rightharpoonup> u8 list"
  assumes laws: "rocks_laws lt eng view"

text \<open>A RocksDB engine that keeps its promises makes the RocksDB store keep its own.\<close>

sublocale rocks_engine \<subseteq> rocks: row_store "rocks_store eng" view
proof
  fix os table key tuple r st st'
  show "so_replay (rocks_store eng) os st = Some (Inr (), st') \<Longrightarrow> view st' = fold apply_row_op os (view st)"
    using rocks_replay_view[OF laws] by (simp add: rocks_store_def)
  show "so_put (rocks_store eng) table key tuple st = Some (Inr (), st') \<Longrightarrow> view st' = (view st)(row_key table key \<mapsto> tuple)"
    using rocks_lawsD(3)[OF laws, of "row_key table key" tuple st]
    by (auto simp: rocks_store_def rocks_put_def ec_result_def rocks_to_ec_ok split: if_splits prod.splits dest!: bind_SomeD)
  show "so_get (rocks_store eng) table key st = Some (Inr (Some tuple)) \<Longrightarrow> view st (row_key table key) = Some tuple"
    using rocks_get_view[OF laws, of table key st "Some tuple"] by (simp add: rocks_store_def)
  show "so_sync (rocks_store eng) st = Some (r, st') \<Longrightarrow> view st' = view st"
    using rocks_lawsD(5)[OF laws, of st]
    by (auto simp: rocks_store_def rocks_sync_def split: prod.splits dest!: bind_SomeD)
qed

interpretation list_rocks: rocks_engine lt "list_engine lt" map_of for lt
  by unfold_locales (rule list_engine_laws)

end
