(* ===== verification/RL_Block.thy ===== *)
theory RL_Block
  imports Raft Tx_Proto
begin

text \<open>
  The replication log block of \<^verbatim>\<open>src/replog/rl_block.cpp\<close>: registration of the
  concurrency control and data store blocks of a region, appends to the raft state machine,
  and the messages that follow a commit.  The callbacks of the state machine change nothing
  it reads, so they run after the operation that raised them, in the order of
  \<^verbatim>\<open>effects'\<close>.  Parsing a log is a parameter, and sends go to \<^verbatim>\<open>rl_out'\<close>.
\<close>

section \<open>Messages and state\<close>

record ccb_register_ccb_request =
  rc_source :: node_id_t
  rc_cno :: nat
  rc_shard_ids :: "shard_id_t list"

record rlb_register_ccb_response =
  rcr_cno :: nat
  rcr_source :: node_id_t
  rcr_dest :: node_id_t
  rcr_lead_node :: node_id_t
  rcr_is_lead :: bool
  rcr_ok :: bool
  rcr_shard_ids :: "shard_id_t list"
  rcr_dsb_node_ids :: "node_id_t list"

record dsb_register_dsb_request =
  rd_source' :: node_id_t
  rd_cno' :: nat
  rd_shard_ids' :: "shard_id_t list"

record rlb_register_dsb_response =
  rdr_ok :: bool
  rdr_cno :: nat
  rdr_source :: node_id_t
  rdr_dest :: node_id_t
  rdr_lead :: bool

record ccb_append_log_request =
  al_source :: node_id_t
  al_cno :: nat
  al_repeated_tx_logs :: "u8 list"

record rlb_commit_entries =
  ce_error_code :: EC
  ce_dest :: node_id_t
  ce_source :: node_id_t
  ce_cno :: nat
  ce_repeated_tx_logs :: "u8 list"

record replay_to_dsb_request =
  ry_dest :: node_id_t
  ry_source :: node_id_t
  ry_cno :: nat
  ry_repeated_tx_logs :: "u8 list"
  ry_operations :: "tx_operation list"

record error_consistency =
  ec_source :: node_id_t
  ec_dest :: node_id_t
  ec_cno :: nat

datatype rl_send =
    Send_R2C_REGISTER_RESP node_id_t rlb_register_ccb_response
  | Send_R2D_REGISTER_RESP node_id_t rlb_register_dsb_response
  | Send_CCB_ERROR_CONSISTENCY node_id_t error_consistency
  | Send_COMMIT_LOG_ENTRIES node_id_t rlb_commit_entries
  | Send_R2D_REPLAY_TO_DSB_REQ node_id_t replay_to_dsb_request
  | Call_become_leader nat
  | Call_become_follower nat
  | Call_commit_entries EC bool "raft_log_entry list"

record rl_block =
  rl_node_id' :: node_id_t
  rl_cno' :: nat
  ccb_shards' :: "(shard_id_t \<times> node_id_t) list"
  dsb_shards' :: "(shard_id_t \<times> node_id_t) list"
  ccb_node_id' :: "node_id_t option"
  dsb_node_id' :: "node_id_t option"
  ccb_responsed' :: "(node_id_t \<times> bool) list"
  state_machine' :: state_machine
  rl_out' :: "rl_send list"

definition new_rl_block :: "node_id_t \<Rightarrow> state_machine \<Rightarrow> rl_block" where
  "new_rl_block node sm = \<lparr>rl_node_id' = node, rl_cno' = 0, ccb_shards' = [], dsb_shards' = [], ccb_node_id' = None,
     dsb_node_id' = None, ccb_responsed' = [], state_machine' = sm, rl_out' = []\<rparr>"

definition rl_emit :: "rl_send \<Rightarrow> rl_block \<Rightarrow> rl_block" where
  "rl_emit m s = s\<lparr>rl_out' := rl_out' s @ [m]\<rparr>"

text \<open>\<^verbatim>\<open>unordered_map::insert\<close> keeps an entry that is there.\<close>

definition umap_insert :: "'k \<Rightarrow> 'v \<Rightarrow> ('k \<times> 'v) list \<Rightarrow> ('k \<times> 'v) list" where
  "umap_insert k v m = (if k \<in> fst ` set m then m else m @ [(k, v)])"

section \<open>Registration\<close>

text \<open>The loop over the shards; it returns from the handler at a shard without data store.\<close>

fun register_ccb_loop ::
  "node_id_t \<Rightarrow> shard_id_t list \<Rightarrow> rlb_register_ccb_response \<Rightarrow> rl_block \<Rightarrow> rlb_register_ccb_response option \<times> rl_block" where
  "register_ccb_loop node [] res s = (Some res, s)"
| "register_ccb_loop node (sid # ids) res s =
     (let s = s\<lparr>ccb_shards' := umap_insert sid node (ccb_shards' s)\<rparr>;
          s = (if length (ccb_shards' s) > 1 then s\<lparr>ccb_node_id' := None\<rparr> else s)
      in case map_of (dsb_shards' s) sid of
           Some dsb \<Rightarrow> register_ccb_loop node ids
             (res\<lparr>rcr_shard_ids := rcr_shard_ids res @ [sid], rcr_dsb_node_ids := rcr_dsb_node_ids res @ [dsb]\<rparr>) s
         | None \<Rightarrow> (None, s))"

definition handle_register_ccb :: "ccb_register_ccb_request \<Rightarrow> rl_block \<Rightarrow> rl_block option" where
  "handle_register_ccb req s = do {
     st \<leftarrow> Raft.status (state_machine' s);
     Some (if st_term st = 0 then s
       else if st_state st \<noteq> RAFT_STATE_LEADER \<and> st_state st \<noteq> RAFT_STATE_FOLLOWER then s
       else
         let res = \<lparr>rcr_cno = st_term st, rcr_source = rl_node_id' s, rcr_dest = rc_source req,
               rcr_lead_node = st_lead_node st, rcr_is_lead = (st_state st = RAFT_STATE_LEADER), rcr_ok = True,
               rcr_shard_ids = [], rcr_dsb_node_ids = []\<rparr>;
             (res, s) = (if st_term st \<noteq> rc_cno req then
               register_ccb_loop (rc_source req) (rc_shard_ids req) res
                 (if ccb_node_id' s = None \<and> ccb_shards' s = [] then s\<lparr>ccb_node_id' := Some (rc_source req)\<rparr> else s)
               else (Some res, s))
         in case res of None \<Rightarrow> s | Some res \<Rightarrow> rl_emit (Send_R2C_REGISTER_RESP (rc_source req) res) s) }"

fun register_dsb_loop :: "node_id_t \<Rightarrow> shard_id_t list \<Rightarrow> rl_block \<Rightarrow> rl_block" where
  "register_dsb_loop node [] s = s"
| "register_dsb_loop node (sid # ids) s =
     (let s = s\<lparr>dsb_shards' := umap_insert sid node (dsb_shards' s)\<rparr>
      in register_dsb_loop node ids (if length (dsb_shards' s) > 1 then s\<lparr>dsb_node_id' := None\<rparr> else s))"

definition handle_register_dsb :: "dsb_register_dsb_request \<Rightarrow> rl_block \<Rightarrow> rl_block option" where
  "handle_register_dsb dsb s = do {
     st \<leftarrow> Raft.status (state_machine' s);
     Some (if st_term st = 0 then s
       else if st_state st \<noteq> RAFT_STATE_LEADER \<and> st_state st \<noteq> RAFT_STATE_FOLLOWER then s
       else
         let s = (if st_term st \<noteq> rd_cno' dsb then
               let s = (if dsb_node_id' s = None \<or> dsb_node_id' s \<noteq> Some (rd_source' dsb)
                        then s\<lparr>dsb_node_id' := Some (rd_source' dsb)\<rparr> else s);
                   s = (if dsb_node_id' s = None \<and> ccb_shards' s = [] then s\<lparr>dsb_node_id' := Some (rd_source' dsb)\<rparr> else s)
               in register_dsb_loop (rd_source' dsb) (rd_shard_ids' dsb) s
             else s)
         in rl_emit (Send_R2D_REGISTER_RESP (rd_source' dsb)
              \<lparr>rdr_ok = True, rdr_cno = st_term st, rdr_source = rl_node_id' s, rdr_dest = rd_source' dsb,
               rdr_lead = (st_state st = RAFT_STATE_LEADER)\<rparr>) s) }"

definition handle_report_status_response :: "node_id_t \<Rightarrow> rl_block \<Rightarrow> rl_block" where
  "handle_report_status_response source s =
     (if source \<in> fst ` set (ccb_responsed' s) then s\<lparr>ccb_responsed' := AList.update source True (ccb_responsed' s)\<rparr> else s)"

section \<open>Commit\<close>

text \<open>The message maps: one message per destination, in the order of the first insertion.\<close>

definition msg_update :: "'k \<Rightarrow> 'm \<Rightarrow> ('m \<Rightarrow> 'm) \<Rightarrow> ('k \<times> 'm) list \<Rightarrow> ('k \<times> 'm) list" where
  "msg_update k new f m = (case map_of m k of
     None \<Rightarrow> m @ [(k, f new)]
   | Some _ \<Rightarrow> map (\<lambda>(k', x). (k', if k' = k then f x else x)) m)"

type_synonym msg_maps = "(node_id_t \<times> rlb_commit_entries) list \<times> (node_id_t \<times> replay_to_dsb_request) list"

definition commit_msg :: "EC \<Rightarrow> rl_block \<Rightarrow> node_id_t \<Rightarrow> rlb_commit_entries" where
  "commit_msg ec s node = \<lparr>ce_error_code = ec, ce_dest = node, ce_source = rl_node_id' s, ce_cno = rl_cno' s,
     ce_repeated_tx_logs = []\<rparr>"

definition replay_msg :: "rl_block \<Rightarrow> node_id_t \<Rightarrow> replay_to_dsb_request" where
  "replay_msg s node = \<lparr>ry_dest = node, ry_source = rl_node_id' s, ry_cno = rl_cno' s, ry_repeated_tx_logs = [],
     ry_operations = []\<rparr>"

definition add_commit_log :: "u8 list \<Rightarrow> rlb_commit_entries \<Rightarrow> rlb_commit_entries" where
  "add_commit_log bytes m = m\<lparr>ce_repeated_tx_logs := ce_repeated_tx_logs m @ bytes\<rparr>"

definition add_replay_log :: "u8 list \<Rightarrow> replay_to_dsb_request \<Rightarrow> replay_to_dsb_request" where
  "add_replay_log bytes m = m\<lparr>ry_repeated_tx_logs := ry_repeated_tx_logs m @ bytes\<rparr>"

definition add_replay_operation :: "tx_operation \<Rightarrow> replay_to_dsb_request \<Rightarrow> replay_to_dsb_request" where
  "add_replay_operation op m = m\<lparr>ry_operations := ry_operations m @ [op]\<rparr>"

definition replay_operation :: "rl_block \<Rightarrow> tx_operation \<Rightarrow> (node_id_t \<times> replay_to_dsb_request) list \<Rightarrow> (node_id_t \<times> replay_to_dsb_request) list" where
  "replay_operation s op m =
     (if is_write_operation (to_op_type op) then
        (case map_of (dsb_shards' s) (op_shard_id op) of
           Some dsb \<Rightarrow> msg_update dsb (replay_msg s dsb) (add_replay_operation op) m
         | None \<Rightarrow> m)
      else m)"

text \<open>The new timestamp of a record and \<^verbatim>\<open>previous_latency\<close> after it.\<close>

definition restamp :: "u64 \<Rightarrow> u64 \<Rightarrow> u64 \<Rightarrow> u64 \<times> u64" where
  "restamp now ts prev = (if ts \<noteq> 0 then (now - ts, now - ts) else if prev \<noteq> 0 then (prev, prev) else (ts, prev))"

definition commit_record ::
  "(u8 list \<Rightarrow> tx_log option) \<Rightarrow> EC \<Rightarrow> u64 \<Rightarrow> rl_block \<Rightarrow> u8 list \<times> u64 \<times> node_id_t \<Rightarrow> u64 \<times> msg_maps \<Rightarrow> u64 \<times> msg_maps" where
  "commit_record parse ec now s r st =
     (case (r, st) of ((payload, ts, node), prev, commits, replays) \<Rightarrow>
        let (ts, prev) = restamp now ts prev;
            buffer = log_bytes ts node payload;
            commits = msg_update node (commit_msg ec s node) (add_commit_log buffer) commits;
            replays = (case (length (dsb_shards' s) = 1, dsb_node_id' s) of
                (True, Some dsb) \<Rightarrow> msg_update dsb (replay_msg s dsb) (add_replay_log buffer) replays
              | _ \<Rightarrow> (if ec = EC_OK then
                         (case parse payload of
                            Some proto \<Rightarrow> fold (replay_operation s) (tl_operations proto) replays
                          | None \<Rightarrow> replays)
                       else replays))
        in (prev, commits, replays))"

fun commit_entry_loop ::
  "(u8 list \<Rightarrow> tx_log option) \<Rightarrow> EC \<Rightarrow> u64 \<Rightarrow> rl_block \<Rightarrow> raft_log_entry list \<Rightarrow> u64 \<times> msg_maps \<Rightarrow> (u64 \<times> msg_maps) option" where
  "commit_entry_loop parse ec now s [] st = Some st"
| "commit_entry_loop parse ec now s (e # es) st =
     (case tx_logs_to_proto_and_timestamp (length (e_logs e)) Some (e_logs e) of
        Done rs \<Rightarrow> commit_entry_loop parse ec now s es (fold (commit_record parse ec now s) rs st)
      | _ \<Rightarrow> None)"

definition response_commit_log ::
  "(u8 list \<Rightarrow> tx_log option) \<Rightarrow> EC \<Rightarrow> u64 \<Rightarrow> raft_log_entry list \<Rightarrow> rl_block \<Rightarrow> rl_block option" where
  "response_commit_log parse ec now logs s =
     (if logs = [] then Some s
      else do {
        (prev, commits, replays) \<leftarrow> commit_entry_loop parse ec now s logs (0, [], []);
        Some (s\<lparr>rl_out' := rl_out' s @ map (\<lambda>(n, m). Send_COMMIT_LOG_ENTRIES n m) commits @
          map (\<lambda>(n, m). Send_R2D_REPLAY_TO_DSB_REQ n m) replays\<rparr>) })"

definition on_commit_entries ::
  "(u8 list \<Rightarrow> tx_log option) \<Rightarrow> u64 \<Rightarrow> EC \<Rightarrow> bool \<Rightarrow> raft_log_entry list \<Rightarrow> rl_block \<Rightarrow> rl_block option" where
  "on_commit_entries parse now ec is_lead logs s = do {
     let s = rl_emit (Call_commit_entries EC_OK is_lead logs) s;
     if ec = EC_OK then (if is_lead then response_commit_log parse EC_OK now logs s else Some s)
     else (if is_lead then response_commit_log parse ec now logs s else Some s) }"

definition rl_on_become_leader :: "nat \<Rightarrow> rl_block \<Rightarrow> rl_block" where
  "rl_on_become_leader term s = (rl_emit (Call_become_leader term) s)\<lparr>rl_cno' := term\<rparr>"

definition rl_on_become_follower :: "nat \<Rightarrow> rl_block \<Rightarrow> rl_block" where
  "rl_on_become_follower term s = rl_emit (Call_become_follower term) (s\<lparr>rl_cno' := term\<rparr>)"

definition rl_effect :: "(u8 list \<Rightarrow> tx_log option) \<Rightarrow> u64 \<Rightarrow> raft_effect \<Rightarrow> rl_block \<Rightarrow> rl_block option" where
  "rl_effect parse now e s = (case e of
     On_become_leader term \<Rightarrow> Some (rl_on_become_leader term s)
   | On_become_follower term \<Rightarrow> Some (rl_on_become_follower term s)
   | On_commit_entries ec is_lead logs \<Rightarrow> on_commit_entries parse now ec is_lead logs s)"

fun rl_effects :: "(u8 list \<Rightarrow> tx_log option) \<Rightarrow> u64 \<Rightarrow> raft_effect list \<Rightarrow> rl_block \<Rightarrow> rl_block option" where
  "rl_effects parse now [] s = Some s"
| "rl_effects parse now (e # es) s = do { s \<leftarrow> rl_effect parse now e s; rl_effects parse now es s }"

text \<open>An operation of the state machine with its callbacks.\<close>

definition with_state_machine ::
  "(u8 list \<Rightarrow> tx_log option) \<Rightarrow> u64 \<Rightarrow> (state_machine \<Rightarrow> state_machine option) \<Rightarrow> rl_block \<Rightarrow> rl_block option" where
  "with_state_machine parse now op s = do {
     sm \<leftarrow> op (state_machine' s);
     rl_effects parse now (effects' sm) (s\<lparr>state_machine' := sm\<lparr>effects' := []\<rparr>\<rparr>) }"

section \<open>Messages\<close>

definition rl_send_error_consistency :: "node_id_t \<Rightarrow> rl_block \<Rightarrow> rl_block" where
  "rl_send_error_consistency node s = rl_emit (Send_CCB_ERROR_CONSISTENCY node
     \<lparr>ec_source = rl_node_id' s, ec_dest = node, ec_cno = rl_cno' s\<rparr>) s"

definition handle_append_entries ::
  "(u8 list \<Rightarrow> tx_log option) \<Rightarrow> u64 \<Rightarrow> ccb_append_log_request \<Rightarrow> u64 \<Rightarrow> rl_block \<Rightarrow> rl_block option" where
  "handle_append_entries parse now request ts s =
     (if al_cno request \<noteq> rl_cno' s then Some (rl_send_error_consistency (al_source request) s)
      else with_state_machine parse now (\<lambda>sm. map_option snd (ccb_append_log ts (al_repeated_tx_logs request) sm)) s)"

datatype rl_message =
    C2R_APPEND_LOG_REQ ccb_append_log_request u64
  | C2R_REGISTER_REQ ccb_register_ccb_request
  | D2R_REGISTER_REQ dsb_register_dsb_request
  | C2R_REPORT_STATUS_RESP node_id_t
  | RL_raft raft_message
  | D2R_WRITE_BATCH_RESP

definition rlb_handle_message :: "(u8 list \<Rightarrow> tx_log option) \<Rightarrow> u64 \<Rightarrow> rl_message \<Rightarrow> rl_block \<Rightarrow> rl_block option" where
  "rlb_handle_message parse now m s = (case m of
     C2R_APPEND_LOG_REQ request ts \<Rightarrow> handle_append_entries parse now request ts s
   | C2R_REGISTER_REQ request \<Rightarrow> handle_register_ccb request s
   | D2R_REGISTER_REQ request \<Rightarrow> handle_register_dsb request s
   | C2R_REPORT_STATUS_RESP source \<Rightarrow> Some (handle_report_status_response source s)
   | RL_raft m \<Rightarrow> with_state_machine parse now (on_recv_message m) s
   | D2R_WRITE_BATCH_RESP \<Rightarrow> Some s)"

end
