(* ===== verification/DS_Block.thy ===== *)
theory DS_Block
  imports Row_Store RL_Block
begin

text \<open>
  The data store block of \<^verbatim>\<open>src/store/ds_block.cpp\<close> over a row store: registration, reads,
  replay of committed logs, warm-up, and the loader of the TPC-C tables.  Work posted to the
  I/O context, and the thread of the loader, wait in \<^verbatim>\<open>io'\<close>; random contents of generated rows are parameters.
\<close>

section \<open>State\<close>

record warm_up_req =
  wu_source :: node_id_t
  wu_term_id :: u64
  wu_tuple_key :: "(u64 \<times> u64 \<times> u64) list"

record warm_up_resp =
  wr_source :: node_id_t
  wr_dest :: node_id_t
  wr_term_id :: u64
  wr_ok :: bool
  wr_tuple_row :: "tuple_row list"

record client_load_data_request =
  ld_wid_lower :: u32
  ld_wid_upper :: u32

datatype ds_send =
    Send_D2R_REGISTER_REQ node_id_t dsb_register_dsb_request
  | Send_CCB_HANDLE_WARM_UP_RESP node_id_t warm_up_resp
  | Send_D2C_READ_DATA_RESP node_id_t dsb_read_response
  | Send_D2R_WRITE_BATCH_RESP node_id_t
  | Send_DS_ERROR_CONSISTENCY node_id_t error_consistency
  | Send_CLIENT_LOAD_DATA_RESP EC

datatype ds_job = Read_job ccb_read_request | Replay_job node_id_t "tx_operation list" | Load_job

record 'st ds_block =
  ds_node_id' :: node_id_t
  rlb_node_id' :: node_id_t
  ds_shard_ids' :: "shard_id_t list"
  registered' :: bool
  ds_cno' :: nat
  store' :: 'st
  wid' :: "u32 list"
  io' :: "ds_job list"
  register_timer' :: bool
  ds_out' :: "ds_send list"

definition new_ds_block :: "node_id_t \<Rightarrow> node_id_t \<Rightarrow> shard_id_t list \<Rightarrow> 'st \<Rightarrow> 'st ds_block" where
  "new_ds_block node rlb shards st = \<lparr>ds_node_id' = node, rlb_node_id' = rlb, ds_shard_ids' = shards, registered' = False,
     ds_cno' = 0, store' = st, wid' = [], io' = [], register_timer' = False, ds_out' = []\<rparr>"

definition ds_emit :: "ds_send \<Rightarrow> 'st ds_block \<Rightarrow> 'st ds_block" where
  "ds_emit m s = s\<lparr>ds_out' := ds_out' s @ [m]\<rparr>"

definition ds_post :: "ds_job \<Rightarrow> 'st ds_block \<Rightarrow> 'st ds_block" where
  "ds_post j s = s\<lparr>io' := io' s @ [j]\<rparr>"

section \<open>Registration\<close>

definition ds_send_register :: "'st ds_block \<Rightarrow> 'st ds_block" where
  "ds_send_register s =
     (let (ids, s) = (if \<not> registered' s then (ds_shard_ids' s, s\<lparr>ds_cno' := 0\<rparr>) else ([], s));
          req = \<lparr>rd_source' = ds_node_id' s, rd_cno' = ds_cno' s, rd_shard_ids' = ids\<rparr>
      in (ds_emit (Send_D2R_REGISTER_REQ (rlb_node_id' s) req) s)\<lparr>register_timer' := True\<rparr>)"

definition handle_register_dsb_response :: "rlb_register_dsb_response \<Rightarrow> 'st ds_block \<Rightarrow> 'st ds_block" where
  "handle_register_dsb_response r s = (if \<not> rdr_ok r then s else s\<lparr>ds_cno' := rdr_cno r, registered' := True\<rparr>)"

definition ds_send_error_consistency :: "node_id_t \<Rightarrow> 'st ds_block \<Rightarrow> 'st ds_block" where
  "ds_send_error_consistency node s = ds_emit (Send_DS_ERROR_CONSISTENCY node
     \<lparr>ec_source = ds_node_id' s, ec_dest = node, ec_cno = ds_cno' s\<rparr>) s"

section \<open>Reads\<close>

text \<open>A row that the store does not return is left out; a null pointer is an abort.\<close>

fun warm_up_rows :: "'st store_ops \<Rightarrow> (u64 \<times> u64 \<times> u64) list \<Rightarrow> 'st \<Rightarrow> tuple_row list option" where
  "warm_up_rows ops [] st = Some []"
| "warm_up_rows ops ((table, shard, key) # ks) st = do {
     r \<leftarrow> so_get ops (ucast table) key st;
     (case r of
        Inl _ \<Rightarrow> warm_up_rows ops ks st
      | Inr p \<Rightarrow> do {
          tuple \<leftarrow> p;
          rows \<leftarrow> warm_up_rows ops ks st;
          Some (\<lparr>tr_table_id = table, tr_shard_id = shard, tr_tuple_id = key, tr_tuple = tuple\<rparr> # rows) }) }"

definition ds_handle_warm_up :: "'st store_ops \<Rightarrow> warm_up_req \<Rightarrow> 'st ds_block \<Rightarrow> 'st ds_block option" where
  "ds_handle_warm_up ops m s = do {
     rows \<leftarrow> warm_up_rows ops (wu_tuple_key m) (store' s);
     Some (ds_emit (Send_CCB_HANDLE_WARM_UP_RESP (wu_source m) \<lparr>wr_source = ds_node_id' s, wr_dest = wu_source m,
       wr_term_id = wu_term_id m, wr_ok = True, wr_tuple_row = rows\<rparr>) s) }"

definition ds_handle_read_data :: "ccb_read_request \<Rightarrow> 'st ds_block \<Rightarrow> 'st ds_block" where
  "ds_handle_read_data request s =
     (if unat (rd_cno request) \<noteq> ds_cno' s then ds_send_error_consistency (rd_source request) s
      else ds_post (Read_job request) s)"

definition ds_read_response :: "u64 \<Rightarrow> ccb_read_request \<Rightarrow> EC \<Rightarrow> tuple_pb \<Rightarrow> dsb_read_response" where
  "ds_read_response us req ec tuple = \<lparr>dr_source = rd_dest req, dr_dest = rd_source req, dr_cno = 0, dr_xid = rd_xid req,
     dr_oid = rd_oid req, dr_error_code = ec, dr_latency_read_dsb = us, dr_debug_send_ts = 0,
     dr_tuple_row = Some \<lparr>tr_table_id = ucast (ucast (rd_table_id req) :: table_id_t),
       tr_shard_id = ucast (ucast (rd_shard_id req) :: shard_id_t), tr_tuple_id = rd_tuple_id req, tr_tuple = tuple\<rparr>\<rparr>"

definition run_read_job :: "'st store_ops \<Rightarrow> u64 \<Rightarrow> ccb_read_request \<Rightarrow> 'st ds_block \<Rightarrow> 'st ds_block option" where
  "run_read_job ops us req s = do {
     r \<leftarrow> so_get ops (ucast (rd_table_id req)) (rd_tuple_id req) (store' s);
     (case r of
        Inl ec \<Rightarrow> Some (ds_emit (Send_D2C_READ_DATA_RESP (rd_source req) (ds_read_response us req ec [])) s)
      | Inr p \<Rightarrow> do {
          tuple \<leftarrow> p;
          boost_assert (\<not> is_tuple_nil tuple);
          Some (ds_emit (Send_D2C_READ_DATA_RESP (rd_source req) (ds_read_response us req EC_OK tuple)) s) }) }"

section \<open>Replay\<close>

definition logs_operations :: "(u8 list \<Rightarrow> tx_log option) \<Rightarrow> u8 list \<Rightarrow> tx_operation list option" where
  "logs_operations parse logs = (case tx_logs_to_proto (length logs) parse logs of
     Done protos \<Rightarrow> Some (concat (map tl_operations protos))
   | _ \<Rightarrow> None)"

definition handle_replay_to_dsb ::
  "(u8 list \<Rightarrow> tx_log option) \<Rightarrow> replay_to_dsb_request \<Rightarrow> 'st ds_block \<Rightarrow> 'st ds_block option" where
  "handle_replay_to_dsb parse msg s = do {
     ops \<leftarrow> (if ry_operations msg \<noteq> [] then Some (ry_operations msg) else logs_operations parse (ry_repeated_tx_logs msg));
     Some (ds_post (Replay_job (ry_source msg) ops) s) }"

definition run_replay_job :: "'st store_ops \<Rightarrow> node_id_t \<Rightarrow> tx_operation list \<Rightarrow> 'st ds_block \<Rightarrow> 'st ds_block option" where
  "run_replay_job ops to_node operations s = do {
     (r, st) \<leftarrow> so_replay ops operations (store' s);
     let s = s\<lparr>store' := st\<rparr>;
     Some (case r of Inr _ \<Rightarrow> ds_emit (Send_D2R_WRITE_BATCH_RESP to_node) s | Inl _ \<Rightarrow> s) }"

section \<open>Loading\<close>

record tpcc_config =
  num_item' :: u64
  num_warehouse' :: u64
  num_district_per_warehouse' :: u64
  num_customer_per_district' :: u64
  num_order_initialize_per_district' :: u64
  num_max_order_line' :: u64

abbreviation "TPCC_CUSTOMER \<equiv> (1 :: table_id_t)"
abbreviation "TPCC_STOCK \<equiv> (2 :: table_id_t)"
abbreviation "TPCC_WAREHOUSE \<equiv> (3 :: table_id_t)"
abbreviation "TPCC_ITEM \<equiv> (4 :: table_id_t)"
abbreviation "TPCC_DISTRICT \<equiv> (5 :: table_id_t)"
abbreviation "TPCC_ORDER \<equiv> (6 :: table_id_t)"
abbreviation "TPCC_NEW_ORDER \<equiv> (7 :: table_id_t)"
abbreviation "TPCC_ORDER_LINE \<equiv> (8 :: table_id_t)"

text \<open>
  The values of a counter from 1 to a bound, for bounds below the greatest 32-bit number, and a
  64-bit key kept in a \<^verbatim>\<open>uint32_t\<close>.
\<close>

definition upto_u64 :: "u64 \<Rightarrow> u64 list" where
  "upto_u64 n = map of_nat [1..<unat n + 1]"

definition key32 :: "u64 \<Rightarrow> tuple_id_t" where
  "key32 k = ucast (ucast k :: u32)"

definition load_item :: "tpcc_config \<Rightarrow> (table_id_t \<times> tuple_id_t) list" where
  "load_item c = map (\<lambda>i. (TPCC_ITEM, i)) (upto_u64 (num_item' c))"

definition load_customer :: "tpcc_config \<Rightarrow> u32 list \<Rightarrow> (table_id_t \<times> tuple_id_t) list" where
  "load_customer c wids = [(TPCC_CUSTOMER, key32 (make_customer_key (ucast wid) did cid (num_warehouse' c) (num_district_per_warehouse' c))).
     wid \<leftarrow> wids, did \<leftarrow> upto_u64 (num_district_per_warehouse' c), cid \<leftarrow> upto_u64 (num_customer_per_district' c)]"

definition load_stock :: "tpcc_config \<Rightarrow> u32 list \<Rightarrow> (table_id_t \<times> tuple_id_t) list" where
  "load_stock c wids = [(TPCC_STOCK, key32 (make_stock_key (ucast wid) iid (num_warehouse' c))). wid \<leftarrow> wids, iid \<leftarrow> upto_u64 (num_item' c)]"

definition load_warehouse :: "u32 list \<Rightarrow> (table_id_t \<times> tuple_id_t) list" where
  "load_warehouse wids = [(TPCC_WAREHOUSE, ucast wid). wid \<leftarrow> wids]"

definition load_district :: "tpcc_config \<Rightarrow> u32 list \<Rightarrow> (table_id_t \<times> tuple_id_t) list" where
  "load_district c wids = [(TPCC_DISTRICT, key32 (make_district_key (ucast wid) did (num_warehouse' c))).
     wid \<leftarrow> wids, did \<leftarrow> upto_u64 (num_district_per_warehouse' c)]"

text \<open>The values \<^verbatim>\<open>max % wid + 1\<close>, \<^verbatim>\<open>max % wid + 1 + num_wh\<close>, up to \<^verbatim>\<open>max\<close>.\<close>

definition order_ids :: "u64 \<Rightarrow> u64 \<Rightarrow> u32 \<Rightarrow> u64 list" where
  "order_ids mx num_wh wid =
     (let start = unat mx mod unat wid + 1 in
      if start \<le> unat mx then map (\<lambda>i. of_nat (start + i * unat num_wh)) [0..<(unat mx - start) div unat num_wh + 1] else [])"

definition load_one_order :: "tpcc_config \<Rightarrow> (u64 \<Rightarrow> u64 \<Rightarrow> u64 \<Rightarrow> u64) \<Rightarrow> u64 \<Rightarrow> u64 \<Rightarrow> u64 \<Rightarrow> (table_id_t \<times> tuple_id_t) list" where
  "load_one_order c ol wid oid did =
     (let okey = key32 (make_order_key wid did oid (num_warehouse' c) (num_district_per_warehouse' c)) in
      (TPCC_ORDER, okey) #
      map (\<lambda>olid. (TPCC_ORDER_LINE, key32 (make_order_line_key wid did oid olid (num_warehouse' c) (num_district_per_warehouse' c) 100000000)))
        (upto_u64 (ol wid oid did)) @
      (if oid > 2100 then [(TPCC_NEW_ORDER, okey)] else []))"

text \<open>The remainder by warehouse 0 and a step of 0 have no result.\<close>

definition load_order :: "tpcc_config \<Rightarrow> (u64 \<Rightarrow> u64 \<Rightarrow> u64 \<Rightarrow> u64) \<Rightarrow> u32 list \<Rightarrow> (table_id_t \<times> tuple_id_t) list option" where
  "load_order c ol wids = do {
     boost_assert (\<forall>wid \<in> set wids. wid \<noteq> 0);
     boost_assert (num_warehouse' c \<noteq> 0 \<or> wids = []);
     Some (concat [load_one_order c ol (ucast wid) oid did.
       wid \<leftarrow> wids, oid \<leftarrow> order_ids (num_order_initialize_per_district' c) (num_warehouse' c) wid,
       did \<leftarrow> map of_nat [1..<unat (num_district_per_warehouse' c)]]) }"

fun load_puts :: "'st store_ops \<Rightarrow> (table_id_t \<Rightarrow> tuple_id_t \<Rightarrow> tuple_pb) \<Rightarrow> (table_id_t \<times> tuple_id_t) list \<Rightarrow> 'st \<Rightarrow> 'st option" where
  "load_puts ops gen [] st = Some st"
| "load_puts ops gen ((table, key) # rows) st = do {
     (_, st) \<leftarrow> so_put ops table key (gen table key) st;
     load_puts ops gen rows st }"

definition load_data ::
  "'st store_ops \<Rightarrow> (table_id_t \<Rightarrow> tuple_id_t \<Rightarrow> tuple_pb) \<Rightarrow> (u64 \<Rightarrow> u64 \<Rightarrow> u64 \<Rightarrow> u64) \<Rightarrow> tpcc_config \<Rightarrow> u32 list \<Rightarrow> 'st \<Rightarrow> 'st option" where
  "load_data ops gen ol c wids st = do {
     orders \<leftarrow> load_order c ol wids;
     st \<leftarrow> load_puts ops gen (load_item c @ load_customer c wids @ load_stock c wids @ load_warehouse wids @
       load_district c wids @ orders) st;
     (_, st) \<leftarrow> so_sync ops st;
     Some st }"

definition handle_load_data_request :: "client_load_data_request \<Rightarrow> 'st ds_block \<Rightarrow> 'st ds_block option" where
  "handle_load_data_request msg s = do {
     boost_assert (ld_wid_lower msg < ld_wid_upper msg);
     Some (ds_post Load_job (s\<lparr>wid' := wid' s @ map of_nat [unat (ld_wid_lower msg)..<unat (ld_wid_upper msg) + 1]\<rparr>)) }"

text \<open>The next piece of posted work.\<close>

definition ds_run_io ::
  "'st store_ops \<Rightarrow> (table_id_t \<Rightarrow> tuple_id_t \<Rightarrow> tuple_pb) \<Rightarrow> (u64 \<Rightarrow> u64 \<Rightarrow> u64 \<Rightarrow> u64) \<Rightarrow> tpcc_config \<Rightarrow> u64 \<Rightarrow>
   'st ds_block \<Rightarrow> 'st ds_block option" where
  "ds_run_io ops gen ol c us s = (case io' s of
     [] \<Rightarrow> Some s
   | Read_job req # js \<Rightarrow> run_read_job ops us req (s\<lparr>io' := js\<rparr>)
   | Replay_job node operations # js \<Rightarrow> run_replay_job ops node operations (s\<lparr>io' := js\<rparr>)
   | Load_job # js \<Rightarrow> do {
       st \<leftarrow> load_data ops gen ol c (wid' s) (store' s);
       Some (ds_emit (Send_CLIENT_LOAD_DATA_RESP EC_OK) (s\<lparr>io' := js, store' := st\<rparr>)) })"

section \<open>Over a store that keeps its contract\<close>

context row_store
begin

lemma run_replay_view:
  assumes run: "run_replay_job ops node os s = Some s'" and ack: "ds_out' s' \<noteq> ds_out' s"
  shows "view (store' s') = fold apply_row_op os (view (store' s))"
proof -
  have "so_replay ops os (store' s) = Some (Inr (), store' s')"
    using run ack by (auto simp: run_replay_job_def ds_emit_def Let_def split: sum.splits dest!: bind_SomeD)
  then show ?thesis by (rule replay_view)
qed

lemma run_read_answer:
  assumes "run_read_job ops us req s = Some s'" "ds_out' s' = ds_out' s @ [Send_D2C_READ_DATA_RESP n r]" "dr_error_code r = EC_OK"
    and "so_get ops (ucast (rd_table_id req)) (rd_tuple_id req) (store' s) = Some (Inr p)"
  shows "\<exists>row. dr_tuple_row r = Some row \<and> view (store' s) (row_key (ucast (rd_table_id req)) (rd_tuple_id req)) = Some (tr_tuple row)"
  using assms get_view[of "ucast (rd_table_id req)" "rd_tuple_id req" "store' s"]
  by (auto simp: run_read_job_def ds_emit_def ds_read_response_def split: if_splits dest!: bind_SomeD)

end

context rocks_engine
begin

lemma acknowledged_replay:
  "run_replay_job (rocks_store eng) node os s = Some s' \<Longrightarrow> ds_out' s' \<noteq> ds_out' s \<Longrightarrow>
   view (store' s') = fold apply_row_op os (view (store' s))"
  by (rule rocks.run_replay_view)

end

end
