(* ===== verification/RL_Commit.thy ===== *)
theory RL_Commit
  imports RL_Block
begin

text \<open>
  What \<^verbatim>\<open>response_commit_log\<close> sends: the single pass over the records with its two hash maps
  against the grouping it stands for.
\<close>

section \<open>Grouping by destination\<close>

definition first_keys :: "'k list \<Rightarrow> 'k list" where
  "first_keys ks = rev (remdups (rev ks))"

lemma first_keys_snoc [simp]:
  "first_keys [] = []" "first_keys (ks @ [k]) = (if k \<in> set ks then first_keys ks else first_keys ks @ [k])"
  by (simp_all add: first_keys_def)

lemma set_first_keys [simp]: "set (first_keys ks) = set ks"
  by (simp add: first_keys_def)

lemma distinct_first_keys [simp]: "distinct (first_keys ks)"
  by (simp add: first_keys_def)

definition of_key :: "'k \<Rightarrow> ('k \<times> 'x) list \<Rightarrow> 'x list" where
  "of_key k xs = map snd (filter (\<lambda>p. fst p = k) xs)"

lemma of_key_snoc [simp]: "of_key k [] = []" "of_key k (xs @ [(j, x)]) = of_key k xs @ (if j = k then [x] else [])"
  by (simp_all add: of_key_def)

lemma of_key_none: "k \<notin> set (map fst xs) \<Longrightarrow> of_key k xs = []"
  by (induction xs) (auto simp: of_key_def)

lemma map_of_pairs: "map_of (map (\<lambda>k. (k, f k)) ks) k = (if k \<in> set ks then Some (f k) else None)"
  by (induction ks) auto

lemma fold_msg_update:
  "fold (\<lambda>(k, x). msg_update k (new k) (add x)) xs [] =
     map (\<lambda>k. (k, fold add (of_key k xs) (new k))) (first_keys (map fst xs))"
proof (induction xs rule: rev_induct)
  case (snoc p xs)
  obtain j x where p: "p = (j, x)" by (cases p)
  show ?case
  proof (cases "j \<in> set (map fst xs)")
    case True
    then show ?thesis using snoc.IH by (auto simp: p msg_update_def map_of_pairs)
  next
    case False
    then have "of_key j xs = []" by (rule of_key_none)
    moreover have "(if j = k then [x] else []) = []" if "k \<in> set (first_keys (map fst xs))" for k
      using False that by auto
    ultimately show ?thesis using snoc.IH False
      by (auto simp: p msg_update_def map_of_pairs simp del: list.set_map)
  qed
qed simp

section \<open>The specification\<close>

type_synonym tx_record = "u64 \<times> node_id_t \<times> u8 list"

fun restamp_all :: "u64 \<Rightarrow> u64 \<Rightarrow> tx_record list \<Rightarrow> tx_record list" where
  "restamp_all now prev [] = []"
| "restamp_all now prev ((ts, node, payload) # rs) =
     (let (ts, prev) = restamp now ts prev in (ts, node, payload) # restamp_all now prev rs)"

fun record_node :: "tx_record \<Rightarrow> node_id_t" where
  "record_node (ts, node, payload) = node"

fun record_writes :: "(u8 list \<Rightarrow> tx_log option) \<Rightarrow> rl_block \<Rightarrow> tx_record \<Rightarrow> (node_id_t \<times> tx_operation) list" where
  "record_writes parse s (ts, node, payload) =
     (case parse payload of
        None \<Rightarrow> []
      | Some proto \<Rightarrow> [(dsb, op). op \<leftarrow> tl_operations proto, is_write_operation (to_op_type op),
          dsb \<leftarrow> (case map_of (dsb_shards' s) (op_shard_id op) of None \<Rightarrow> [] | Some dsb \<Rightarrow> [dsb])])"

definition commits_spec :: "EC \<Rightarrow> rl_block \<Rightarrow> tx_record list \<Rightarrow> (node_id_t \<times> rlb_commit_entries) list" where
  "commits_spec ec s rs = map (\<lambda>n. (n, (commit_msg ec s n)\<lparr>ce_repeated_tx_logs :=
     concat (map log_of (filter (\<lambda>r. record_node r = n) rs))\<rparr>)) (first_keys (map record_node rs))"

definition only_dsb :: "rl_block \<Rightarrow> node_id_t option" where
  "only_dsb s = (if length (dsb_shards' s) = 1 then dsb_node_id' s else None)"

definition replays_spec ::
  "(u8 list \<Rightarrow> tx_log option) \<Rightarrow> EC \<Rightarrow> rl_block \<Rightarrow> tx_record list \<Rightarrow> (node_id_t \<times> replay_to_dsb_request) list" where
  "replays_spec parse ec s rs =
     (case only_dsb s of
        Some d \<Rightarrow> (if rs = [] then [] else [(d, (replay_msg s d)\<lparr>ry_repeated_tx_logs := concat (map log_of rs)\<rparr>)])
      | None \<Rightarrow>
          (let ws = (if ec = EC_OK then concat (map (record_writes parse s) rs) else [])
           in map (\<lambda>d. (d, (replay_msg s d)\<lparr>ry_operations := of_key d ws\<rparr>)) (first_keys (map fst ws))))"

section \<open>The single pass\<close>

definition swap_record :: "tx_record \<Rightarrow> u8 list \<times> u64 \<times> node_id_t" where
  "swap_record = (\<lambda>(ts, node, payload). (payload, ts, node))"

text \<open>The updates of the second map that a record makes.\<close>

definition replay_updates ::
  "(u8 list \<Rightarrow> tx_log option) \<Rightarrow> EC \<Rightarrow> rl_block \<Rightarrow> tx_record \<Rightarrow> (node_id_t \<times> (replay_to_dsb_request \<Rightarrow> replay_to_dsb_request)) list" where
  "replay_updates parse ec s r =
     (case only_dsb s of
        Some d \<Rightarrow> [(d, add_replay_log (log_of r))]
      | None \<Rightarrow> (if ec = EC_OK then map (\<lambda>(d, op). (d, add_replay_operation op)) (record_writes parse s r) else []))"

abbreviation "run_updates s \<equiv> fold (\<lambda>(d, f). msg_update d (replay_msg s d) f)"

lemma replay_operations_updates:
  "fold (replay_operation s) ops m =
     run_updates s (map (\<lambda>(d, op). (d, add_replay_operation op))
       [(dsb, op). op \<leftarrow> ops, is_write_operation (to_op_type op),
          dsb \<leftarrow> (case map_of (dsb_shards' s) (op_shard_id op) of None \<Rightarrow> [] | Some dsb \<Rightarrow> [dsb])]) m"
  by (induction ops arbitrary: m) (simp_all add: replay_operation_def split: option.split)

lemma commit_record_step:
  "commit_record parse ec now s (payload, ts, node) (prev, cs, rs) =
     (let (ts, prev) = restamp now ts prev in
      (prev, msg_update node (commit_msg ec s node) (add_commit_log (log_of (ts, node, payload))) cs,
       run_updates s (replay_updates parse ec s (ts, node, payload)) rs))"
  by (auto simp: commit_record_def replay_updates_def only_dsb_def replay_operations_updates Let_def
      split: prod.splits option.splits bool.splits if_splits)

lemma commit_record_pass:
  "\<exists>prev'. fold (commit_record parse ec now s) (map swap_record ls) (prev, cs, rs) =
     (prev', fold (\<lambda>r. msg_update (record_node r) (commit_msg ec s (record_node r)) (add_commit_log (log_of r)))
               (restamp_all now prev ls) cs,
      run_updates s (concat (map (replay_updates parse ec s) (restamp_all now prev ls))) rs)"
proof (induction ls arbitrary: prev cs rs)
  case (Cons l ls)
  obtain ts node payload where l: "l = (ts, node, payload)" by (cases l)
  show ?case using Cons.IH
    by (auto simp: l swap_record_def commit_record_step Let_def split: prod.split)
qed simp

lemma commit_pass_groups:
  "fold (\<lambda>r. msg_update (record_node r) (commit_msg ec s (record_node r)) (add_commit_log (log_of r))) rs [] = commits_spec ec s rs"
proof -
  have "fold (\<lambda>r. msg_update (record_node r) (commit_msg ec s (record_node r)) (add_commit_log (log_of r))) rs [] =
    fold (\<lambda>(k, x). msg_update k (commit_msg ec s k) (add_commit_log x)) (map (\<lambda>r. (record_node r, log_of r)) rs) []"
    by (simp add: fold_map comp_def)
  moreover have "fold add_commit_log xs m = m\<lparr>ce_repeated_tx_logs := ce_repeated_tx_logs m @ concat xs\<rparr>" for xs m
    by (induction xs arbitrary: m) (simp_all add: add_commit_log_def)
  moreover have "of_key n (map (\<lambda>r. (record_node r, log_of r)) rs) = map log_of (filter (\<lambda>r. record_node r = n) rs)" for n
    by (induction rs) (auto simp: of_key_def)
  ultimately show ?thesis
    by (simp add: fold_msg_update commits_spec_def comp_def) (simp add: commit_msg_def)
qed

lemma run_updates_groups:
  "run_updates s us [] = map (\<lambda>d. (d, fold (\<lambda>f. f) (of_key d us) (replay_msg s d))) (first_keys (map fst us))"
  using fold_msg_update[of "replay_msg s" "\<lambda>f. f" us] by simp

lemma first_keys_const: "first_keys (map (\<lambda>_. d) xs) = (if xs = [] then [] else [d])"
  by (induction xs rule: rev_induct) (simp_all add: image_constant_conv)

lemma replay_pass_groups:
  "run_updates s (concat (map (replay_updates parse ec s) rs)) [] = replays_spec parse ec s rs"
proof (cases "only_dsb s")
  case (Some d)
  have us: "concat (map (replay_updates parse ec s) rs) = map (\<lambda>r. (d, add_replay_log (log_of r))) rs"
    by (induction rs) (simp_all add: replay_updates_def Some)
  have key: "of_key d (map (\<lambda>r. (d, add_replay_log (log_of r))) rs) = map (\<lambda>r. add_replay_log (log_of r)) rs"
    by (induction rs) (auto simp: of_key_def)
  have add: "fold (\<lambda>f. f) (map (\<lambda>r. add_replay_log (log_of r)) rs) m =
      m\<lparr>ry_repeated_tx_logs := ry_repeated_tx_logs m @ concat (map log_of rs)\<rparr>" for m
    by (induction rs arbitrary: m) (simp_all add: add_replay_log_def)
  show ?thesis
    unfolding us run_updates_groups using add[of "replay_msg s d"]
    by (simp add: replays_spec_def Some comp_def first_keys_const key) (simp add: replay_msg_def)
next
  case None
  let ?ws = "if ec = EC_OK then concat (map (record_writes parse s) rs) else []"
  have us: "concat (map (replay_updates parse ec s) rs) = map (\<lambda>(d, op). (d, add_replay_operation op)) ?ws"
    by (induction rs) (simp_all add: replay_updates_def None)
  have key: "of_key d (map (\<lambda>(d, op). (d, add_replay_operation op)) ws) = map add_replay_operation (of_key d ws)" for d ws
    by (induction ws) (auto simp: of_key_def)
  have add: "fold (\<lambda>f. f) (map add_replay_operation ops) m = m\<lparr>ry_operations := ry_operations m @ ops\<rparr>" for ops m
    by (induction ops arbitrary: m) (simp_all add: add_replay_operation_def)
  have fst': "map fst (map (\<lambda>(d, op). (d, add_replay_operation op)) ws) = map fst ws" for ws :: "(node_id_t \<times> tx_operation) list"
    by (induction ws) auto
  show ?thesis
    unfolding us run_updates_groups key add fst'
    by (simp only: replays_spec_def None option.case Let_def) (simp add: replay_msg_def)
qed

section \<open>Entries\<close>

definition entry_of :: "raft_log_entry \<Rightarrow> tx_record list \<Rightarrow> bool" where
  "entry_of e ls \<longleftrightarrow> e_logs e = concat (map log_of ls) \<and> length (e_logs e) < 2 ^ 64 \<and>
     (\<forall>(ts, node, payload) \<in> set ls. 8 \<le> length payload)"

lemma length_logs: "length ls \<le> length (concat (map log_of ls))"
  by (induction ls) (auto simp: length_log_bytes)

lemma entry_records:
  assumes "entry_of e ls"
  shows "tx_logs_to_proto_and_timestamp (length (e_logs e)) Some (e_logs e) = Done (map swap_record ls)"
  using tx_logs_loop_reads[of "[]" ls Some "\<lambda>x. x" "length (e_logs e)" "e_logs e"] assms length_logs[of ls]
  by (auto simp: tx_logs_to_proto_and_timestamp_def entry_of_def swap_record_def)

lemma commit_entry_loop_records:
  "list_all2 entry_of es lss \<Longrightarrow>
   commit_entry_loop parse ec now s es st = Some (fold (commit_record parse ec now s) (map swap_record (concat lss)) st)"
  by (induction es lss arbitrary: st rule: list_all2_induct) (simp_all add: entry_records)

lemma response_commit_log_groups_sends:
  assumes "es \<noteq> []" and "list_all2 entry_of es lss"
  shows "response_commit_log parse ec now es s =
    (let rs = restamp_all now 0 (concat lss) in
     Some (s\<lparr>rl_out' := rl_out' s @ map (\<lambda>(n, m). Send_COMMIT_LOG_ENTRIES n m) (commits_spec ec s rs) @
       map (\<lambda>(n, m). Send_R2D_REPLAY_TO_DSB_REQ n m) (replays_spec parse ec s rs)\<rparr>))"
proof -
  obtain prev where "fold (commit_record parse ec now s) (map swap_record (concat lss)) (0, [], []) =
      (prev, commits_spec ec s (restamp_all now 0 (concat lss)), replays_spec parse ec s (restamp_all now 0 (concat lss)))"
    using commit_record_pass[of parse ec now s "concat lss" 0 "[]" "[]"]
    unfolding commit_pass_groups replay_pass_groups by blast
  then show ?thesis
    using assms(1) commit_entry_loop_records[OF assms(2), of parse ec now s "(0, [], [])"]
    by (simp add: response_commit_log_def Let_def)
qed


text \<open>Two writers share an entry, and the second record takes the latency of the first.\<close>

definition demo_records :: "tx_record list" where
  "demo_records = [(40, 17, replicate 8 1), (0, 18, replicate 8 2)]"

lemma demo_entry: "entry_of \<lparr>e_term = 1, e_index = 1, e_logs = concat (map log_of demo_records)\<rparr> demo_records"
  by (simp add: entry_of_def demo_records_def length_log_bytes)


end
