(* ===== verification/DS_Replay.thy ===== *)
theory DS_Replay
  imports DS_Block RL_Commit
begin

text \<open>From a commit of the replication log to the rows of the data store.\<close>

section \<open>Reading a batch\<close>

lemma loop_cons_Done: "loop_cons x r = Done ys \<longleftrightarrow> (\<exists>xs. r = Done xs \<and> ys = x # xs)"
  by (cases r) auto

lemma tx_logs_loop_map:
  assumes "\<And>b y. f b = Some y \<Longrightarrow> h b = Some (g y)"
  shows "tx_logs_loop n f logs pos = Done ys \<Longrightarrow> tx_logs_loop n h logs pos = Done (map g ys)"
proof (induction n arbitrary: pos ys)
  case 0
  then show ?case by (auto split: if_splits)
next
  case (Suc n)
  show ?case
  proof (cases "pos < length logs")
    case True
    obtain ps where ps: "lb_payload_size \<lparr>pointer' = pos, size' = length logs - pos\<rparr> logs = Some ps"
      using Suc.prems True by (auto split: option.splits)
    let ?k = "(unat ps + 24) mod 2 ^ 64"
    obtain a where a: "f \<lparr>pointer' = pos, size' = ?k\<rparr> = Some a"
      using Suc.prems True ps by (auto simp: Let_def split: option.splits)
    obtain zs where zs: "tx_logs_loop n f logs ((pos + ?k) mod 2 ^ 64) = Done zs" "ys = a # zs"
      using Suc.prems True ps a by (auto simp: Let_def loop_cons_Done)
    show ?thesis
      unfolding tx_logs_loop.simps if_P[OF True] ps option.case Let_def assms[OF a] Suc.IH[OF zs(1)] by (simp add: zs(2))
  qed (use Suc.prems in \<open>auto split: if_splits\<close>)
qed

fun record_payload :: "tx_record \<Rightarrow> u8 list" where
  "record_payload (ts, node, payload) = payload"

lemma logs_operations_records:
  assumes "length (concat (map log_of ls)) < 2 ^ 64"
    and "\<forall>r \<in> set ls. 8 \<le> length (record_payload r) \<and> parse (record_payload r) = Some (dec (record_payload r))"
  shows "logs_operations parse (concat (map log_of ls)) = Some (concat (map (\<lambda>r. tl_operations (dec (record_payload r))) ls))"
proof -
  let ?logs = "concat (map log_of ls)"
  have "tx_logs_to_proto_and_timestamp (length ?logs) parse ?logs = Done (map (\<lambda>(ts, node, e). (dec e, ts, node)) ls)"
    unfolding tx_logs_to_proto_and_timestamp_def
    using tx_logs_loop_reads[of "[]" ls parse dec "length ?logs" ?logs] assms length_logs[of ls] by fastforce
  then have "tx_logs_to_proto (length ?logs) parse ?logs = Done (map fst (map (\<lambda>(ts, node, e). (dec e, ts, node)) ls))"
    unfolding tx_logs_to_proto_and_timestamp_def tx_logs_to_proto_def
    by (rule tx_logs_loop_map[rotated]) (auto dest!: bind_SomeD)
  moreover have "map fst (map (\<lambda>(ts, node, e). (dec e, ts, node)) ls) = map (\<lambda>r. dec (record_payload r)) ls"
    by (induction ls) auto
  ultimately have "tx_logs_to_proto (length ?logs) parse ?logs = Done (map (\<lambda>r. dec (record_payload r)) ls)"
    by (simp only:)
  then show ?thesis by (simp only: logs_operations_def loop_result.case map_map comp_def)
qed

text \<open>Restamping keeps everything but the timestamps.\<close>

lemma restamp_all_payloads: "map record_payload (restamp_all now prev rs) = map record_payload rs"
  by (induction now prev rs rule: restamp_all.induct) (auto simp: Let_def split: prod.splits)

lemma restamp_all_length: "length (concat (map log_of (restamp_all now prev rs))) = length (concat (map log_of rs))"
  by (induction now prev rs rule: restamp_all.induct) (auto simp: Let_def length_log_bytes split: prod.splits)

lemma restamp_all_operations:
  "concat (map (\<lambda>r. f (record_payload r)) (restamp_all now prev rs)) = concat (map (\<lambda>r. f (record_payload r)) rs)"
  using arg_cong[OF restamp_all_payloads[of now prev rs], of "\<lambda>ps. concat (map f ps)"] by (simp add: comp_def)

lemma restamp_all_ok:
  "(\<forall>r \<in> set (restamp_all now prev rs). P (record_payload r)) \<longleftrightarrow> (\<forall>r \<in> set rs. P (record_payload r))"
  using arg_cong[OF restamp_all_payloads[of now prev rs], of "\<lambda>ps. \<forall>p \<in> set ps. P p"] by simp

lemma restamp_all_empty [simp]: "restamp_all now prev rs = [] \<longleftrightarrow> rs = []"
  by (cases rs) (auto simp: Let_def split: prod.splits)

section \<open>Replay\<close>

text \<open>
  With one shard, the data store that acknowledges the replay of a commit has applied the
  operations of every record of the entries, in order.  Neither the kind of the record nor
  the result of the append matters: a prepare record that a later decision aborts, and a record
  whose append failed, both change the rows. (C39)
\<close>

theorem replay_applies_every_record:
  assumes laws: "rocks_laws lt eng view" and one: "only_dsb rl = Some d"
    and es: "es \<noteq> []" "list_all2 entry_of es lss" and ls: "concat lss \<noteq> []" "length (concat (map log_of (concat lss))) < 2 ^ 64"
    and ok: "\<forall>r \<in> set (concat lss). 8 \<le> length (record_payload r) \<and> parse (record_payload r) = Some (dec (record_payload r))"
    and commit: "response_commit_log parse ec now es rl = Some rl'" "last (rl_out' rl') = Send_R2D_REPLAY_TO_DSB_REQ d msg"
    and handle: "handle_replay_to_dsb parse msg ds = Some ds1" "io' ds = []"
    and run: "ds_run_io (rocks_store eng) gen ol c us ds1 = Some ds2" "ds_out' ds2 \<noteq> ds_out' ds"
  shows "view (store' ds2) =
    fold apply_row_op (concat (map (\<lambda>r. tl_operations (dec (record_payload r))) (concat lss))) (view (store' ds))"
proof -
  let ?rs = "restamp_all now 0 (concat lss)"
  have msg: "msg = (replay_msg rl d)\<lparr>ry_repeated_tx_logs := concat (map log_of ?rs)\<rparr>"
    using commit(2) commit(1)[unfolded response_commit_log_groups_sends[OF es] Let_def, THEN option.inject[THEN iffD1], symmetric]
    by (simp only: replays_spec_def one option.case restamp_all_empty ls(1) if_False) simp
  have "logs_operations parse (concat (map log_of ?rs)) = Some (concat (map (\<lambda>r. tl_operations (dec (record_payload r))) ?rs))"
    by (rule logs_operations_records)
      (use ls(2) ok restamp_all_length[of now 0 "concat lss"]
        restamp_all_ok[of now 0 "concat lss" "\<lambda>p. 8 \<le> length p \<and> parse p = Some (dec p)"] in simp_all)
  then have "ds1 = ds_post (Replay_job (rl_node_id' rl) (concat (map (\<lambda>r. tl_operations (dec (record_payload r))) (concat lss)))) ds"
    using handle(1) unfolding msg
    by (simp add: handle_replay_to_dsb_def replay_msg_def restamp_all_operations[of "\<lambda>p. tl_operations (dec p)"])
  then have "run_replay_job (rocks_store eng) (rl_node_id' rl) (concat (map (\<lambda>r. tl_operations (dec (record_payload r))) (concat lss))) (ds\<lparr>io' := []\<rparr>) = Some ds2"
    using run(1) handle(2) by (simp add: ds_run_io_def ds_post_def)
  from rocks_engine.acknowledged_replay[OF rocks_engine.intro[OF laws] this] show ?thesis using run(2) by simp
qed

text \<open>The update of a prepare record, in an append that reported an error, is in the store.\<close>

definition demo_prepare_log :: tx_log where
  "demo_prepare_log = \<lparr>tl_log_type = TX_CMD_RM_PREPARE_COMMIT, tl_xid = 5, tl_operations =
     [no_operation\<lparr>to_op_type := TX_OP_UPDATE,
        to_tuple_row := Some \<lparr>tr_table_id = 3, tr_shard_id = 1, tr_tuple_id = 7, tr_tuple = [42]\<rparr>\<rparr>]\<rparr>"

definition demo_rl :: "state_machine \<Rightarrow> rl_block" where
  "demo_rl sm = (new_rl_block 9 sm)\<lparr>dsb_shards' := [(1, 33)], dsb_node_id' := Some 33\<rparr>"

definition demo_replay_msg :: replay_to_dsb_request where
  "demo_replay_msg = \<lparr>ry_dest = 33, ry_source = 9, ry_cno = 0, ry_repeated_tx_logs = log_of (60, 17, replicate 8 1), ry_operations = []\<rparr>"

definition demo_rows :: "(u8 list \<times> u8 list) list" where
  "demo_rows = [(row_key 3 7, [42])]"

definition demo_ds :: "(u8 list \<times> u8 list) list \<Rightarrow> (u8 list \<times> u8 list) list ds_block" where
  "demo_ds rows = (new_ds_block 33 9 [1] rows)"

lemma demo_replay_operations:
  "logs_operations (\<lambda>_. Some demo_prepare_log) (log_of (60, 17, replicate 8 1)) = Some (tl_operations demo_prepare_log)"
  using logs_operations_records[of "[(60, 17, replicate 8 1)]" "\<lambda>_. Some demo_prepare_log" "\<lambda>_. demo_prepare_log"]
  by (simp add: length_log_bytes)

lemma demo_replay_handled:
  "handle_replay_to_dsb (\<lambda>_. Some demo_prepare_log) demo_replay_msg (demo_ds []) =
     Some (ds_post (Replay_job 9 (tl_operations demo_prepare_log)) (demo_ds []))"
  using demo_replay_operations by (simp add: handle_replay_to_dsb_def demo_replay_msg_def)

lemma demo_replay_run:
  "ds_run_io (rocks_store (list_engine lt)) gen ol c us (ds_post (Replay_job 9 (tl_operations demo_prepare_log)) (demo_ds [])) =
     Some ((demo_ds demo_rows)\<lparr>ds_out' := [Send_D2R_WRITE_BATCH_RESP 9]\<rparr>)"
  by (simp add: ds_run_io_def ds_post_def demo_ds_def new_ds_block_def run_replay_job_def rocks_store_def rocks_replay_def
      demo_prepare_log_def no_operation_def op_table_id_def op_key_def op_row_def is_tuple_nil_def list_engine_def
      rocks_to_ec_def ec_result_def ds_emit_def demo_rows_def)

lemma demo_commit:
  "response_commit_log (\<lambda>_. Some demo_prepare_log) EC_FLOW_CONTROL 100
     [\<lparr>e_term = 1, e_index = 1, e_logs = concat (map log_of [(40, 17, replicate 8 1)])\<rparr>] (demo_rl sm) =
   Some ((demo_rl sm)\<lparr>rl_out' := [Send_COMMIT_LOG_ENTRIES 17 \<lparr>ce_error_code = EC_FLOW_CONTROL, ce_dest = 17, ce_source = 9,
     ce_cno = 0, ce_repeated_tx_logs = log_of (60, 17, replicate 8 1)\<rparr>, Send_R2D_REPLAY_TO_DSB_REQ 33 demo_replay_msg]\<rparr>)"
proof -
  have es: "list_all2 entry_of [\<lparr>e_term = 1, e_index = 1, e_logs = concat (map log_of [(40, 17, replicate 8 1)])\<rparr>] [[(40, 17, replicate 8 1)]]"
    by (simp add: entry_of_def length_log_bytes)
  have rs: "restamp_all 100 0 (concat [[(40, 17, replicate 8 1)]]) = [(60, 17, replicate 8 1)]"
    by (simp add: restamp_def)
  show ?thesis
    unfolding response_commit_log_groups_sends[OF list.distinct(2) es] rs Let_def
    by (simp add: commits_spec_def replays_spec_def only_dsb_def first_keys_def demo_rl_def new_rl_block_def
        commit_msg_def replay_msg_def demo_replay_msg_def del: log_of.simps)
qed

theorem replay_applies_every_record_witness:
  "\<exists>ds1 ds2. handle_replay_to_dsb (\<lambda>_. Some demo_prepare_log) demo_replay_msg (demo_ds []) = Some ds1 \<and>
     ds_run_io (rocks_store (list_engine (\<lambda>_ _. False))) (\<lambda>_ _. []) (\<lambda>_ _ _. 0)
       \<lparr>num_item' = 0, num_warehouse' = 0, num_district_per_warehouse' = 0, num_customer_per_district' = 0,
        num_order_initialize_per_district' = 0, num_max_order_line' = 0\<rparr> 0 ds1 = Some ds2 \<and>
     map_of (store' ds2) (row_key 3 7) = Some [42] \<and> tl_log_type demo_prepare_log = TX_CMD_RM_PREPARE_COMMIT"
proof -
  let ?c = "\<lparr>num_item' = 0, num_warehouse' = 0, num_district_per_warehouse' = 0, num_customer_per_district' = 0,
        num_order_initialize_per_district' = 0, num_max_order_line' = 0\<rparr>"
  obtain sm where "new_state_machine 9 100 10 20 5 = Some sm" by (simp add: new_state_machine_def)
  have es: "list_all2 entry_of [\<lparr>e_term = 1, e_index = 1, e_logs = concat (map log_of [(40, 17, replicate 8 1)])\<rparr>] [[(40, 17, replicate 8 1)]]"
    by (simp add: entry_of_def length_log_bytes)
  have "map_of (store' ((demo_ds demo_rows)\<lparr>ds_out' := [Send_D2R_WRITE_BATCH_RESP 9]\<rparr>)) =
    fold apply_row_op (concat (map (\<lambda>r. tl_operations demo_prepare_log) (concat [[(40, 17, replicate 8 1) :: tx_record]]))) (map_of (store' (demo_ds [])))"
    by (rule replay_applies_every_record[where d = 33 and rl = "demo_rl sm" and dec = "\<lambda>_. demo_prepare_log",
          OF list_engine_laws _ _ es _ _ _ demo_commit[of sm] _ demo_replay_handled _ demo_replay_run])
      (simp_all add: only_dsb_def demo_rl_def new_rl_block_def length_log_bytes demo_ds_def new_ds_block_def)
  then have "map_of (store' ((demo_ds demo_rows)\<lparr>ds_out' := [Send_D2R_WRITE_BATCH_RESP 9]\<rparr>)) (row_key 3 7) = Some [42]"
    by (simp add: demo_prepare_log_def apply_row_op_def no_operation_def op_table_id_def op_key_def op_row_def)
  then show ?thesis
    using demo_replay_handled demo_replay_run[of "\<lambda>_ _. False" "\<lambda>_ _. []" "\<lambda>_ _ _. 0" ?c 0]
    by (simp add: demo_prepare_log_def)
qed

end
