(* ===== verification/CC_Block.thy ===== *)
theory CC_Block
  imports Calvin_Exec DS_Block Tx_Coordinator Tx_Context_Inv
begin

text \<open>
  The concurrency control block of \<^verbatim>\<open>src/concurrency/cc_block.cpp\<close> in the
  non-deterministic modes: registration, requests of clients and coordinators, the tables of
  transaction contexts and coordinators, and the routing of every message to the strand of
  its transaction.  (The handlers of the deterministic mode are in \<^verbatim>\<open>Calvin_Exec\<close>.)  A routine
  posted to the strand of a transaction waits in \<^verbatim>\<open>tasks'\<close>.  Connections are numbers.
\<close>

section \<open>State\<close>

datatype cc_task = Ctx_task xid_t ctx_event | Tm_task xid_t tm_event

datatype cc_send =
    Send_C2R_REGISTER_REQ node_id_t ccb_register_ccb_request
  | Send_DSB_HANDLE_WARM_UP_REQ node_id_t warm_up_req
  | Reply_CLIENT_HANDLE_WARM_UP_RESP nat u64 bool
  | Reply_CLIENT_TX_RESP nat EC
  | Reply_LEAD_STATUS nat "node_id_t list" node_id_t
  | Reply_CLIENT_CCB_STATE_RESP nat u64 bool node_id_t u64 u32
  | Set_wal_cno u64
  | Set_next_node node_id_t

record cc_block =
  cb_cno' :: u64
  leader' :: bool
  cb_node_id' :: node_id_t
  cb_rlb_node_id' :: node_id_t
  cb_shard_ids' :: "shard_id_t list"
  cb_shared_nothing' :: bool
  cc_opt_dsb_node_id' :: "node_id_t option"
  dsb_shard2node' :: "(shard_id_t \<times> node_id_t) list"
  rg_lead' :: "(shard_id_t \<times> node_id_t) list"
  neighbour_shard' :: shard_id_t
  cb_registered' :: bool
  sequence' :: u32
  access' :: access_mgr
  tx_context' :: "tx_context tx_table"
  tx_coordinator' :: "tx_coordinator tx_table"
  term_connection' :: "(u64, nat) cht"
  tasks' :: "cc_task list"
  cb_out' :: "cc_send list"

definition cc_emit :: "cc_send \<Rightarrow> cc_block \<Rightarrow> cc_block" where
  "cc_emit m s = s\<lparr>cb_out' := cb_out' s @ [m]\<rparr>"

definition async_run_tx_routine :: "cc_task \<Rightarrow> cc_block \<Rightarrow> cc_block" where
  "async_run_tx_routine t s = s\<lparr>tasks' := tasks' s @ [t]\<rparr>"

text \<open>The shard that follows the own one in the ordered set, or the first.\<close>

definition next_shard :: "shard_id_t \<Rightarrow> shard_id_t list \<Rightarrow> shard_id_t option" where
  "next_shard sd ids =
     (if sd \<notin> set ids then None
      else case filter (\<lambda>x. sd < x) (sort (remdups ids)) of
             x # _ \<Rightarrow> Some x
           | [] \<Rightarrow> Some (hd (sort ids)))"

definition new_cc_block ::
  "node_id_t \<Rightarrow> node_id_t \<Rightarrow> shard_id_t list \<Rightarrow> shard_id_t list \<Rightarrow> bool \<Rightarrow> (shard_id_t \<times> node_id_t) list \<Rightarrow> nat \<Rightarrow> cc_block option" where
  "new_cc_block node rlb shards all_shards shared_nothing leads num_terminal = do {
     boost_assert (node \<noteq> 0);
     boost_assert (rlb \<noteq> 0);
     neighbour \<leftarrow> next_shard (TO_RG_ID node) shards;
     Some \<lparr>cb_cno' = 0, leader' = False, cb_node_id' = node, cb_rlb_node_id' = rlb, cb_shard_ids' = shards,
       cb_shared_nothing' = shared_nothing, cc_opt_dsb_node_id' = None, dsb_shard2node' = [], rg_lead' = leads,
       neighbour_shard' = neighbour, cb_registered' = False, sequence' = 0,
       access' = new_access_mgr all_shards (unat MAX_TABLES), tx_context' = replicate (num_terminal + 10) Map.empty,
       tx_coordinator' = replicate (num_terminal + 10) Map.empty, term_connection' = Map.empty, tasks' = [], cb_out' = []\<rparr> }"

definition cc_on_start :: "cc_block \<Rightarrow> cc_block" where
  "cc_on_start s = fold (\<lambda>(sd, n) s. if sd = neighbour_shard' s then cc_emit (Set_next_node n) s else s) (rg_lead' s) s"

section \<open>Registration and warm-up\<close>

definition cc_send_register :: "cc_block \<Rightarrow> cc_block" where
  "cc_send_register s =
     (let (ids, s) = (if \<not> cb_registered' s then (cb_shard_ids' s, cc_emit (Set_wal_cno 0) (s\<lparr>cb_cno' := 0\<rparr>)) else ([], s))
      in cc_emit (Send_C2R_REGISTER_REQ (cb_rlb_node_id' s)
           \<lparr>rc_source = cb_node_id' s, rc_cno = unat (cb_cno' s), rc_shard_ids = ids\<rparr>) s)"

definition handle_register_ccb_response :: "rlb_register_ccb_response \<Rightarrow> cc_block \<Rightarrow> cc_block option" where
  "handle_register_ccb_response r s =
     (if unat (cb_cno' s) = rcr_cno r then Some s
      else do {
        boost_assert (length (rcr_shard_ids r) \<le> length (rcr_dsb_node_ids r));
        let s = cc_emit (Set_wal_cno (of_nat (rcr_cno r))) (s\<lparr>leader' := rcr_is_lead r, cb_cno' := of_nat (rcr_cno r)\<rparr>);
        let s = s\<lparr>dsb_shard2node' := fold (\<lambda>(sd, n). umap_insert sd n) (zip (rcr_shard_ids r) (rcr_dsb_node_ids r)) (dsb_shard2node' s)\<rparr>;
        let s = (case dsb_shard2node' s of [(_, n)] \<Rightarrow> s\<lparr>cc_opt_dsb_node_id' := Some n\<rparr> | _ \<Rightarrow> s);
        Some (s\<lparr>cb_registered' := True\<rparr>) })"

definition handle_error_consistency :: "cc_block \<Rightarrow> cc_block" where
  "handle_error_consistency s = s\<lparr>cb_registered' := False\<rparr>"

definition cc_handle_warm_up_req :: "nat \<Rightarrow> warm_up_req \<Rightarrow> cc_block \<Rightarrow> cc_block option" where
  "cc_handle_warm_up_req c req s = do {
     boost_assert (wu_term_id req \<noteq> 0);
     let (conn, s) = (case cht_find (wu_term_id req) (term_connection' s) of
         Some conn \<Rightarrow> (conn, s)
       | None \<Rightarrow> (c, s\<lparr>term_connection' := snd (cht_insert (wu_term_id req) c (term_connection' s))\<rparr>));
     if \<not> cb_registered' s then Some (cc_emit (Reply_CLIENT_HANDLE_WARM_UP_RESP conn (wu_term_id req) False) s)
     else (case wu_tuple_key req of
         [] \<Rightarrow> None
       | (table, shard, key) # _ \<Rightarrow> do {
           dest \<leftarrow> map_of (dsb_shard2node' s) (ucast shard);
           Some (cc_emit (Send_DSB_HANDLE_WARM_UP_REQ dest (req\<lparr>wu_source := cb_node_id' s\<rparr>)) s) }) }"

fun warm_up_cache :: "tuple_row list \<Rightarrow> access_mgr \<Rightarrow> access_mgr option" where
  "warm_up_cache [] a = Some a"
| "warm_up_cache (row # rows) a = do {
     a \<leftarrow> access_put (ucast (tr_table_id row)) (ucast (tr_shard_id row)) (tr_tuple_id row) (tr_tuple row) a;
     warm_up_cache rows a }"

definition cc_handle_warm_up_resp :: "warm_up_resp \<Rightarrow> cc_block \<Rightarrow> cc_block option" where
  "cc_handle_warm_up_resp r s = do {
     a \<leftarrow> warm_up_cache (wr_tuple_row r) (access' s);
     let s = s\<lparr>access' := a\<rparr>;
     Some (case cht_find (wr_term_id r) (term_connection' s) of
       None \<Rightarrow> s
     | Some conn \<Rightarrow> cc_emit (Reply_CLIENT_HANDLE_WARM_UP_RESP conn (wr_term_id r) True) s) }"

text \<open>The last lead of the own group in the map wins; 0 is the default of the message.\<close>

definition handle_lead_status_request :: "nat \<Rightarrow> cc_block \<Rightarrow> cc_block" where
  "handle_lead_status_request conn s =
     cc_emit (Reply_LEAD_STATUS conn (map snd (rg_lead' s))
       (fold (\<lambda>(sd, n) l. if TO_RG_ID n = TO_RG_ID (cb_node_id' s) then n else l) (rg_lead' s) 0)) s"

definition handle_ccb_state :: "nat \<Rightarrow> u64 \<Rightarrow> u32 \<Rightarrow> cc_block \<Rightarrow> cc_block" where
  "handle_ccb_state conn term shard s =
     cc_emit (Reply_CLIENT_CCB_STATE_RESP conn (cb_cno' s) (leader' s) (cb_node_id' s) term shard) s"

section \<open>Creating transactions\<close>

definition create_tx_context_gut :: "int \<Rightarrow> u64 \<Rightarrow> xid_t \<Rightarrow> bool \<Rightarrow> bool \<Rightarrow> cc_block \<Rightarrow> tx_context option" where
  "create_tx_context_gut now ms xid distributed conn s = do {
     boost_assert (cc_opt_dsb_node_id' s \<noteq> Some 0);
     new_tx_context now ms (cb_shared_nothing' s) xid (cb_node_id' s) (cc_opt_dsb_node_id' s) (map_of (dsb_shard2node' s))
       (cb_cno' s) distributed conn True }"

definition create_tx_context :: "int \<Rightarrow> u64 \<Rightarrow> bool \<Rightarrow> tx_request \<Rightarrow> cc_block \<Rightarrow> cc_block option" where
  "create_tx_context now ms conn req s = do {
     ctx \<leftarrow> create_tx_context_gut now ms (tx_request.rq_xid req) (rq_distributed req) conn s;
     (ok, t) \<leftarrow> tbl_insert (tx_request.rq_xid req) ctx (tx_context' s);
     let s = s\<lparr>tx_context' := t\<rparr>;
     Some (if ok then async_run_tx_routine (Ctx_task (tx_request.rq_xid req) (Ctx_request req)) s else s) }"

definition create_tx_coordinator :: "tx_request \<Rightarrow> cc_block \<Rightarrow> cc_block option" where
  "create_tx_coordinator req s = do {
     let c = new_tx_coordinator (tx_request.rq_xid req) (cb_node_id' s) (map_of (rg_lead' s));
     (ok, t) \<leftarrow> tbl_insert (tx_request.rq_xid req) c (tx_coordinator' s);
     let s = s\<lparr>tx_coordinator' := t\<rparr>;
     if ok then do {
       (_, c) \<leftarrow> handle_tx_request req c;
       Some (s\<lparr>tx_coordinator' := tbl_store (tx_request.rq_xid req) c (tx_coordinator' s)\<rparr>) }
     else Some s }"

definition handle_non_deterministic_tx_request :: "int \<Rightarrow> u64 \<Rightarrow> tx_request \<Rightarrow> cc_block \<Rightarrow> cc_block option" where
  "handle_non_deterministic_tx_request now ms request s = do {
     (xid, seq) \<leftarrow> gen_xid (rq_terminal_id request) (sequence' s);
     let s = s\<lparr>sequence' := seq\<rparr>;
     let request = request\<lparr>rq_xid := xid\<rparr>;
     if rq_distributed request then (if cb_shared_nothing' s then create_tx_coordinator request s else Some s)
     else create_tx_context now ms True request s }"

definition handle_client_tx_request :: "int \<Rightarrow> u64 \<Rightarrow> nat \<Rightarrow> tx_request \<Rightarrow> cc_block \<Rightarrow> cc_block option" where
  "handle_client_tx_request now ms conn request s = do {
     boost_assert (rq_client_request request);
     if rq_operations request \<noteq> [] then do {
       boost_assert (rq_oneshot request);
       handle_non_deterministic_tx_request now ms request s }
     else Some (cc_emit (Reply_CLIENT_TX_RESP conn EC_OK) s) }"

definition handle_tx_tm_request :: "int \<Rightarrow> u64 \<Rightarrow> tx_request \<Rightarrow> cc_block \<Rightarrow> cc_block option" where
  "handle_tx_tm_request now ms request s = do {
     boost_assert (rq_operations request \<noteq> []);
     boost_assert (rq_distributed request);
     boost_assert (\<not> rq_client_request request);
     boost_assert (rq_oneshot request);
     boost_assert (tx_request.rq_xid request \<noteq> 0);
     create_tx_context now ms False request s }"

section \<open>Routing\<close>

definition to_context :: "xid_t \<Rightarrow> ctx_event \<Rightarrow> cc_block \<Rightarrow> cc_block option" where
  "to_context xid e s = do {
     r \<leftarrow> tbl_find xid (tx_context' s);
     Some (case r of Some _ \<Rightarrow> async_run_tx_routine (Ctx_task xid e) s | None \<Rightarrow> s) }"

definition to_coordinator :: "xid_t \<Rightarrow> tm_event \<Rightarrow> cc_block \<Rightarrow> cc_block option" where
  "to_coordinator xid e s = do {
     r \<leftarrow> tbl_find xid (tx_coordinator' s);
     Some (case r of Some _ \<Rightarrow> async_run_tx_routine (Tm_task xid e) s | None \<Rightarrow> s) }"

definition abort_tx :: "xid_t \<Rightarrow> EC \<Rightarrow> cc_block \<Rightarrow> cc_block option" where
  "abort_tx xid ec s = do {
     s \<leftarrow> to_context xid (Ctx_abort ec) s;
     if cb_shared_nothing' s then to_coordinator xid (Tm_abort ec) s else Some s }"

definition cc_handle_read_data_response :: "int \<Rightarrow> dsb_read_response \<Rightarrow> cc_block \<Rightarrow> cc_block option" where
  "cc_handle_read_data_response now r s = to_context (dr_xid r) (Ctx_dsb r now) s"

definition cc_handle_tx_rm_prepare :: "tx_rm_prepare \<Rightarrow> cc_block \<Rightarrow> cc_block option" where
  "cc_handle_tx_rm_prepare m s = to_coordinator (pr_xid m) (Tm_prepare m) s"

definition cc_handle_tx_rm_ack :: "tx_rm_ack \<Rightarrow> cc_block \<Rightarrow> cc_block option" where
  "cc_handle_tx_rm_ack m s = to_coordinator (ak_xid m) (Tm_ack m) s"

definition cc_handle_tx_tm_commit :: "tx_tm_decision \<Rightarrow> cc_block \<Rightarrow> cc_block option" where
  "cc_handle_tx_tm_commit m s = to_context (td_xid m) (Ctx_tm_commit m) s"

definition cc_handle_tx_tm_abort :: "tx_tm_decision \<Rightarrow> cc_block \<Rightarrow> cc_block option" where
  "cc_handle_tx_tm_abort m s = to_context (td_xid m) (Ctx_tm_abort m) s"

definition cc_handle_tx_tm_end :: "tx_tm_end \<Rightarrow> cc_block \<Rightarrow> cc_block option" where
  "cc_handle_tx_tm_end m s = to_context (te_xid m) Ctx_tm_end s"

section \<open>Committed logs\<close>

definition rlb_commit_entries_to_proto_set ::
  "(u8 list \<Rightarrow> tx_log option) \<Rightarrow> node_id_t \<Rightarrow> u8 list \<Rightarrow> (tx_log \<times> u64) list option" where
  "rlb_commit_entries_to_proto_set parse node logs =
     (case tx_logs_to_proto_and_timestamp (length logs) parse logs of
        Done rs \<Rightarrow> Some (map (\<lambda>(p, ts, n). (p, ts)) (filter (\<lambda>(p, ts, n). node = n) rs))
      | _ \<Rightarrow> None)"

definition commit_log_entry :: "(node_id_t \<Rightarrow> bool) \<Rightarrow> int \<Rightarrow> tx_log \<times> u64 \<Rightarrow> cc_block \<Rightarrow> cc_block option" where
  "commit_log_entry sent now r s =
     (let (xl, latency) = r; t = tl_log_type xl in
      if t \<in> {TX_CMD_TM_ABORT, TX_CMD_TM_COMMIT, TX_CMD_TM_BEGIN, TX_CMD_TM_END}
      then to_coordinator (tl_xid xl) (Tm_log_commit sent t) s
      else if t \<in> {TX_CMD_RM_PREPARE_ABORT, TX_CMD_RM_PREPARE_COMMIT, TX_CMD_RM_ABORT, TX_CMD_RM_COMMIT, TX_CMD_RM_BEGIN}
      then to_context (tl_xid xl) (Ctx_log t now latency) s
      else Some s)"

definition handle_append_log_response ::
  "(u8 list \<Rightarrow> tx_log option) \<Rightarrow> (node_id_t \<Rightarrow> bool) \<Rightarrow> int \<Rightarrow> rlb_commit_entries \<Rightarrow> cc_block \<Rightarrow> cc_block option" where
  "handle_append_log_response parse sent now m s = do {
     protos \<leftarrow> rlb_commit_entries_to_proto_set parse (cb_node_id' s) (ce_repeated_tx_logs m);
     if ce_error_code m \<noteq> EC_OK
     then run (\<lambda>xid. abort_tx xid EC_APPEND_LOG_ERROR) (sort (remdups (map (\<lambda>(p, ts). tl_xid p) protos))) s
     else run (commit_log_entry sent now) protos s }"

section \<open>The strands\<close>

text \<open>The callbacks of a transaction that ends remove it from its table.\<close>

definition ctx_removed :: "rm_effect list \<Rightarrow> bool" where
  "ctx_removed es = list_ex (\<lambda>e. case e of Fn_tx_state x st \<Rightarrow> st = RM_ABORTING \<or> st = RM_COMMITTING \<or> st = RM_ENDED | _ \<Rightarrow> False) es"

definition tm_removed :: "tm_effect list \<Rightarrow> bool" where
  "tm_removed es = list_ex (\<lambda>e. case e of Fn_tm_state x st \<Rightarrow> st = TM_DONE | _ \<Rightarrow> False) es"

definition run_ctx_task :: "int \<Rightarrow> xid_t \<Rightarrow> ctx_event \<Rightarrow> cc_block \<Rightarrow> cc_block option" where
  "run_ctx_task now xid e s = do {
     r \<leftarrow> tbl_find xid (tx_context' s);
     c \<leftarrow> r;
     (a, c') \<leftarrow> ctx_step (now, e) (access' s, c);
     let t = tbl_store xid c' (tx_context' s);
     t \<leftarrow> (if ctx_removed (drop (length (tx_context.out' c)) (tx_context.out' c')) then tbl_remove xid t else Some t);
     Some (s\<lparr>access' := a, tx_context' := t\<rparr>) }"

definition run_tm_task :: "xid_t \<Rightarrow> tm_event \<Rightarrow> cc_block \<Rightarrow> cc_block option" where
  "run_tm_task xid e s = do {
     r \<leftarrow> tbl_find xid (tx_coordinator' s);
     c \<leftarrow> r;
     c' \<leftarrow> tm_step e c;
     let t = tbl_store xid c' (tx_coordinator' s);
     t \<leftarrow> (if tm_removed (drop (length (tx_coordinator.out' c)) (tx_coordinator.out' c')) then tbl_remove xid t else Some t);
     Some (s\<lparr>tx_coordinator' := t\<rparr>) }"

definition same_strand :: "cc_task \<Rightarrow> cc_task \<Rightarrow> bool" where
  "same_strand a b = (case (a, b) of (Ctx_task x _, Ctx_task y _) \<Rightarrow> x = y | (Tm_task x _, Tm_task y _) \<Rightarrow> x = y | _ \<Rightarrow> False)"

text \<open>Some thread runs the routine at position \<^term>\<open>i\<close>, if none of its strand is before it.\<close>

definition run_task :: "int \<Rightarrow> nat \<Rightarrow> cc_block \<Rightarrow> cc_block option" where
  "run_task now i s =
     (if i < length (tasks' s) \<and> \<not> list_ex (same_strand (tasks' s ! i)) (take i (tasks' s)) then
        let t = tasks' s ! i; s = s\<lparr>tasks' := take i (tasks' s) @ drop (Suc i) (tasks' s)\<rparr> in
        case t of Ctx_task xid e \<Rightarrow> run_ctx_task now xid e s | Tm_task xid e \<Rightarrow> run_tm_task xid e s
      else Some s)"

section \<open>All inputs of the block\<close>

datatype cc_input =
    Cc_start
  | Cc_tick
  | Cc_registered rlb_register_ccb_response
  | Cc_inconsistent
  | Cc_warm_up nat warm_up_req
  | Cc_warm_up_resp warm_up_resp
  | Cc_lead_status nat
  | Cc_state nat u64 u32
  | Cc_client nat tx_request
  | Cc_tm_request tx_request
  | Cc_commit_entries rlb_commit_entries
  | Cc_read_data dsb_read_response
  | Cc_rm_prepare tx_rm_prepare
  | Cc_rm_ack tx_rm_ack
  | Cc_tm_commit tx_tm_decision
  | Cc_tm_abort tx_tm_decision
  | Cc_tm_end tx_tm_end
  | Cc_victim xid_t
  | Cc_lock_granted xid_t EC
  | Cc_operation_done xid_t
  | Cc_run nat

definition ccb_handle ::
  "(u8 list \<Rightarrow> tx_log option) \<Rightarrow> (node_id_t \<Rightarrow> bool) \<Rightarrow> int \<times> u64 \<times> cc_input \<Rightarrow> cc_block \<Rightarrow> cc_block option" where
  "ccb_handle parse sent m s = (case m of (now, ms, i) \<Rightarrow> (case i of
     Cc_start \<Rightarrow> Some (cc_on_start s)
   | Cc_tick \<Rightarrow> Some (cc_send_register s)
   | Cc_registered r \<Rightarrow> handle_register_ccb_response r s
   | Cc_inconsistent \<Rightarrow> Some (handle_error_consistency s)
   | Cc_warm_up conn req \<Rightarrow> cc_handle_warm_up_req conn req s
   | Cc_warm_up_resp r \<Rightarrow> cc_handle_warm_up_resp r s
   | Cc_lead_status conn \<Rightarrow> Some (handle_lead_status_request conn s)
   | Cc_state conn term shard \<Rightarrow> Some (handle_ccb_state conn term shard s)
   | Cc_client conn req \<Rightarrow> handle_client_tx_request now ms conn req s
   | Cc_tm_request req \<Rightarrow> handle_tx_tm_request now ms req s
   | Cc_commit_entries e \<Rightarrow> handle_append_log_response parse sent now e s
   | Cc_read_data r \<Rightarrow> cc_handle_read_data_response now r s
   | Cc_rm_prepare p \<Rightarrow> cc_handle_tx_rm_prepare p s
   | Cc_rm_ack a \<Rightarrow> cc_handle_tx_rm_ack a s
   | Cc_tm_commit d \<Rightarrow> cc_handle_tx_tm_commit d s
   | Cc_tm_abort d \<Rightarrow> cc_handle_tx_tm_abort d s
   | Cc_tm_end e \<Rightarrow> cc_handle_tx_tm_end e s
   | Cc_victim xid \<Rightarrow> abort_tx xid EC_VICTIM s
   | Cc_lock_granted xid ec \<Rightarrow> to_context xid (Ctx_locked ec) s
   | Cc_operation_done xid \<Rightarrow> to_context xid Ctx_op_done s
   | Cc_run n \<Rightarrow> run_task now n s))"

end
