(* ===== verification/CC_Typed.thy ===== *)
theory CC_Typed
  imports CC_Block
begin

text \<open>
  The tables of the block are typed: whatever the inputs, an entry is the transaction of its
  key, and every routine that waits on a strand belongs to an entry and carries a message that is
  addressed to it.
\<close>

section \<open>Identity\<close>

lemma rm_move_ids:
  "rm_move e s s' \<Longrightarrow> tx_context.xid' s' = tx_context.xid' s \<and> tx_context.node_id' s' = tx_context.node_id' s"
  by (induction rule: rm_move.induct)
    (auto simp: still_def locking_def forced_def voted_def released_def rm_core_def tx_ended_def rm_emit_def)

lemma process_tx_request_ids:
  assumes "process_tx_request a req s = Some s'"
  shows "tx_context.xid' s' = tx_context.xid' s \<and> tx_context.node_id' s' = tx_context.node_id' s"
  using process_tx_request_start[OF assms] rm_move_ids[OF handle_next_move[OF _ still_refl]] by metis

definition ctx_runs :: "ctx_event \<Rightarrow> bool" where
  "ctx_runs e \<longleftrightarrow> (\<forall>ms. e \<noteq> Ctx_timeout ms)"

lemma ctx_step_ids:
  assumes run: "ctx_step (now, e) (a, s) = Some (a', s')" and e: "ctx_runs e"
  shows "tx_context.xid' s' = tx_context.xid' s \<and> tx_context.node_id' s' = tx_context.node_id' s"
proof -
  let ?s = "s\<lparr>now' := now\<rparr>"
  consider r ts where "read_data_from_dsb_response r ts (a, ?s) = Some (a', s')"
    | req where "process_tx_request a req ?s = Some s'"
    | "ctx_handle e a ?s = Some s'" "is_turn e"
    using run e by (cases e) (auto simp: ctx_step_def ctx_handle_def is_turn_def ctx_runs_def Let_def)
  then show ?thesis
  proof cases
    case 1
    then show ?thesis using dsb_response_still by (force simp: still_def rm_core_def)
  next
    case 2
    then show ?thesis using process_tx_request_ids by force
  next
    case 3
    then show ?thesis using rm_move_ids[OF ctx_handle_move] by force
  qed
qed

definition tm_ids :: "tx_coordinator \<Rightarrow> xid_t \<times> node_id_t" where
  "tm_ids c = (tx_coordinator.xid' c, tx_coordinator.node_id' c)"

lemma tm_quiet_ids: "tm_quiet c c' \<Longrightarrow> tm_ids c' = tm_ids c"
  by (simp add: tm_quiet_def tm_ids_def)

lemma tm_ids_fields [simp]:
  "tm_ids (c\<lparr>rm_tracer' := t\<rparr>) = tm_ids c" "tm_ids (c\<lparr>stats' := g\<rparr>) = tm_ids c" "tm_ids (tm_emit e c) = tm_ids c"
  "tm_ids (c\<lparr>tx_coordinator.error_code' := ec\<rparr>) = tm_ids c" "tm_ids (set_rm_state sd st c) = tm_ids c"
  by (simp_all add: tm_ids_def tm_emit_def set_rm_state_def)

lemma send_requests_ids: "tm_ids (snd (send_requests sent trs c)) = tm_ids c"
  by (induction sent trs c rule: send_requests.induct) (simp_all add: Let_def)

lemma add_operation_ids: "tm_ids (add_operation req op c) = tm_ids c" "tm_ids (set_lead sd lead c) = tm_ids c"
  by (simp_all add: add_operation_def set_lead_def Let_def tm_ids_def)

lemma trace_operations_ids: "tm_ids (snd (trace_operations req ops c)) = tm_ids c"
proof (induction ops arbitrary: c)
  case (Cons op ops)
  then show ?case by (simp only: trace_operations.simps Let_def) (simp add: add_operation_ids split: option.split)
qed simp

lemma on_begin_ids: "tm_ids (on_begin sent c) = tm_ids c"
  using send_requests_ids[of sent "rm_tracer' c" c] tm_quiet_ids[OF tm_quiet_send(3)]
  by (auto simp: on_begin_def send_rm_request_def split: prod.split)

lemma handle_tx_request_ids: "handle_tx_request req c = Some (r, c') \<Longrightarrow> tm_ids c' = tm_ids c"
  using trace_operations_ids[of req "rq_operations req" c]
  by (auto simp: handle_tx_request_def write_begin_log_def tm_ids_def tm_emit_def split: prod.splits if_splits)

lemma tm_step_ids: "tm_step e c = Some c' \<Longrightarrow> tm_ids c' = tm_ids c"
  using tm_quiet_ids[OF tm_quiet_handlers(1)] tm_quiet_ids[OF tm_quiet_handlers(2)] tm_quiet_ids[OF tm_quiet_handlers(3)]
    tm_quiet_ids[OF step_tm_state_advance_quiet] tm_quiet_ids[OF tm_quiet_send(7)]
  by (auto simp: tm_step_def Tx_Coordinator.on_log_entry_commit_def handle_tx_rm_prepare_def handle_tx_rm_ack_def on_begin_ids Let_def
      split: tm_event.splits tx_cmd_type.splits option.splits if_splits)

section \<open>The type invariant\<close>

definition contexts_typed :: "node_id_t \<Rightarrow> tx_context tx_table \<Rightarrow> bool" where
  "contexts_typed node t \<longleftrightarrow>
     (\<forall>x c. tbl_find x t = Some (Some c) \<longrightarrow> tx_context.xid' c = x \<and> tx_context.node_id' c = node)"

definition coordinators_typed :: "node_id_t \<Rightarrow> tx_coordinator tx_table \<Rightarrow> bool" where
  "coordinators_typed node t \<longleftrightarrow> (\<forall>x c. tbl_find x t = Some (Some c) \<longrightarrow> tm_ids c = (x, node))"

text \<open>The transaction that the message of a routine names.\<close>

fun ctx_addressed :: "xid_t \<Rightarrow> ctx_event \<Rightarrow> bool" where
  "ctx_addressed x (Ctx_request req) \<longleftrightarrow> tx_request.rq_xid req = x"
| "ctx_addressed x (Ctx_dsb r ts) \<longleftrightarrow> dr_xid r = x"
| "ctx_addressed x (Ctx_tm_commit m) \<longleftrightarrow> td_xid m = x"
| "ctx_addressed x (Ctx_tm_abort m) \<longleftrightarrow> td_xid m = x"
| "ctx_addressed x (Ctx_timeout ms) \<longleftrightarrow> False"
| "ctx_addressed x e \<longleftrightarrow> True"

fun tm_addressed :: "xid_t \<Rightarrow> tm_event \<Rightarrow> bool" where
  "tm_addressed x (Tm_prepare m) \<longleftrightarrow> pr_xid m = x"
| "tm_addressed x (Tm_ack m) \<longleftrightarrow> ak_xid m = x"
| "tm_addressed x e \<longleftrightarrow> True"

definition tbl_has :: "'v tx_table \<Rightarrow> xid_t \<Rightarrow> bool" where
  "tbl_has t x \<longleftrightarrow> (case tbl_find x t of Some (Some _) \<Rightarrow> True | _ \<Rightarrow> False)"

fun task_typed :: "tx_context tx_table \<Rightarrow> tx_coordinator tx_table \<Rightarrow> cc_task \<Rightarrow> bool" where
  "task_typed a b (Ctx_task x e) \<longleftrightarrow> tbl_has a x \<and> ctx_addressed x e"
| "task_typed a b (Tm_task x e) \<longleftrightarrow> tbl_has b x \<and> tm_addressed x e"

definition cc_typed :: "cc_block \<Rightarrow> bool" where
  "cc_typed s \<longleftrightarrow> contexts_typed (cb_node_id' s) (tx_context' s) \<and> coordinators_typed (cb_node_id' s) (tx_coordinator' s) \<and>
     list_all (task_typed (tx_context' s) (tx_coordinator' s)) (tasks' s)"

text \<open>Handlers that leave tables and strands alone.\<close>

definition cc_same :: "cc_block \<Rightarrow> cc_block \<Rightarrow> bool" where
  "cc_same s s' \<longleftrightarrow> cb_node_id' s' = cb_node_id' s \<and> tx_context' s' = tx_context' s \<and> tx_coordinator' s' = tx_coordinator' s \<and>
     tasks' s' = tasks' s"

lemma cc_same_typed: "cc_same s s' \<Longrightarrow> cc_typed s \<Longrightarrow> cc_typed s'"
  by (simp add: cc_same_def cc_typed_def)

lemma task_typed_mono:
  assumes "\<And>x. tbl_has a x \<Longrightarrow> tbl_has a' x" "\<And>x. tbl_has b x \<Longrightarrow> tbl_has b' x"
  shows "list_all (task_typed a b) ts \<Longrightarrow> list_all (task_typed a' b') ts"
proof -
  have "task_typed a' b' t" if "task_typed a b t" for t using that assms by (cases t) auto
  then show "list_all (task_typed a b) ts \<Longrightarrow> list_all (task_typed a' b') ts" by (auto simp: list_all_iff)
qed

section \<open>Preservation\<close>

lemma cc_typed_post: "cc_typed s \<Longrightarrow> task_typed (tx_context' s) (tx_coordinator' s) t \<Longrightarrow> cc_typed (async_run_tx_routine t s)"
  by (simp add: cc_typed_def async_run_tx_routine_def)

lemma to_context_typed:
  assumes "to_context x e s = Some s'" "cc_typed s" "ctx_addressed x e"
  shows "cc_typed s'"
  using assms by (auto simp: to_context_def tbl_has_def split: option.splits dest!: bind_SomeD intro!: cc_typed_post)

lemma to_coordinator_typed:
  assumes "to_coordinator x e s = Some s'" "cc_typed s" "tm_addressed x e"
  shows "cc_typed s'"
  using assms by (auto simp: to_coordinator_def tbl_has_def split: option.splits dest!: bind_SomeD intro!: cc_typed_post)

lemmas ctx_anyone = ctx_addressed.simps(6-)[THEN iffD2, OF TrueI]
lemmas tm_anyone = tm_addressed.simps(3-)[THEN iffD2, OF TrueI]

lemma abort_tx_typed:
  assumes "abort_tx x ec s = Some s'" "cc_typed s"
  shows "cc_typed s'"
proof -
  obtain t where t: "to_context x (Ctx_abort ec) s = Some t"
    and s': "(if cb_shared_nothing' t then to_coordinator x (Tm_abort ec) t else Some t) = Some s'"
    using assms(1) by (auto simp: abort_tx_def dest!: bind_SomeD)
  have "cc_typed t" by (rule to_context_typed[OF t assms(2) ctx_anyone(5)])
  then show ?thesis using s' to_coordinator_typed[OF _ _ tm_anyone(2)] by (auto split: if_splits)
qed

lemma commit_log_entry_typed:
  assumes "commit_log_entry sent now r s = Some s'" "cc_typed s"
  shows "cc_typed s'"
proof -
  obtain xl l where r: "r = (xl, l)" by (cases r)
  consider "to_coordinator (tl_xid xl) (Tm_log_commit sent (tl_log_type xl)) s = Some s'"
    | "to_context (tl_xid xl) (Ctx_log (tl_log_type xl) now l) s = Some s'" | "s' = s"
    using assms(1) unfolding commit_log_entry_def r Let_def prod.case by (metis option.inject)
  then show ?thesis
    using to_context_typed[OF _ assms(2) ctx_anyone(3)] to_coordinator_typed[OF _ assms(2) tm_anyone(1)] assms(2)
    by cases auto
qed

lemma run_typed:
  assumes "\<And>c s s'. step c s = Some s' \<Longrightarrow> cc_typed s \<Longrightarrow> cc_typed s'"
  shows "run step cs s = Some s' \<Longrightarrow> cc_typed s \<Longrightarrow> cc_typed s'"
  using assms by (induction cs arbitrary: s) (auto split: option.splits)

lemma handle_append_log_response_typed:
  assumes "handle_append_log_response parse sent now m s = Some s'" "cc_typed s"
  shows "cc_typed s'"
  using assms run_typed[of "\<lambda>xid. abort_tx xid EC_APPEND_LOG_ERROR", OF abort_tx_typed]
    run_typed[of "commit_log_entry sent now", OF commit_log_entry_typed]
  by (auto simp: handle_append_log_response_def split: if_splits dest!: bind_SomeD)

text \<open>New entries and changed ones.\<close>

lemma tbl_has_insert: "tbl_insert x v t = Some (ok, t') \<Longrightarrow> tbl_has t y \<Longrightarrow> tbl_has t' y"
  by (auto simp: tbl_has_def tbl_find_insert split: option.splits if_splits)

lemma tbl_insert_has:
  assumes "tbl_insert x v t = Some (ok, t')"
  shows "tbl_has t' x"
proof -
  have "tbl_find x t \<noteq> None" using assms by (auto simp: tbl_insert_def tbl_find_def dest!: bind_SomeD)
  then show ?thesis using tbl_find_insert[OF assms, of x] by (auto simp: tbl_has_def split: option.splits if_splits)
qed

lemma tbl_has_store: "tbl_has t y \<Longrightarrow> tbl_has (tbl_store x v t) y"
  by (auto simp: tbl_has_def tbl_find_store split: option.splits if_splits)

lemma contexts_typed_insert:
  "contexts_typed n t \<Longrightarrow> tbl_insert x c t = Some (ok, t') \<Longrightarrow> tx_context.xid' c = x \<Longrightarrow> tx_context.node_id' c = n \<Longrightarrow> contexts_typed n t'"
  by (auto simp: contexts_typed_def tbl_find_insert split: if_splits)

lemma coordinators_typed_insert:
  "coordinators_typed n t \<Longrightarrow> tbl_insert x c t = Some (ok, t') \<Longrightarrow> tm_ids c = (x, n) \<Longrightarrow> coordinators_typed n t'"
  by (auto simp: coordinators_typed_def tbl_find_insert split: if_splits)

lemma contexts_typed_store:
  "contexts_typed n t \<Longrightarrow> tx_context.xid' c = x \<Longrightarrow> tx_context.node_id' c = n \<Longrightarrow> contexts_typed n (tbl_store x c t)"
  by (auto simp: contexts_typed_def tbl_find_store split: if_splits)

lemma coordinators_typed_store:
  "coordinators_typed n t \<Longrightarrow> tm_ids c = (x, n) \<Longrightarrow> coordinators_typed n (tbl_store x c t)"
  by (auto simp: coordinators_typed_def tbl_find_store split: if_splits)

lemma create_tx_context_typed:
  assumes run: "create_tx_context now ms conn req s = Some s'" and ty: "cc_typed s"
  shows "cc_typed s'"
proof -
  let ?x = "tx_request.rq_xid req"
  obtain c ok t where c: "create_tx_context_gut now ms ?x (rq_distributed req) conn s = Some c"
    and t: "tbl_insert ?x c (tx_context' s) = Some (ok, t)"
    and s': "s' = (if ok then async_run_tx_routine (Ctx_task ?x (Ctx_request req)) (s\<lparr>tx_context' := t\<rparr>) else s\<lparr>tx_context' := t\<rparr>)"
    using run by (auto simp: create_tx_context_def Let_def dest!: bind_SomeD)
  have ids: "tx_context.xid' c = ?x" "tx_context.node_id' c = cb_node_id' s"
    using c by (auto simp: create_tx_context_gut_def new_tx_context_def dest!: bind_SomeD split: if_splits)
  have "cc_typed (s\<lparr>tx_context' := t\<rparr>)"
    using ty contexts_typed_insert[OF _ t ids] task_typed_mono[OF tbl_has_insert[OF t]] by (auto simp: cc_typed_def)
  then show ?thesis using s' tbl_insert_has[OF t] by (auto intro: cc_typed_post)
qed

lemma create_tx_coordinator_typed:
  assumes run: "create_tx_coordinator req s = Some s'" and ty: "cc_typed s"
  shows "cc_typed s'"
proof -
  let ?x = "tx_request.rq_xid req" and ?c = "new_tx_coordinator (tx_request.rq_xid req) (cb_node_id' s) (map_of (rg_lead' s))"
  obtain ok t where t: "tbl_insert ?x ?c (tx_coordinator' s) = Some (ok, t)"
    and s': "s' = s\<lparr>tx_coordinator' := t\<rparr> \<or>
      (\<exists>r c. handle_tx_request req ?c = Some (r, c) \<and> s' = s\<lparr>tx_coordinator' := tbl_store ?x c t\<rparr>)"
    using run by (auto simp: create_tx_coordinator_def Let_def split: if_splits dest!: bind_SomeD)
  have ids: "tm_ids ?c = (?x, cb_node_id' s)" by (simp add: tm_ids_def new_tx_coordinator_def)
  have ty': "coordinators_typed (cb_node_id' s) t"
    using ty coordinators_typed_insert[OF _ t ids] by (simp add: cc_typed_def)
  have "cc_typed (s\<lparr>tx_coordinator' := t\<rparr>)"
    using ty ty' task_typed_mono[OF _ tbl_has_insert[OF t]] by (auto simp: cc_typed_def)
  moreover have "cc_typed (s\<lparr>tx_coordinator' := tbl_store ?x c t\<rparr>)" if "handle_tx_request req ?c = Some (r, c)" for r c
    using ty coordinators_typed_store[OF ty'] handle_tx_request_ids[OF that] ids
      task_typed_mono[OF _ tbl_has_store[OF tbl_has_insert[OF t]]] by (auto simp: cc_typed_def)
  ultimately show ?thesis using s' by blast
qed

lemma run_ctx_task_typed:
  assumes run: "run_ctx_task now x e s = Some s'" and ty: "cc_typed s" and e: "ctx_addressed x e"
  shows "cc_typed s'"
proof -
  obtain c a c' where c: "tbl_find x (tx_context' s) = Some (Some c)"
    and st: "ctx_step (now, e) (access' s, c) = Some (a, c')"
    and s': "s' = s\<lparr>access' := a, tx_context' := tbl_store x c' (tx_context' s)\<rparr>"
    using run by (auto simp: run_ctx_task_def Let_def split: if_splits dest!: bind_SomeD tbl_remove_same)
  have "tx_context.xid' c' = x" "tx_context.node_id' c' = cb_node_id' s"
    using ctx_step_ids[OF st] c ty e by (cases e; auto simp: ctx_runs_def cc_typed_def contexts_typed_def)+
  then show ?thesis
    using ty contexts_typed_store task_typed_mono[OF tbl_has_store] by (auto simp: s' cc_typed_def)
qed

lemma run_tm_task_typed:
  assumes run: "run_tm_task x e s = Some s'" and ty: "cc_typed s"
  shows "cc_typed s'"
proof -
  obtain c c' where c: "tbl_find x (tx_coordinator' s) = Some (Some c)" and st: "tm_step e c = Some c'"
    and s': "s' = s\<lparr>tx_coordinator' := tbl_store x c' (tx_coordinator' s)\<rparr>"
    using run by (auto simp: run_tm_task_def Let_def split: if_splits dest!: bind_SomeD tbl_remove_same)
  have "tm_ids c' = (x, cb_node_id' s)"
    using tm_step_ids[OF st] c ty by (auto simp: cc_typed_def coordinators_typed_def)
  then show ?thesis
    using ty coordinators_typed_store task_typed_mono[OF _ tbl_has_store] by (auto simp: s' cc_typed_def)
qed

lemma run_task_typed:
  assumes run: "run_task now i s = Some s'" and ty: "cc_typed s"
  shows "cc_typed s'"
proof (cases "i < length (tasks' s) \<and> \<not> list_ex (same_strand (tasks' s ! i)) (take i (tasks' s))")
  case True
  let ?s = "s\<lparr>tasks' := take i (tasks' s) @ drop (Suc i) (tasks' s)\<rparr>"
  have t: "task_typed (tx_context' s) (tx_coordinator' s) (tasks' s ! i)"
    using ty True by (auto simp: cc_typed_def list_all_length)
  have "cc_typed ?s"
    using ty by (auto simp: cc_typed_def list_all_iff dest: in_set_takeD in_set_dropD)
  then show ?thesis
    using run True t run_ctx_task_typed run_tm_task_typed
    by (auto simp: run_task_def Let_def split: cc_task.splits)
qed (use run ty in \<open>auto simp: run_task_def\<close>)

text \<open>The other handlers.\<close>

lemma cc_same_emit [simp]: "cc_same s (cc_emit m t) = cc_same s t"
  by (simp add: cc_same_def cc_emit_def)

lemma cc_same_refl [simp]: "cc_same s s"
  by (simp add: cc_same_def)

lemma cc_on_start_same: "cc_same s (cc_on_start s)"
proof -
  have "cc_same s (fold (\<lambda>(sd, n) s. if sd = neighbour_shard' s then cc_emit (Set_next_node n) s else s) ls t)" if "cc_same s t" for ls t
    using that by (induction ls arbitrary: t) auto
  then show ?thesis by (simp add: cc_on_start_def)
qed

lemma cc_quiet_same:
  "cc_same s (cc_send_register s)" "cc_same s (handle_error_consistency s)" "cc_same s (handle_lead_status_request c s)"
  "cc_same s (handle_ccb_state c tm sh s)"
  by (simp_all add: cc_send_register_def handle_error_consistency_def handle_lead_status_request_def handle_ccb_state_def Let_def)
    (simp_all add: cc_same_def)

lemma handle_register_ccb_response_same: "handle_register_ccb_response r s = Some s' \<Longrightarrow> cc_same s s'"
  by (auto simp: handle_register_ccb_response_def Let_def cc_same_def cc_emit_def split: if_splits list.splits)

lemma cc_warm_up_same:
  "cc_handle_warm_up_req c req s = Some s' \<Longrightarrow> cc_same s s'"
  "cc_handle_warm_up_resp r s = Some s' \<Longrightarrow> cc_same s s'"
  by (auto simp: cc_handle_warm_up_req_def cc_handle_warm_up_resp_def Let_def cc_same_def cc_emit_def
      split: if_splits list.splits option.splits prod.splits dest!: bind_SomeD)

lemma handle_client_tx_request_typed:
  assumes run: "handle_client_tx_request now ms conn req s = Some s'" and ty: "cc_typed s"
  shows "cc_typed s'"
proof (cases "rq_operations req = []")
  case True
  then have "cc_same s s'" using run by (auto simp: handle_client_tx_request_def dest!: bind_SomeD split: if_splits)
  then show ?thesis using ty by (rule cc_same_typed)
next
  case False
  obtain x q where s': "(let s = s\<lparr>sequence' := q\<rparr>; request = req\<lparr>rq_xid := x\<rparr> in
      if rq_distributed request then (if cb_shared_nothing' s then create_tx_coordinator request s else Some s)
      else create_tx_context now ms True request s) = Some s'"
    using run False
    by (auto simp: handle_client_tx_request_def handle_non_deterministic_tx_request_def split: if_splits dest!: bind_SomeD)
  have "cc_typed (s\<lparr>sequence' := q\<rparr>)" using ty by (simp add: cc_typed_def)
  then show ?thesis
    using s' create_tx_coordinator_typed create_tx_context_typed unfolding Let_def by (auto split: if_splits)
qed

lemma handle_tx_tm_request_typed: "handle_tx_tm_request now ms req s = Some s' \<Longrightarrow> cc_typed s \<Longrightarrow> cc_typed s'"
  using create_tx_context_typed by (auto simp: handle_tx_tm_request_def split: if_splits)

lemma ccb_route_typed:
  "cc_handle_read_data_response now r s = Some s' \<Longrightarrow> cc_typed s \<Longrightarrow> cc_typed s'"
  "cc_handle_tx_rm_prepare p s = Some s' \<Longrightarrow> cc_typed s \<Longrightarrow> cc_typed s'"
  "cc_handle_tx_rm_ack k s = Some s' \<Longrightarrow> cc_typed s \<Longrightarrow> cc_typed s'"
  "cc_handle_tx_tm_commit d s = Some s' \<Longrightarrow> cc_typed s \<Longrightarrow> cc_typed s'"
  "cc_handle_tx_tm_abort d s = Some s' \<Longrightarrow> cc_typed s \<Longrightarrow> cc_typed s'"
  "cc_handle_tx_tm_end e s = Some s' \<Longrightarrow> cc_typed s \<Longrightarrow> cc_typed s'"
  "to_context x (Ctx_locked ec) s = Some s' \<Longrightarrow> cc_typed s \<Longrightarrow> cc_typed s'"
  "to_context x Ctx_op_done s = Some s' \<Longrightarrow> cc_typed s \<Longrightarrow> cc_typed s'"
  unfolding cc_handle_read_data_response_def cc_handle_tx_rm_prepare_def cc_handle_tx_rm_ack_def
    cc_handle_tx_tm_commit_def cc_handle_tx_tm_abort_def cc_handle_tx_tm_end_def
  by (erule (1) to_context_typed to_coordinator_typed; simp)+

lemma ccb_handle_typed:
  assumes "ccb_handle parse sent m s = Some s'" "cc_typed s"
  shows "cc_typed s'"
proof -
  obtain now ms i where m: "m = (now, ms, i)" by (cases m)
  show ?thesis
    using assms(1)[unfolded ccb_handle_def m prod.case] assms(2)
      cc_same_typed[OF cc_on_start_same] cc_same_typed[OF cc_quiet_same(1)] cc_same_typed[OF cc_quiet_same(2)]
      cc_same_typed[OF cc_quiet_same(3)] cc_same_typed[OF cc_quiet_same(4)]
      cc_same_typed[OF handle_register_ccb_response_same] cc_same_typed[OF cc_warm_up_same(1)] cc_same_typed[OF cc_warm_up_same(2)]
      handle_client_tx_request_typed handle_tx_tm_request_typed handle_append_log_response_typed ccb_route_typed
      abort_tx_typed run_task_typed
    by (cases i) auto
qed

lemma new_cc_block_typed: "new_cc_block node rlb sh ash sn leads n = Some s \<Longrightarrow> cc_typed s"
  by (auto simp: new_cc_block_def cc_typed_def contexts_typed_def coordinators_typed_def tbl_find_def tbl_at_def cht_find_def Let_def
      split: if_splits dest!: bind_SomeD)


text \<open>A client starts a local transaction.\<close>

definition demo_client_request :: tx_request where
  "demo_client_request = no_request\<lparr>rq_client_request := True, rq_oneshot := True, rq_terminal_id := 1, rq_operations := [no_operation]\<rparr>"


end
