(* ===== verification/Spec2Isabelle.thy ===== *)
theory Spec2Isabelle
  imports Deadlock Lock_Mgr Raft_Log Tx_Round Two_PC Calvin_Epochs Calvin_Commit Log_Service DS_Replay CC_Typed
begin

text \<open>
  Verification of the transactional database \<^verbatim>\<open>tddb\<close>.
\<close>

end
